(* ===== verification/Prelude.thy ===== *)
theory Prelude
  imports Main "HOL-Library.AList" "HOL-Library.Multiset"
begin

text \<open>
  Shared ground of the development: the parts of the Go language and of its standard
  library that the tailswarm sources use, as executable definitions, with the facts about
  them that the component theories rely on.

  \<^item> A Go \<^verbatim>\<open>string\<close> is a byte sequence, and so is a HOL \<open>string\<close> (a list of 8-bit
    characters): \<^verbatim>\<open>len\<close>, slicing and comparison agree. The functions of package
    \<^verbatim>\<open>strings\<close> are defined below on bytes.
  \<^item> A Go \<^verbatim>\<open>map\<close> is an association list with distinct keys (\<open>gomap\<close>), so that \<^verbatim>\<open>len\<close>
    and \<^verbatim>\<open>range\<close> have a meaning. The order of \<^verbatim>\<open>range\<close> is unspecified in Go: where a loop
    ranges over a map, the order is an argument of the model.
  \<^item> A Go \<^verbatim>\<open>error\<close> is a value of \<open>goerr\<close>; \<^verbatim>\<open>(T, error)\<close> is \<open>goerr + T\<close>, a bare \<^verbatim>\<open>error\<close>
    is \<open>goerr option\<close> with \<open>None\<close> for \<^verbatim>\<open>nil\<close>.
\<close>

named_theorems go_string \<open>characterisations of the functions of package strings\<close>
named_theorems go_map \<open>lookup, update and deletion on Go maps\<close>

section \<open>Package strings\<close>

fun has_prefix :: "string \<Rightarrow> string \<Rightarrow> bool" where
  "has_prefix s [] = True"
| "has_prefix [] (c # p) = False"
| "has_prefix (x # s) (c # p) = (x = c \<and> has_prefix s p)"

definition has_suffix :: "string \<Rightarrow> string \<Rightarrow> bool" where
  "has_suffix s p = has_prefix (rev s) (rev p)"

definition trim_prefix :: "string \<Rightarrow> string \<Rightarrow> string" where
  "trim_prefix s p = (if has_prefix s p then drop (length p) s else s)"

text \<open>\<^verbatim>\<open>strings.Index\<close>: the offset of the first occurrence, \<open>None\<close> for \<^verbatim>\<open>-1\<close>.\<close>

fun str_index :: "string \<Rightarrow> string \<Rightarrow> nat option" where
  "str_index [] sub = (if sub = [] then Some 0 else None)"
| "str_index (x # s) sub =
     (if has_prefix (x # s) sub then Some 0 else map_option Suc (str_index s sub))"

text \<open>\<^verbatim>\<open>strings.Split\<close> and \<^verbatim>\<open>strings.Cut\<close> at a one-byte separator, and \<^verbatim>\<open>strings.Join\<close>.\<close>

fun split_on :: "char \<Rightarrow> string \<Rightarrow> string list" where
  "split_on c [] = [[]]"
| "split_on c (x # s) =
     (if x = c then [] # split_on c s
      else (case split_on c s of [] \<Rightarrow> [[x]] | y # ys \<Rightarrow> (x # y) # ys))"

fun cut_at :: "char \<Rightarrow> string \<Rightarrow> string \<times> string \<times> bool" where
  "cut_at c [] = ([], [], False)"
| "cut_at c (x # s) =
     (if x = c then ([], s, True)
      else (case cut_at c s of (a, b, ok) \<Rightarrow> (x # a, b, ok)))"

fun join_on :: "char \<Rightarrow> string list \<Rightarrow> string" where
  "join_on c [] = []"
| "join_on c [x] = x"
| "join_on c (x # y # xs) = x @ c # join_on c (y # xs)"

text \<open>
  \<^verbatim>\<open>strings.TrimSpace\<close> removes leading and trailing Unicode white space. The list holds
  the UTF-8 encodings of the code points of \<^verbatim>\<open>unicode.IsSpace\<close>: the six ASCII blanks,
  U+0085, U+00A0, U+1680, U+2000 to U+200A, U+2028, U+2029, U+202F, U+205F and U+3000.
  Decoding a rune at either end of a string gives one of them exactly when the string
  starts or ends with its encoding.
\<close>

definition space_runes :: "nat list list" where
  "space_runes =
     [[9], [10], [11], [12], [13], [32], [194, 133], [194, 160], [225, 154, 128],
      [226, 128, 128], [226, 128, 129], [226, 128, 130], [226, 128, 131], [226, 128, 132],
      [226, 128, 133], [226, 128, 134], [226, 128, 135], [226, 128, 136], [226, 128, 137],
      [226, 128, 138], [226, 128, 168], [226, 128, 169], [226, 128, 175], [226, 129, 159],
      [227, 128, 128]]"

definition space_seqs :: "string list" where
  "space_seqs = map (map char_of) space_runes"

fun strip_seqs :: "string list \<Rightarrow> nat \<Rightarrow> string \<Rightarrow> string" where
  "strip_seqs ws 0 s = s"
| "strip_seqs ws (Suc n) s =
     (case List.find (\<lambda>w. has_prefix s w) ws of
        None \<Rightarrow> s
      | Some w \<Rightarrow> strip_seqs ws n (drop (length w) s))"

definition trim_left :: "string \<Rightarrow> string" where
  "trim_left s = strip_seqs space_seqs (length s) s"

definition trim_right :: "string \<Rightarrow> string" where
  "trim_right s = rev (strip_seqs (map rev space_seqs) (length s) (rev s))"

definition trim_space :: "string \<Rightarrow> string" where
  "trim_space s = trim_right (trim_left s)"

text \<open>\<^verbatim>\<open>strings.TrimRight(s, "/")\<close>, for a one-byte cutset.\<close>

definition trim_right_char :: "char \<Rightarrow> string \<Rightarrow> string" where
  "trim_right_char c s = rev (dropWhile (\<lambda>x. x = c) (rev s))"

text \<open>
  \<^verbatim>\<open>strings.ToLower\<close> on ASCII letters. The sources compare its result with the words
  \<^verbatim>\<open>true\<close>, \<^verbatim>\<open>1\<close>, \<^verbatim>\<open>yes\<close> and \<^verbatim>\<open>on\<close> only; no code point outside ASCII has a lower case
  among the letters of these words, so leaving the other bytes alone decides the same
  comparisons.
\<close>

definition to_lower_char :: "char \<Rightarrow> char" where
  "to_lower_char c =
     (let n = of_char c :: nat in if 65 \<le> n \<and> n \<le> 90 then char_of (n + 32) else c)"

definition to_lower :: "string \<Rightarrow> string" where
  "to_lower s = map to_lower_char s"

section \<open>Package strconv and decimal printing\<close>

text \<open>\<^verbatim>\<open>fmt.Sprintf("%d", n)\<close> for an unsigned value.\<close>

fun dec :: "nat \<Rightarrow> string" where
  "dec n = (if n < 10 then [char_of (48 + n)] else dec (n div 10) @ [char_of (48 + n mod 10)])"

declare dec.simps [simp del]

definition digit_val :: "char \<Rightarrow> nat option" where
  "digit_val c = (let n = of_char c in if 48 \<le> n \<and> n \<le> 57 then Some (n - 48) else None)"

text \<open>
  \<^verbatim>\<open>strconv.ParseUint(s, 10, bits)\<close>: every byte a digit, at least one of them, and the
  value never above \<open>2 ^ bits - 1\<close> (a \<^verbatim>\<open>range\<close> error at the first digit that passes it).
  \<open>None\<close> is a non-nil error.
\<close>

fun parse_digits :: "nat \<Rightarrow> nat \<Rightarrow> string \<Rightarrow> nat option" where
  "parse_digits mx n [] = Some n"
| "parse_digits mx n (c # cs) =
     (case digit_val c of
        None \<Rightarrow> None
      | Some d \<Rightarrow> if 10 * n + d > mx then None else parse_digits mx (10 * n + d) cs)"

definition parse_uint :: "nat \<Rightarrow> string \<Rightarrow> nat option" where
  "parse_uint bits s = (if s = [] then None else parse_digits (2 ^ bits - 1) 0 s)"

section \<open>Package errors\<close>

text \<open>
  The sentinel errors are package variables, compared by identity with \<^verbatim>\<open>errors.Is\<close>. The
  other constructors are \<^verbatim>\<open>errors.New\<close>, \<^verbatim>\<open>fmt.Errorf("ctx: %w", err)\<close>,
  \<^verbatim>\<open>fmt.Errorf("%w: %q", err, s)\<close> and \<^verbatim>\<open>errors.Join\<close>, plus the one error type of the
  sources that carries data, \<^verbatim>\<open>HeadscaleError\<close>.
\<close>

datatype sentinel =
    ServiceNotFound | ServiceExists
  | UnknownNetwork | TagNotAllowed | NoTCPPorts
  | NoEgressTargets | BadEgressTarget | EgressTagNotAllow
  | GatewayImageUnset | Canceled

datatype goerr =
    ErrVar sentinel
  | ErrNew string
  | ErrWrap string goerr
  | ErrQuote goerr string
  | ErrJoin "goerr list"
  | HeadscaleError int string string

fun errors_is :: "goerr \<Rightarrow> sentinel \<Rightarrow> bool" where
  "errors_is (ErrVar v) t = (v = t)"
| "errors_is (ErrNew _) t = False"
| "errors_is (ErrWrap _ e) t = errors_is e t"
| "errors_is (ErrQuote e _) t = errors_is e t"
| "errors_is (ErrJoin es) t = list_ex (\<lambda>e. errors_is e t) es"
| "errors_is (HeadscaleError _ _ _) t = False"

text \<open>\<^verbatim>\<open>errors.Join\<close> drops nil errors and is nil when nothing is left.\<close>

definition errors_join :: "goerr option list \<Rightarrow> goerr option" where
  "errors_join es = (let xs = List.map_filter id es in if xs = [] then None else Some (ErrJoin xs))"

section \<open>Go maps\<close>

type_synonym ('k, 'v) gomap = "('k \<times> 'v) list"

abbreviation gm_put :: "'k \<Rightarrow> 'v \<Rightarrow> ('k, 'v) gomap \<Rightarrow> ('k, 'v) gomap" where
  "gm_put \<equiv> AList.update"

abbreviation gm_del :: "'k \<Rightarrow> ('k, 'v) gomap \<Rightarrow> ('k, 'v) gomap" where
  "gm_del \<equiv> AList.delete"

abbreviation gm_keys :: "('k, 'v) gomap \<Rightarrow> 'k list" where
  "gm_keys m \<equiv> map fst m"

text \<open>Indexing a \<^verbatim>\<open>map[string]string\<close>: a missing key reads as the empty string.\<close>

definition get_str :: "(string, string) gomap \<Rightarrow> string \<Rightarrow> string" where
  "get_str m k = (case map_of m k of None \<Rightarrow> [] | Some v \<Rightarrow> v)"

section \<open>First occurrences\<close>

text \<open>
  What a loop with a \<^verbatim>\<open>seen\<close> set computes: the first occurrence of every element, in
  order. \<open>remdups\<close> of the library keeps the last ones.
\<close>

fun dedup_first :: "'a list \<Rightarrow> 'a list" where
  "dedup_first [] = []"
| "dedup_first (x # xs) = x # filter (\<lambda>y. y \<noteq> x) (dedup_first xs)"

subsection \<open>Prefixes, suffixes and positions\<close>

lemma has_prefix_iff [go_string]: "has_prefix s p \<longleftrightarrow> (\<exists>r. s = p @ r)"
  by (induction s p rule: has_prefix.induct) auto

lemma has_prefix_append [simp]: "has_prefix (p @ r) p"
  by (auto simp: has_prefix_iff)

lemma has_suffix_iff [go_string]: "has_suffix s p \<longleftrightarrow> (\<exists>r. s = r @ p)"
proof -
  have "has_suffix s p \<longleftrightarrow> (\<exists>r. rev s = rev p @ r)"
    by (simp add: has_suffix_def has_prefix_iff)
  also have "\<dots> \<longleftrightarrow> (\<exists>r. s = r @ p)"
    by (metis rev_append rev_rev_ident)
  finally show ?thesis .
qed

lemma trim_prefix_append [simp]: "trim_prefix (p @ s) p = s"
  by (simp add: trim_prefix_def)

lemma str_index_Some:
  "str_index s sub = Some i \<Longrightarrow> \<exists>a b. s = a @ sub @ b \<and> length a = i"
proof (induction s sub arbitrary: i rule: str_index.induct)
  case (1 sub)
  then show ?case by (auto split: if_splits)
next
  case (2 x s sub)
  show ?case
  proof (cases "has_prefix (x # s) sub")
    case True
    with "2.prems" show ?thesis by (fastforce simp: has_prefix_iff)
  next
    case False
    with "2.prems" obtain j where j: "str_index s sub = Some j" "i = Suc j"
      by (auto split: if_splits)
    with "2.IH" False obtain a b where "s = a @ sub @ b" "length a = j" by blast
    with j show ?thesis by (intro exI [of _ "x # a"] exI [of _ b]) simp
  qed
qed

text \<open>No occurrence starts before the index found, and \<open>None\<close> means none at all.\<close>

lemma str_index_le:
  "\<exists>i. str_index (a @ sub @ b) sub = Some i \<and> i \<le> length a"
proof (induction a)
  case Nil
  have "has_prefix (sub @ b) sub" by simp
  then have "str_index (sub @ b) sub = Some 0" by (cases "sub @ b") auto
  then show ?case by simp
next
  case (Cons x a)
  then show ?case by auto
qed

lemma split_on_not_Nil [simp]: "split_on c s \<noteq> []"
  by (induction s) (auto split: list.splits)

lemma split_on_free: "c \<notin> set s \<Longrightarrow> split_on c s = [s]"
  by (induction s) auto

lemma split_on_no_sep: "p \<in> set (split_on c s) \<Longrightarrow> c \<notin> set p"
  by (induction s arbitrary: p) (auto split: if_splits list.splits)

lemma split_on_append: "c \<notin> set a \<Longrightarrow> split_on c (a @ c # s) = a # split_on c s"
  by (induction a) auto

lemma join_split: "join_on c (split_on c s) = s"
proof (induction s)
  case Nil
  show ?case by simp
next
  case (Cons x s)
  obtain y ys where sp: "split_on c s = y # ys" by (cases "split_on c s") auto
  show ?case
  proof (cases ys)
    case Nil
    with Cons sp show ?thesis by (auto)
  next
    case (Cons z zs)
    with Cons.IH sp show ?thesis by auto
  qed
qed

lemma split_join:
  "xs \<noteq> [] \<Longrightarrow> \<forall>x \<in> set xs. c \<notin> set x \<Longrightarrow> split_on c (join_on c xs) = xs"
  by (induction c xs rule: join_on.induct) (auto simp: split_on_free split_on_append)

lemma cut_at_append: "c \<notin> set a \<Longrightarrow> cut_at c (a @ c # b) = (a, b, True)"
  by (induction a) auto

lemma cut_at_True: "cut_at c s = (a, b, True) \<Longrightarrow> s = a @ c # b \<and> c \<notin> set a"
  by (induction s arbitrary: a b) (auto split: if_splits prod.splits)

lemma cut_at_free: "c \<notin> set s \<Longrightarrow> cut_at c s = (s, [], False)"
  by (induction s) auto

lemma cut_at_found: "snd (snd (cut_at c s)) \<longleftrightarrow> c \<in> set s"
  by (induction s) (auto split: prod.splits)

subsection \<open>Decimal numbers\<close>

lemma digit_val_char_of [simp]: "d < 10 \<Longrightarrow> digit_val (char_of (48 + d)) = Some d"
  by (simp add: digit_val_def)

lemma digit_chars [simp]:
  "char_of (48::nat) = CHR ''0''" "char_of (49::nat) = CHR ''1''" "char_of (50::nat) = CHR ''2''"
  "char_of (51::nat) = CHR ''3''" "char_of (52::nat) = CHR ''4''" "char_of (53::nat) = CHR ''5''"
  "char_of (54::nat) = CHR ''6''" "char_of (55::nat) = CHR ''7''" "char_of (56::nat) = CHR ''8''"
  "char_of (57::nat) = CHR ''9''"
  by (simp_all add: char_of_def bit_0)

lemma dec_not_Nil [simp]: "dec n \<noteq> []"
  by (subst dec.simps) simp

lemma parse_digits_append:
  "parse_digits mx n (xs @ ys) =
     (case parse_digits mx n xs of None \<Rightarrow> None | Some m \<Rightarrow> parse_digits mx m ys)"
  by (induction xs arbitrary: n) (auto split: option.splits)

lemma parse_digits_dec: "n \<le> mx \<Longrightarrow> parse_digits mx 0 (dec n) = Some n"
proof (induction n rule: dec.induct)
  case (1 n)
  show ?case
  proof (cases "n < 10")
    case True
    with "1.prems" show ?thesis by (simp add: dec.simps [of n])
  next
    case False
    with 1 have "parse_digits mx 0 (dec (n div 10)) = Some (n div 10)" by simp
    with False "1.prems" show ?thesis
      by (simp add: dec.simps [of n] parse_digits_append)
  qed
qed

lemma parse_uint_dec: "n < 2 ^ bits \<Longrightarrow> parse_uint bits (dec n) = Some n"
  by (simp add: parse_uint_def parse_digits_dec)

lemma parse_digits_bound: "parse_digits mx n s = Some m \<Longrightarrow> n \<le> mx \<Longrightarrow> m \<le> mx"
  by (induction s arbitrary: n) (auto split: option.splits if_splits)

lemma parse_uint_bound: "parse_uint bits s = Some m \<Longrightarrow> m < 2 ^ bits"
proof -
  assume "parse_uint bits s = Some m"
  then have "m \<le> 2 ^ bits - 1"
    by (auto simp: parse_uint_def dest: parse_digits_bound split: if_splits)
  moreover have "0 < (2::nat) ^ bits" by simp
  ultimately show ?thesis by linarith
qed

lemma dec_digits: "c \<in> set (dec n) \<Longrightarrow> digit_val c \<noteq> None"
proof (induction n arbitrary: c rule: dec.induct)
  case (1 n)
  then show ?case by (subst (asm) dec.simps) (auto split: if_splits)
qed

lemma dec_inj [simp]: "dec m = dec n \<longleftrightarrow> m = n"
proof
  assume "dec m = dec n"
  then have "parse_digits (max m n) 0 (dec m) = parse_digits (max m n) 0 (dec n)" by simp
  then show "m = n" by (simp add: parse_digits_dec)
qed simp

subsection \<open>Trimming\<close>

text \<open>The same list as character literals, for evaluation.\<close>

lemma space_seqs_code [code]:
  "space_seqs =
     [[CHR 0x09], [CHR 0x0A], [CHR 0x0B], [CHR 0x0C], [CHR 0x0D], [CHR 0x20],
      [CHR 0xC2, CHR 0x85], [CHR 0xC2, CHR 0xA0], [CHR 0xE1, CHR 0x9A, CHR 0x80],
      [CHR 0xE2, CHR 0x80, CHR 0x80], [CHR 0xE2, CHR 0x80, CHR 0x81],
      [CHR 0xE2, CHR 0x80, CHR 0x82], [CHR 0xE2, CHR 0x80, CHR 0x83],
      [CHR 0xE2, CHR 0x80, CHR 0x84], [CHR 0xE2, CHR 0x80, CHR 0x85],
      [CHR 0xE2, CHR 0x80, CHR 0x86], [CHR 0xE2, CHR 0x80, CHR 0x87],
      [CHR 0xE2, CHR 0x80, CHR 0x88], [CHR 0xE2, CHR 0x80, CHR 0x89],
      [CHR 0xE2, CHR 0x80, CHR 0x8A], [CHR 0xE2, CHR 0x80, CHR 0xA8],
      [CHR 0xE2, CHR 0x80, CHR 0xA9], [CHR 0xE2, CHR 0x80, CHR 0xAF],
      [CHR 0xE2, CHR 0x81, CHR 0x9F], [CHR 0xE3, CHR 0x80, CHR 0x80]]"
  by (simp add: space_seqs_def space_runes_def char_of_def bit_0)

lemma space_seqs_ne: "w \<in> set space_seqs \<Longrightarrow> w \<noteq> []"
  by (auto simp: space_seqs_def space_runes_def)

lemma find_None_prefix:
  "List.find (\<lambda>w. has_prefix s w) ws = None \<longleftrightarrow> (\<forall>w \<in> set ws. \<not> has_prefix s w)"
  by (auto simp: find_None_iff)

text \<open>As many rounds as the string has bytes are enough: nothing strippable is left.\<close>

lemma strip_seqs_clean:
  assumes "\<forall>w \<in> set ws. w \<noteq> []" and "length s \<le> n"
  shows "\<forall>w \<in> set ws. \<not> has_prefix (strip_seqs ws n s) w"
  using assms(2)
proof (induction n arbitrary: s)
  case 0
  with assms(1) show ?case by (auto simp: has_prefix_iff)
next
  case (Suc n)
  show ?case
  proof (cases "List.find (\<lambda>w. has_prefix s w) ws")
    case None
    then have "\<forall>w \<in> set ws. \<not> has_prefix s w" by (simp only: find_None_prefix)
    with None show ?thesis by simp
  next
    case (Some w)
    then have "w \<in> set ws" "has_prefix s w" by (auto simp: find_Some_iff)
    with assms(1) Suc.prems have "length (drop (length w) s) \<le> n"
      by (cases w) (auto simp: has_prefix_iff)
    with Suc.IH Some show ?thesis by simp
  qed
qed

lemma strip_seqs_id: "\<forall>w \<in> set ws. \<not> has_prefix s w \<Longrightarrow> strip_seqs ws n s = s"
  by (cases n) (simp_all add: find_None_prefix [THEN iffD2])

lemma strip_seqs_drop: "\<exists>k. strip_seqs ws n s = drop k s"
proof (induction n arbitrary: s)
  case 0
  show ?case by (intro exI [of _ 0]) simp
next
  case (Suc n)
  show ?case
  proof (cases "List.find (\<lambda>w. has_prefix s w) ws")
    case None
    then show ?thesis by (intro exI [of _ 0]) simp
  next
    case (Some w)
    obtain k where "strip_seqs ws n (drop (length w) s) = drop k (drop (length w) s)"
      using Suc.IH by blast
    with Some show ?thesis by (intro exI [of _ "k + length w"]) simp
  qed
qed

text \<open>A string is trimmed when no white-space rune stands at either end.\<close>

definition trimmed :: "string \<Rightarrow> bool" where
  "trimmed s \<longleftrightarrow> (\<forall>w \<in> set space_seqs. \<not> has_prefix s w \<and> \<not> has_suffix s w)"

lemma trim_left_clean: "w \<in> set space_seqs \<Longrightarrow> \<not> has_prefix (trim_left s) w"
  using strip_seqs_clean [of space_seqs s "length s"] by (auto simp: trim_left_def space_seqs_ne)

lemma trim_right_clean: "w \<in> set space_seqs \<Longrightarrow> \<not> has_suffix (trim_right s) w"
  using strip_seqs_clean [of "map rev space_seqs" "rev s" "length s"]
  by (auto simp: trim_right_def has_suffix_def space_seqs_ne)

lemma trim_right_prefix: "\<exists>r. s = trim_right s @ r"
proof -
  obtain k where "strip_seqs (map rev space_seqs) (length s) (rev s) = drop k (rev s)"
    using strip_seqs_drop by blast
  then have "trim_right s = take (length s - k) s"
    by (simp add: trim_right_def drop_rev)
  then show ?thesis by (metis append_take_drop_id)
qed

lemma trimmed_trim_space [simp]: "trimmed (trim_space s)"
  unfolding trimmed_def
proof (intro ballI conjI)
  fix w assume w: "w \<in> set space_seqs"
  then show "\<not> has_suffix (trim_space s) w" by (simp add: trim_space_def trim_right_clean)
  show "\<not> has_prefix (trim_space s) w"
  proof
    assume "has_prefix (trim_space s) w"
    then have "has_prefix (trim_left s) w"
      using trim_right_prefix [of "trim_left s"] by (auto simp: trim_space_def has_prefix_iff)
    with w trim_left_clean show False by blast
  qed
qed

lemma trim_space_trimmed: "trimmed s \<Longrightarrow> trim_space s = s"
  by (simp add: trimmed_def trim_space_def trim_left_def trim_right_def strip_seqs_id has_suffix_def)

lemma trim_space_idem: "trim_space (trim_space s) = trim_space s"
  by (simp add: trim_space_trimmed)

text \<open>Trimming keeps a contiguous part of the string, so it adds no byte.\<close>

lemma set_trim_space: "set (trim_space s) \<subseteq> set s"
proof -
  have "set (trim_left s) \<subseteq> set s"
    unfolding trim_left_def by (metis strip_seqs_drop set_drop_subset)
  moreover have "set (trim_right t) \<subseteq> set t" for t
    using trim_right_prefix [of t] by (metis set_append Un_upper1)
  ultimately show ?thesis unfolding trim_space_def by blast
qed

lemma length_trim_space: "length (trim_space s) \<le> length s"
proof -
  have strip: "length (strip_seqs ws n s) \<le> length s" for ws n s
    using strip_seqs_drop [of ws n s] by auto
  have "length (trim_space s) \<le> length (trim_left s)"
    using strip [of _ _ "rev (trim_left s)"] by (simp add: trim_space_def trim_right_def)
  also have "\<dots> \<le> length s" unfolding trim_left_def by (rule strip)
  finally show ?thesis .
qed

lemma strip_seqs_bytes: "set s \<subseteq> \<Union> (set ` set ws) \<union> set (strip_seqs ws n s)"
proof (induction n arbitrary: s)
  case (Suc n)
  show ?case
  proof (cases "List.find (\<lambda>w. has_prefix s w) ws")
    case (Some w)
    then obtain r where w: "w \<in> set ws" "s = w @ r" by (auto simp: find_Some_iff has_prefix_iff)
    with Suc.IH [of r] Some show ?thesis by auto
  qed simp
qed simp

text \<open>The bytes of white-space runes are no digits and no separators of the label grammar.\<close>

lemma space_seqs_bytes:
  "w \<in> set space_seqs \<Longrightarrow> c \<in> set w \<Longrightarrow>
     digit_val c = None \<and> c \<noteq> CHR '','' \<and> c \<noteq> CHR '':''"
proof -
  have runes: "\<forall>n \<in> set (concat space_runes). n < 256 \<and> \<not> (48 \<le> n \<and> n \<le> 57) \<and> n \<noteq> 44 \<and> n \<noteq> 58"
    by (simp add: space_runes_def)
  assume "w \<in> set space_seqs" and "c \<in> set w"
  then obtain r where "r \<in> set space_runes" "w = map char_of r" by (auto simp: space_seqs_def)
  with \<open>c \<in> set w\<close> obtain n where c: "c = char_of n" and "n \<in> set (concat space_runes)" by auto
  with runes have n: "n < 256" "\<not> (48 \<le> n \<and> n \<le> 57)" "n \<noteq> 44" "n \<noteq> 58" by auto
  have "of_char c = n" using n(1) by (simp add: c of_char_of)
  then have "of_char c \<noteq> (44::nat)" "of_char c \<noteq> (58::nat)" "digit_val c = None"
    using n by (auto simp: digit_val_def)
  then show ?thesis by auto
qed

lemma trim_space_Nil_bytes: "trim_space s = [] \<Longrightarrow> set s \<subseteq> \<Union> (set ` set space_seqs)"
proof -
  assume "trim_space s = []"
  then have "set (trim_left s) \<subseteq> \<Union> (set ` set space_seqs)"
    using strip_seqs_bytes [of "rev (trim_left s)" "map rev space_seqs" "length (trim_left s)"]
    by (auto simp: trim_space_def trim_right_def)
  then show ?thesis
    using strip_seqs_bytes [of s space_seqs "length s"] by (auto simp: trim_left_def)
qed

text \<open>Gluing a separator and digits to a trimmed string leaves it trimmed.\<close>

lemma trimmed_colon_dec:
  assumes "trimmed h" shows "trimmed (h @ CHR '':'' # dec n)"
  unfolding trimmed_def
proof (intro ballI conjI notI)
  fix w assume w: "w \<in> set space_seqs"
  assume "has_prefix (h @ CHR '':'' # dec n) w"
  then obtain r where "h @ CHR '':'' # dec n = w @ r" by (auto simp: has_prefix_iff)
  moreover have "CHR '':'' \<notin> set w" using w space_seqs_bytes by blast
  ultimately have "\<exists>r. h = w @ r" by (auto simp: append_eq_append_conv2 Cons_eq_append_conv)
  then have "has_prefix h w" by (simp add: has_prefix_iff)
  with w assms show False by (simp add: trimmed_def)
next
  fix w assume w: "w \<in> set space_seqs"
  assume "has_suffix (h @ CHR '':'' # dec n) w"
  then obtain r where eq: "h @ CHR '':'' # dec n = r @ w" by (auto simp: has_suffix_iff)
  have "last w = last (h @ CHR '':'' # dec n)" using eq space_seqs_ne [OF w] by simp
  also have "\<dots> = last (dec n)" by simp
  finally have "last w \<in> set (dec n)" by simp
  then have "digit_val (last w) \<noteq> None" by (rule dec_digits)
  with space_seqs_bytes [OF w last_in_set] space_seqs_ne [OF w] show False by blast
qed

subsection \<open>Errors\<close>

lemma errors_join_None [simp]: "errors_join es = None \<longleftrightarrow> (\<forall>e \<in> set es. e = None)"
proof -
  have "List.map_filter id es = [] \<longleftrightarrow> (\<forall>e \<in> set es. e = None)"
    by (induction es) (auto simp: List.map_filter_simps split: option.splits)
  then show ?thesis by (simp add: errors_join_def Let_def)
qed

subsection \<open>Maps\<close>

lemma map_of_gm_put [simp, go_map]: "map_of (gm_put k v m) = (map_of m)(k \<mapsto> v)"
  by (simp add: update_conv')

lemma map_of_gm_del [simp, go_map]: "map_of (gm_del k m) = (map_of m)(k := None)"
  by (simp add: delete_conv')

lemma distinct_gm_put [simp]: "distinct (gm_keys m) \<Longrightarrow> distinct (gm_keys (gm_put k v m))"
  by (rule distinct_update)

lemma distinct_gm_del [simp]: "distinct (gm_keys m) \<Longrightarrow> distinct (gm_keys (gm_del k m))"
  by (rule distinct_delete)

lemma set_gm_keys: "set (gm_keys m) = dom (map_of m)"
  by (simp add: dom_map_of_conv_image_fst)

text \<open>The number of entries is the number of keys.\<close>

lemma length_gomap: "distinct (gm_keys m) \<Longrightarrow> length m = card (dom (map_of m))"
  by (metis distinct_card length_map set_gm_keys)

lemma get_str_put [simp, go_map]: "get_str (gm_put k v m) k' = (if k' = k then v else get_str m k')"
  by (simp add: get_str_def)

subsection \<open>First occurrences\<close>

lemma set_dedup_first [simp]: "set (dedup_first xs) = set xs"
  by (induction xs) auto

lemma distinct_dedup_first [simp]: "distinct (dedup_first xs)"
  by (induction xs) auto

lemma dedup_first_id: "distinct xs \<Longrightarrow> dedup_first xs = xs"
  by (induction xs) (auto intro: filter_True)

lemma dedup_first_rev: "dedup_first xs = rev (remdups (rev xs))"
proof (induction xs)
  case (Cons x xs)
  have "remdups (ys @ [x]) = filter (\<lambda>y. y \<noteq> x) (remdups ys) @ [x]" for ys
    by (induction ys) auto
  with Cons show ?case by (simp add: rev_filter)
qed simp

end
