(* ===== verification/Swarm.thy ===== *)
theory Swarm
  imports Prelude "HOL-Library.Word"
begin

text \<open>
  The data of package \<^verbatim>\<open>swarm\<close> of the Docker SDK, as far as tailswarm reads or writes it.
  The SDK is not part of the repository; only the shape of its values matters here, one
  record per struct, with the fields the sources mention. A Go pointer to a struct
  (\<^verbatim>\<open>ContainerSpec\<close>, \<^verbatim>\<open>EndpointSpec\<close>, \<^verbatim>\<open>ContainerStatus\<close>) is an \<open>option\<close>.
\<close>

type_synonym u16 = "16 word"
type_synonym u32 = "32 word"
type_synonym u64 = "64 word"

record networkAttachment =
  na_Target :: string
  na_Aliases :: "string list"

record containerSpec =
  cs_Image :: string
  cs_Command :: "string list"
  cs_Args :: "string list"
  cs_Env :: "string list"

record portConfig =
  pc_Protocol :: string
  pc_TargetPort :: u32

text \<open>
  \<^verbatim>\<open>ServiceSpec\<close> with its embedded \<^verbatim>\<open>Annotations\<close> (name and labels) and \<^verbatim>\<open>TaskTemplate\<close>
  (container spec and networks) flattened; \<open>ss_Networks\<close> is the deprecated top-level field.
\<close>

record serviceSpec =
  ss_Name :: string
  ss_Labels :: "(string, string) gomap"
  ss_ContainerSpec :: "containerSpec option"
  ss_TaskNetworks :: "networkAttachment list"
  ss_Networks :: "networkAttachment list"
  ss_EndpointPorts :: "portConfig list option"

record service =
  svc_ID :: string
  svc_Version :: u64
  svc_Spec :: serviceSpec

record network =
  net_ID :: string
  net_Name :: string
  net_Labels :: "(string, string) gomap"
  net_Ingress :: bool
  net_Driver :: string

record task =
  task_ServiceID :: string
  task_ContainerID :: "string option"

end
