(* ===== verification/Labels.thy ===== *)
theory Labels
  imports Swarm
begin

text \<open>
  The deploy-label parser, \<^verbatim>\<open>internal/tailswarm/labels.go\<close>, with the target type of
  \<^verbatim>\<open>egress.go\<close> it fills in. First the operations in the order of the source, then what is
  proved of them: the glob matcher against a byte-by-byte reference semantics, the port and
  target lists, and the guarantees of a successful \<^verbatim>\<open>Parse\<close>.
\<close>

section \<open>Definitions\<close>

definition stackLabel :: string where
  "stackLabel = ''com.docker.stack.namespace''"

definition defaultNamespace :: string where
  "defaultNamespace = ''tailswarm''"

definition defaultOverlay :: string where
  "defaultOverlay = ''tailswarm-overlay''"

definition gatewayForLabel :: string where
  "gatewayForLabel = ''tailswarm.gateway.for''"

record egressTarget =
  et_Host :: string
  et_Port :: u32

definition addr :: "egressTarget \<Rightarrow> string" where
  "addr t = et_Host t @ '':'' @ dec (unat (et_Port t))"

record port =
  port_Target :: u32

record egressSpec =
  eg_Hostname :: string
  eg_Tag :: string
  eg_Network :: string
  eg_Targets :: "egressTarget list"

record target =
  tgt_ServiceID :: string
  tgt_ServiceName :: string
  tgt_Stack :: string
  tgt_Network :: string
  tgt_Hostname :: string
  tgt_Tag :: string
  tgt_Ports :: "port list"
  tgt_SpecVersion :: u64
  tgt_Ingress :: bool
  tgt_Egress :: "egressSpec option"

text \<open>\<^verbatim>\<open>Target{}\<close>, the zero value.\<close>

definition zeroTarget :: target where
  "zeroTarget =
     \<lparr>tgt_ServiceID = [], tgt_ServiceName = [], tgt_Stack = [], tgt_Network = [],
      tgt_Hostname = [], tgt_Tag = [], tgt_Ports = [], tgt_SpecVersion = 0,
      tgt_Ingress = False, tgt_Egress = None\<rparr>"

record labels =
  l_Namespace :: string
  l_AllowedTags :: "string list"
  l_DefaultNetwork :: string

definition namespace :: "labels \<Rightarrow> string" where
  "namespace l = (if l_Namespace l = [] then defaultNamespace else l_Namespace l)"

definition defaultNetwork :: "labels \<Rightarrow> string" where
  "defaultNetwork l = (if l_DefaultNetwork l = [] then defaultOverlay else l_DefaultNetwork l)"

definition key_of :: "labels \<Rightarrow> string \<Rightarrow> string" where
  "key_of l suffix = namespace l @ ''.'' @ suffix"

definition isTrue :: "string \<Rightarrow> bool" where
  "isTrue s = (to_lower (trim_space s) \<in> {''true'', ''1'', ''yes'', ''on''})"

text \<open>\<^verbatim>\<open>byID\<close> is the map the loop over \<^verbatim>\<open>networks\<close> fills; a later network wins.\<close>

definition serviceAttachedTo :: "service \<Rightarrow> network list \<Rightarrow> string \<Rightarrow> bool" where
  "serviceAttachedTo svc networks name =
     (let byID = foldl (\<lambda>m n. gm_put (net_ID n) (net_Name n) m) [] networks;
          attached0 = ss_TaskNetworks (svc_Spec svc);
          attached = (if attached0 = [] then ss_Networks (svc_Spec svc) else attached0)
      in list_ex (\<lambda>a. na_Target a = name \<or> map_of byID (na_Target a) = Some name) attached)"

fun tcpPorts_loop :: "u32 list \<Rightarrow> port list \<Rightarrow> portConfig list \<Rightarrow> port list" where
  "tcpPorts_loop seen out [] = out"
| "tcpPorts_loop seen out (p # ps) =
     (if pc_Protocol p \<noteq> [] \<and> pc_Protocol p \<noteq> ''tcp'' then tcpPorts_loop seen out ps
      else if pc_TargetPort p = 0 then tcpPorts_loop seen out ps
      else if pc_TargetPort p \<in> set seen then tcpPorts_loop seen out ps
      else tcpPorts_loop (pc_TargetPort p # seen)
             (out @ [\<lparr>port_Target = pc_TargetPort p\<rparr>]) ps)"

definition tcpPorts :: "service \<Rightarrow> port list" where
  "tcpPorts svc =
     (case ss_EndpointPorts (svc_Spec svc) of
        None \<Rightarrow> []
      | Some ps \<Rightarrow> tcpPorts_loop [] [] ps)"

text \<open>
  The loop over the middle parts of a glob pattern: each is searched from where the
  previous one ended. \<open>None\<close> is \<^verbatim>\<open>return false\<close>.
\<close>

fun glob_mids :: "string list \<Rightarrow> string \<Rightarrow> string option" where
  "glob_mids [] s = Some s"
| "glob_mids (mid # mids) s =
     (case str_index s mid of
        None \<Rightarrow> None
      | Some i \<Rightarrow> glob_mids mids (drop (i + length mid) s))"

definition matchGlob :: "string \<Rightarrow> string \<Rightarrow> bool" where
  "matchGlob pattern s =
     (let parts = split_on (CHR ''*'') pattern
      in if length parts = 1 then pattern = s
         else if \<not> has_prefix s (hd parts) then False
         else (case glob_mids (butlast (tl parts)) (drop (length (hd parts)) s) of
                 None \<Rightarrow> False
               | Some s' \<Rightarrow> has_suffix s' (last parts)))"

definition tagAllowed :: "string \<Rightarrow> string \<Rightarrow> string list \<Rightarrow> bool" where
  "tagAllowed tag derived allowedTags =
     (if tag = derived then True else list_ex (\<lambda>p. matchGlob p tag) allowedTags)"

fun parseEgressTargets_loop ::
  "string list \<Rightarrow> egressTarget list \<Rightarrow> string list \<Rightarrow> goerr + egressTarget list" where
  "parseEgressTargets_loop seen out [] = Inr out"
| "parseEgressTargets_loop seen out (e # es) =
     (let entry = trim_space e
      in if entry = [] then parseEgressTargets_loop seen out es
         else
           (case cut_at (CHR '':'') entry of
              (h, p, ok) \<Rightarrow>
                let host = trim_space h; portStr = trim_space p;
                    bad = Inl (ErrQuote (ErrVar BadEgressTarget) entry)
                in if \<not> ok \<or> host = [] \<or> portStr = [] then bad
                   else
                     (case parse_uint 16 portStr of
                        None \<Rightarrow> bad
                      | Some n \<Rightarrow>
                          if n = 0 then bad
                          else if entry \<in> set seen then parseEgressTargets_loop seen out es
                          else parseEgressTargets_loop (entry # seen)
                                 (out @ [\<lparr>et_Host = host, et_Port = of_nat n\<rparr>]) es)))"

definition parseEgressTargets :: "string \<Rightarrow> goerr + egressTarget list" where
  "parseEgressTargets raw =
     (if trim_space raw = [] then Inr []
      else parseEgressTargets_loop [] [] (split_on (CHR '','') raw))"

definition parseIngress ::
  "labels \<Rightarrow> target \<Rightarrow> service \<Rightarrow> network list \<Rightarrow> string \<Rightarrow> string \<Rightarrow> goerr + target" where
  "parseIngress l tgt svc networks shortName derivedTag =
     (let lbls = ss_Labels (svc_Spec svc);
          netOv = get_str lbls (key_of l ''network'');
          tagOv = get_str lbls (key_of l ''tag'');
          host = get_str lbls (key_of l ''hostname'');
          hostname = (if host \<noteq> [] then host
                      else if tgt_Stack tgt \<noteq> [] then tgt_Stack tgt @ ''-'' @ shortName
                      else shortName);
          ports = tcpPorts svc
      in if netOv \<noteq> [] \<and> \<not> serviceAttachedTo svc networks netOv
         then Inl (ErrQuote (ErrVar UnknownNetwork) netOv)
         else if tagOv \<noteq> [] \<and> \<not> tagAllowed tagOv derivedTag (l_AllowedTags l)
         then Inl (ErrQuote (ErrVar TagNotAllowed) tagOv)
         else if ports = [] then Inl (ErrVar NoTCPPorts)
         else Inr (tgt\<lparr>tgt_Ingress := True,
                       tgt_Network := (if netOv \<noteq> [] then netOv else defaultNetwork l),
                       tgt_Hostname := hostname,
                       tgt_Tag := (if tagOv \<noteq> [] then tagOv else derivedTag),
                       tgt_Ports := ports\<rparr>))"

definition parseEgress ::
  "labels \<Rightarrow> service \<Rightarrow> network list \<Rightarrow> string \<Rightarrow> string \<Rightarrow> string \<Rightarrow> goerr + egressSpec" where
  "parseEgress l svc networks stack shortName derivedTag =
     (let lbls = ss_Labels (svc_Spec svc);
          netOv = get_str lbls (key_of l ''egress.network'');
          tagOv = get_str lbls (key_of l ''egress.tag'');
          host = get_str lbls (key_of l ''egress.hostname'');
          base = (if stack \<noteq> [] then stack @ ''-'' @ shortName else shortName)
      in case parseEgressTargets (get_str lbls (key_of l ''egress.targets'')) of
           Inl e \<Rightarrow> Inl e
         | Inr targets \<Rightarrow>
             if targets = [] then Inl (ErrVar NoEgressTargets)
             else if netOv \<noteq> [] \<and> \<not> serviceAttachedTo svc networks netOv
             then Inl (ErrQuote (ErrVar UnknownNetwork) netOv)
             else if tagOv \<noteq> [] \<and> \<not> tagAllowed tagOv derivedTag (l_AllowedTags l)
             then Inl (ErrQuote (ErrVar EgressTagNotAllow) tagOv)
             else Inr \<lparr>eg_Hostname = (if host \<noteq> [] then host else base @ ''-egress''),
                       eg_Tag = (if tagOv \<noteq> [] then tagOv else derivedTag),
                       eg_Network = (if netOv \<noteq> [] then netOv else defaultNetwork l),
                       eg_Targets = targets\<rparr>)"

text \<open>The service's short name and derived ACL tag, locals of \<^verbatim>\<open>Parse\<close>.\<close>

definition shortName_of :: "service \<Rightarrow> string" where
  "shortName_of svc =
     trim_prefix (ss_Name (svc_Spec svc)) (get_str (ss_Labels (svc_Spec svc)) stackLabel @ ''_'')"

definition derivedTag_of :: "service \<Rightarrow> string" where
  "derivedTag_of svc = ''tag:swarm-'' @ shortName_of svc"

text \<open>\<^verbatim>\<open>Parse\<close> returns \<^verbatim>\<open>(Target, enabled, error)\<close>.\<close>

definition Parse :: "labels \<Rightarrow> service \<Rightarrow> network list \<Rightarrow> target \<times> bool \<times> goerr option" where
  "Parse l svc networks =
     (let lbls = ss_Labels (svc_Spec svc);
          ingressOn = isTrue (get_str lbls (key_of l ''enable''));
          egressOn = isTrue (get_str lbls (key_of l ''egress.enable''));
          stack = get_str lbls stackLabel;
          shortName = shortName_of svc;
          derivedTag = derivedTag_of svc;
          tgt0 = zeroTarget\<lparr>tgt_ServiceID := svc_ID svc,
                            tgt_ServiceName := ss_Name (svc_Spec svc),
                            tgt_Stack := stack,
                            tgt_SpecVersion := svc_Version svc\<rparr>
      in if \<not> ingressOn \<and> \<not> egressOn then (zeroTarget, False, None)
         else
           (case (if ingressOn then parseIngress l tgt0 svc networks shortName derivedTag
                  else Inr tgt0) of
              Inl e \<Rightarrow> (zeroTarget, True, Some e)
            | Inr tgt \<Rightarrow>
                if egressOn then
                  (case parseEgress l svc networks stack shortName derivedTag of
                     Inl e \<Rightarrow> (zeroTarget, True, Some e)
                   | Inr eg \<Rightarrow> (tgt\<lparr>tgt_Egress := Some eg\<rparr>, True, None))
                else (tgt, True, None)))"

section \<open>The glob matcher\<close>

text \<open>
  The reference semantics, one pattern byte at a time: \<^verbatim>\<open>*\<close> skips any number of bytes,
  every other byte stands for itself, and pattern and string end together.
\<close>

fun glob_spec :: "string \<Rightarrow> string \<Rightarrow> bool" where
  "glob_spec [] s = (s = [])"
| "glob_spec (c # p) s =
     (if c = CHR ''*'' then list_ex (\<lambda>k. glob_spec p (drop k s)) [0..<Suc (length s)]
      else (case s of [] \<Rightarrow> False | x # s' \<Rightarrow> x = c \<and> glob_spec p s'))"

text \<open>What the parts of a pattern after its first star ask of the rest of the string.\<close>

fun star_match :: "string list \<Rightarrow> string \<Rightarrow> bool" where
  "star_match [] s = True"
| "star_match [l] s = has_suffix s l"
| "star_match (m # ms) s = (\<exists>a b. s = a @ m @ b \<and> star_match ms b)"

lemma star_match_Cons:
  "ms \<noteq> [] \<Longrightarrow> star_match (m # ms) s \<longleftrightarrow> (\<exists>a b. s = a @ m @ b \<and> star_match ms b)"
  by (cases ms) auto

lemma glob_spec_star:
  "glob_spec (CHR ''*'' # p) s \<longleftrightarrow> (\<exists>a b. s = a @ b \<and> glob_spec p b)"
proof -
  have "glob_spec (CHR ''*'' # p) s \<longleftrightarrow> (\<exists>k \<le> length s. glob_spec p (drop k s))"
    by (auto simp: list_ex_iff less_Suc_eq_le simp del: upt_Suc)
  also have "\<dots> \<longleftrightarrow> (\<exists>a b. s = a @ b \<and> glob_spec p b)"
    by (metis append_take_drop_id append_eq_conv_conj length_append le_add1)
  finally show ?thesis .
qed

lemma star_match_mono: "star_match ps b \<Longrightarrow> star_match ps (x @ b)"
proof (cases ps)
  case (Cons m ms)
  assume "star_match ps b"
  then show ?thesis
    using Cons by (cases "ms = []") (auto simp: star_match_Cons has_suffix_iff, metis append.assoc)
qed simp

text \<open>Taking the first occurrence of every middle part loses no match.\<close>

lemma glob_mids_greedy:
  "(case glob_mids ms s of None \<Rightarrow> False | Some s' \<Rightarrow> has_suffix s' l)
     \<longleftrightarrow> star_match (ms @ [l]) s"
proof (induction ms arbitrary: s)
  case Nil
  show ?case by simp
next
  case (Cons m ms)
  show ?case
  proof (cases "str_index s m")
    case None
    have "s \<noteq> a @ m @ b" for a b
      using str_index_le [of a m b] None by auto
    with None show ?thesis by (auto simp: star_match_Cons)
  next
    case (Some i)
    then obtain a b where ab: "s = a @ m @ b" "length a = i" using str_index_Some by blast
    have rest: "drop (i + length m) s = b" using ab by simp
    have "star_match (m # ms @ [l]) s \<longleftrightarrow> star_match (ms @ [l]) b"
    proof
      assume "star_match (m # ms @ [l]) s"
      then obtain a' b' where s': "s = a' @ m @ b'" and b': "star_match (ms @ [l]) b'"
        by (auto simp: star_match_Cons)
      have "i \<le> length a'" using str_index_le [of a' m b'] Some s' by auto
      then have "b = drop (i + length m) s" "b' = drop (length a' + length m) s"
        using rest s' by auto
      with \<open>i \<le> length a'\<close> have "b = take (length a' - i) b @ b'"
        by (metis append_take_drop_id add.commute add.left_commute drop_drop le_add_diff_inverse2)
      with b' show "star_match (ms @ [l]) b" by (metis star_match_mono)
    next
      assume "star_match (ms @ [l]) b"
      with ab show "star_match (m # ms @ [l]) s" by (auto simp: star_match_Cons)
    qed
    with Cons.IH [of b] Some rest show ?thesis by simp
  qed
qed

lemma glob_spec_parts:
  "glob_spec p s \<longleftrightarrow>
     (case split_on (CHR ''*'') p of
        [] \<Rightarrow> False
      | q # ps \<Rightarrow> if ps = [] then s = q else \<exists>r. s = q @ r \<and> star_match ps r)"
proof (induction p arbitrary: s)
  case Nil
  show ?case by simp
next
  case (Cons c p)
  obtain q ps where sp: "split_on (CHR ''*'') p = q # ps"
    by (cases "split_on (CHR ''*'') p") auto
  show ?case
  proof (cases "c = CHR ''*''")
    case True
    have "glob_spec (c # p) s \<longleftrightarrow> (\<exists>a b. s = a @ b \<and> glob_spec p b)"
      unfolding True by (rule glob_spec_star)
    also have "\<dots> \<longleftrightarrow> star_match (q # ps) s"
      by (cases "ps = []") (auto simp: Cons.IH sp star_match_Cons has_suffix_iff)
    finally show ?thesis using True sp by simp
  next
    case False
    then show ?thesis using Cons.IH sp by (cases s) auto
  qed
qed

lemma matchGlob_iff: "matchGlob pattern s \<longleftrightarrow> glob_spec pattern s"
proof -
  obtain q ps where sp: "split_on (CHR ''*'') pattern = q # ps"
    by (cases "split_on (CHR ''*'') pattern") auto
  show ?thesis
  proof (cases "ps = []")
    case True
    then have "pattern = q" using sp join_split [of "CHR ''*''" pattern] by simp
    with True sp show ?thesis by (auto simp: matchGlob_def glob_spec_parts)
  next
    case False
    then have ps: "butlast ps @ [last ps] = ps" by simp
    have "matchGlob pattern s \<longleftrightarrow> (\<exists>r. s = q @ r) \<and> star_match ps (drop (length q) s)"
      using False sp glob_mids_greedy [where ms = "butlast ps" and s = "drop (length q) s" and l = "last ps"] ps
      by (auto simp: matchGlob_def has_prefix_iff cong: option.case_cong)
    also have "\<dots> \<longleftrightarrow> glob_spec pattern s"
      using False sp by (auto simp: glob_spec_parts)
    finally show ?thesis .
  qed
qed

section \<open>Ports\<close>

text \<open>The non-zero TCP target ports of an endpoint spec, in declaration order.\<close>

definition tcp_targets :: "portConfig list \<Rightarrow> u32 list" where
  "tcp_targets ps =
     map pc_TargetPort
       (filter (\<lambda>p. (pc_Protocol p = [] \<or> pc_Protocol p = ''tcp'') \<and> pc_TargetPort p \<noteq> 0) ps)"

lemma tcpPorts_loop_eq:
  "tcpPorts_loop seen out ps =
     out @ map (\<lambda>n. \<lparr>port_Target = n\<rparr>)
             (filter (\<lambda>n. n \<notin> set seen) (dedup_first (tcp_targets ps)))"
proof (induction seen out ps rule: tcpPorts_loop.induct)
  case (1 seen out)
  show ?case by (simp add: tcp_targets_def)
next
  case (2 seen out p ps)
  show ?case
  proof (cases "(pc_Protocol p = [] \<or> pc_Protocol p = ''tcp'') \<and> pc_TargetPort p \<noteq> 0")
    case False
    with 2 show ?thesis by (auto simp: tcp_targets_def)
  next
    case True
    have drop: "tcp_targets (p # ps) = pc_TargetPort p # tcp_targets ps"
      using True by (simp add: tcp_targets_def)
    show ?thesis
    proof (cases "pc_TargetPort p \<in> set seen")
      case True': True
      have "filter (\<lambda>n. n \<notin> set seen) (filter (\<lambda>n. n \<noteq> pc_TargetPort p) xs) =
              filter (\<lambda>n. n \<notin> set seen) xs" for xs
        using True' by (induction xs) auto
      with 2 True True' show ?thesis by (simp add: drop)
    next
      case False
      with 2 True show ?thesis by (auto simp: drop conj_commute)
    qed
  qed
qed

lemma tcpPorts_eq:
  "map port_Target (tcpPorts svc) =
     (case ss_EndpointPorts (svc_Spec svc) of
        None \<Rightarrow> []
      | Some ps \<Rightarrow> dedup_first (tcp_targets ps))"
  by (auto simp: tcpPorts_def tcpPorts_loop_eq comp_def split: option.splits)

lemma tcpPorts_wf:
  "distinct (map port_Target (tcpPorts svc)) \<and> 0 \<notin> set (map port_Target (tcpPorts svc))"
  unfolding tcpPorts_eq
  by (auto simp: tcp_targets_def split: option.splits)

section \<open>Egress targets\<close>

text \<open>One trimmed, non-empty entry of the target list; \<open>None\<close> is a malformed entry.\<close>

definition target_of_entry :: "string \<Rightarrow> egressTarget option" where
  "target_of_entry entry =
     (case cut_at (CHR '':'') entry of
        (h, p, ok) \<Rightarrow>
          if ok \<and> trim_space h \<noteq> [] then
            (case parse_uint 16 (trim_space p) of
               None \<Rightarrow> None
             | Some n \<Rightarrow> if n = 0 then None else Some \<lparr>et_Host = trim_space h, et_Port = of_nat n\<rparr>)
          else None)"

definition entries_of :: "string list \<Rightarrow> string list" where
  "entries_of es = filter (\<lambda>e. e \<noteq> []) (map trim_space es)"

text \<open>What a target handed to a gateway looks like.\<close>

definition wf_target :: "egressTarget \<Rightarrow> bool" where
  "wf_target t \<longleftrightarrow> et_Host t \<noteq> [] \<and> trimmed (et_Host t) \<and>
     CHR '','' \<notin> set (et_Host t) \<and> CHR '':'' \<notin> set (et_Host t) \<and>
     0 < unat (et_Port t) \<and> unat (et_Port t) < 65536"

lemma parse_uint_Nil [simp]: "parse_uint bits [] = None"
  by (simp add: parse_uint_def)

lemma parseEgressTargets_loop_eq:
  "parseEgressTargets_loop seen out es =
     (case List.find (\<lambda>e. target_of_entry e = None) (entries_of es) of
        Some e \<Rightarrow> Inl (ErrQuote (ErrVar BadEgressTarget) e)
      | None \<Rightarrow> Inr (out @ map (\<lambda>e. the (target_of_entry e))
                       (filter (\<lambda>e. e \<notin> set seen) (dedup_first (entries_of es)))))"
proof (induction es arbitrary: seen out)
  case Nil
  show ?case by (simp add: entries_of_def)
next
  case (Cons e es)
  let ?e = "trim_space e"
  obtain h p ok where cut: "cut_at (CHR '':'') ?e = (h, p, ok)" by (cases "cut_at (CHR '':'') ?e")
  have filt: "?e \<in> set seen \<Longrightarrow>
      filter (\<lambda>x. x \<notin> set seen) (filter (\<lambda>y. y \<noteq> ?e) xs) = filter (\<lambda>x. x \<notin> set seen) xs" for xs
    by (induction xs) auto
  show ?case
  proof (cases "?e = []")
    case True
    then have "entries_of (e # es) = entries_of es" by (simp add: entries_of_def)
    with True Cons.IH show ?thesis by (simp cong: option.case_cong)
  next
    case False
    then have ents: "entries_of (e # es) = ?e # entries_of es" by (simp add: entries_of_def)
    show ?thesis
    proof (cases "target_of_entry ?e")
      case None
      then have "parseEgressTargets_loop seen out (e # es) =
          Inl (ErrQuote (ErrVar BadEgressTarget) ?e)"
        using False cut by (auto simp: Let_def target_of_entry_def split: option.splits if_splits)
      with None show ?thesis by (simp add: ents)
    next
      case (Some t)
      then have "parseEgressTargets_loop seen out (e # es) =
          (if ?e \<in> set seen then parseEgressTargets_loop seen out es
           else parseEgressTargets_loop (?e # seen) (out @ [t]) es)"
        using False cut by (auto simp: Let_def target_of_entry_def split: option.splits if_splits)
      with Some filt show ?thesis
        by (auto simp: ents Cons.IH conj_commute split: option.splits)
    qed
  qed
qed

lemma parseEgressTargets_eq:
  "parseEgressTargets raw =
     (let es = entries_of (split_on (CHR '','') raw)
      in case List.find (\<lambda>e. target_of_entry e = None) es of
           Some e \<Rightarrow> Inl (ErrQuote (ErrVar BadEgressTarget) e)
         | None \<Rightarrow> Inr (map (\<lambda>e. the (target_of_entry e)) (dedup_first es)))"
proof (cases "trim_space raw = []")
  case True
  then have "CHR '','' \<notin> set raw" using trim_space_Nil_bytes space_seqs_bytes by fastforce
  then have "entries_of (split_on (CHR '','') raw) = []"
    using True by (simp add: split_on_free entries_of_def)
  with True show ?thesis by (simp add: parseEgressTargets_def)
next
  case False
  then show ?thesis
    by (simp add: parseEgressTargets_def parseEgressTargets_loop_eq Let_def cong: option.case_cong)
qed

lemma target_of_entry_wf:
  assumes "target_of_entry e = Some t" and "CHR '','' \<notin> set e"
  shows "wf_target t"
proof -
  obtain h p where cut: "cut_at (CHR '':'') e = (h, p, True)"
    using assms(1) by (auto simp: target_of_entry_def split: prod.splits if_splits)
  obtain n where n: "parse_uint 16 (trim_space p) = Some n" "n \<noteq> 0" "trim_space h \<noteq> []"
    and t: "t = \<lparr>et_Host = trim_space h, et_Port = of_nat n\<rparr>"
    using assms(1) cut by (auto simp: target_of_entry_def split: option.splits if_splits)
  have "n < 65536" using parse_uint_bound [OF n(1)] by simp
  then have "unat (of_nat n :: u32) = n" by (simp add: unat_of_nat take_bit_nat_eq_self)
  moreover have "set (trim_space h) \<subseteq> set e - {CHR '':''}"
    using cut_at_True [OF cut] set_trim_space [of h] by auto
  ultimately show ?thesis using n t \<open>n < 65536\<close> assms(2) by (auto simp: wf_target_def)
qed

lemma target_of_entry_addr:
  assumes "wf_target t" shows "target_of_entry (addr t) = Some t"
proof -
  have "cut_at (CHR '':'') (addr t) = (et_Host t, dec (unat (et_Port t)), True)"
    using assms by (simp add: addr_def wf_target_def cut_at_append)
  moreover have "trimmed (dec n)" for n
    unfolding trimmed_def has_prefix_iff has_suffix_iff
    using space_seqs_bytes space_seqs_ne dec_digits
    by (metis Un_iff all_not_in_conv set_append set_empty)
  ultimately show ?thesis
    using assms by (simp add: target_of_entry_def wf_target_def trim_space_trimmed parse_uint_dec)
qed

lemma trim_space_addr: "wf_target t \<Longrightarrow> trim_space (addr t) = addr t"
  by (simp add: addr_def wf_target_def trimmed_colon_dec trim_space_trimmed)

lemma comma_addr: "wf_target t \<Longrightarrow> CHR '','' \<notin> set (addr t)"
  by (auto simp: addr_def wf_target_def dest: dec_digits) (auto simp: digit_val_def dest!: dec_digits)

lemma addr_not_Nil [simp]: "addr t \<noteq> []"
  by (simp add: addr_def)

lemma addr_inj: "wf_target t \<Longrightarrow> wf_target t' \<Longrightarrow> addr t = addr t' \<longleftrightarrow> t = t'"
  using target_of_entry_addr by (metis option.inject)

lemma parseEgressTargets_wf: "parseEgressTargets raw = Inr ts \<Longrightarrow> t \<in> set ts \<Longrightarrow> wf_target t"
proof -
  assume ok: "parseEgressTargets raw = Inr ts" and t: "t \<in> set ts"
  obtain e where e: "e \<in> set (split_on (CHR '','') raw)" "target_of_entry (trim_space e) = Some t"
    using ok t by (fastforce simp: parseEgressTargets_eq Let_def entries_of_def find_None_iff
        split: option.splits)
  have "CHR '','' \<notin> set (trim_space e)" using split_on_no_sep [OF e(1)] set_trim_space by blast
  with e(2) show ?thesis by (rule target_of_entry_wf)
qed

lemma parseEgressTargets_addr: "wf_target t \<Longrightarrow> parseEgressTargets (addr t) = Inr [t]"
  by (simp add: parseEgressTargets_eq split_on_free comma_addr entries_of_def trim_space_addr
      target_of_entry_addr)

section \<open>Guarantees of a parse\<close>

text \<open>An ACL tag a service may carry: its derived tag, or one an allowlist pattern matches.\<close>

definition tag_permitted :: "labels \<Rightarrow> service \<Rightarrow> string \<Rightarrow> bool" where
  "tag_permitted l svc tag \<longleftrightarrow>
     tag = derivedTag_of svc \<or> (\<exists>p \<in> set (l_AllowedTags l). glob_spec p tag)"

definition ingress_on :: "labels \<Rightarrow> service \<Rightarrow> bool" where
  "ingress_on l svc \<longleftrightarrow> isTrue (get_str (ss_Labels (svc_Spec svc)) (key_of l ''enable''))"

definition egress_on :: "labels \<Rightarrow> service \<Rightarrow> bool" where
  "egress_on l svc \<longleftrightarrow> isTrue (get_str (ss_Labels (svc_Spec svc)) (key_of l ''egress.enable''))"

text \<open>A network the reconciler may place a service's traffic on.\<close>

definition network_permitted :: "labels \<Rightarrow> service \<Rightarrow> network list \<Rightarrow> string \<Rightarrow> bool" where
  "network_permitted l svc networks n \<longleftrightarrow>
     n = defaultNetwork l \<or> serviceAttachedTo svc networks n"

definition wf_parsed :: "labels \<Rightarrow> service \<Rightarrow> network list \<Rightarrow> target \<Rightarrow> bool" where
  "wf_parsed l svc networks tgt \<longleftrightarrow>
     tgt_ServiceID tgt = svc_ID svc \<and> tgt_ServiceName tgt = ss_Name (svc_Spec svc) \<and>
     tgt_Ingress tgt = ingress_on l svc \<and> (tgt_Egress tgt \<noteq> None) = egress_on l svc \<and>
     (tgt_Ingress tgt \<longrightarrow>
        network_permitted l svc networks (tgt_Network tgt) \<and> tgt_Ports tgt \<noteq> [] \<and>
        distinct (map port_Target (tgt_Ports tgt)) \<and> 0 \<notin> set (map port_Target (tgt_Ports tgt))) \<and>
     (\<forall>eg. tgt_Egress tgt = Some eg \<longrightarrow>
        network_permitted l svc networks (eg_Network eg) \<and> eg_Targets eg \<noteq> [] \<and>
        (\<forall>t \<in> set (eg_Targets eg). wf_target t))"

lemma tagAllowed_permitted: "tagAllowed tag (derivedTag_of svc) (l_AllowedTags l) \<Longrightarrow> tag_permitted l svc tag"
  by (auto simp: tagAllowed_def tag_permitted_def list_ex_iff matchGlob_iff split: if_splits)

lemma derived_permitted: "tag_permitted l svc (derivedTag_of svc)"
  by (simp add: tag_permitted_def)

lemma parseIngress_ok:
  assumes "parseIngress l tgt svc networks sn (derivedTag_of svc) = Inr tgt'"
  shows "tgt' = tgt\<lparr>tgt_Ingress := True, tgt_Network := tgt_Network tgt',
           tgt_Hostname := tgt_Hostname tgt', tgt_Tag := tgt_Tag tgt', tgt_Ports := tcpPorts svc\<rparr>"
    and "network_permitted l svc networks (tgt_Network tgt')"
    and "tag_permitted l svc (tgt_Tag tgt')"
    and "tcpPorts svc \<noteq> []"
  using assms tagAllowed_permitted [of _ svc l]
  by (auto simp: parseIngress_def Let_def network_permitted_def derived_permitted split: if_splits)

lemma parseEgress_ok:
  assumes "parseEgress l svc networks stack sn (derivedTag_of svc) = Inr eg"
  shows "network_permitted l svc networks (eg_Network eg)"
    and "tag_permitted l svc (eg_Tag eg)"
    and "eg_Targets eg \<noteq> []"
    and "t \<in> set (eg_Targets eg) \<Longrightarrow> wf_target t"
  using assms tagAllowed_permitted [of _ svc l] parseEgressTargets_wf
  by (auto simp: parseEgress_def Let_def network_permitted_def derived_permitted
      split: if_splits sum.splits)

text \<open>The cases of \<^verbatim>\<open>Parse\<close>, as a rule the proofs below share.\<close>

lemma Parse_cases:
  assumes "Parse l svc networks = (tgt, en, err)"
  obtains (off) "\<not> ingress_on l svc" "\<not> egress_on l svc" "tgt = zeroTarget" "\<not> en" "err = None"
    | (ingress_err) e tgt0 where "ingress_on l svc" "en" "tgt = zeroTarget" "err = Some e"
        "parseIngress l tgt0 svc networks (shortName_of svc) (derivedTag_of svc) = Inl e"
    | (egress_err) e stack where "egress_on l svc" "en" "tgt = zeroTarget" "err = Some e"
        "parseEgress l svc networks stack (shortName_of svc) (derivedTag_of svc) = Inl e"
    | (ok) tgt0 tgt1 stack where "ingress_on l svc \<or> egress_on l svc" "en" "err = None"
        "tgt_Egress tgt0 = None" "\<not> tgt_Ingress tgt0" "tgt_ServiceID tgt0 = svc_ID svc"
        "tgt_ServiceName tgt0 = ss_Name (svc_Spec svc)"
        "if ingress_on l svc
         then parseIngress l tgt0 svc networks (shortName_of svc) (derivedTag_of svc) = Inr tgt1
         else tgt1 = tgt0"
        "if egress_on l svc
         then \<exists>eg. parseEgress l svc networks stack (shortName_of svc) (derivedTag_of svc) = Inr eg
                   \<and> tgt = tgt1\<lparr>tgt_Egress := Some eg\<rparr>
         else tgt = tgt1"
proof (cases "ingress_on l svc \<or> egress_on l svc")
  case False
  with assms off show thesis by (auto simp: Parse_def Let_def ingress_on_def egress_on_def)
next
  case True
  define stack where "stack = get_str (ss_Labels (svc_Spec svc)) stackLabel"
  define tgt0 where "tgt0 = zeroTarget\<lparr>tgt_ServiceID := svc_ID svc,
    tgt_ServiceName := ss_Name (svc_Spec svc), tgt_Stack := stack, tgt_SpecVersion := svc_Version svc\<rparr>"
  define ing where "ing = (if ingress_on l svc
    then parseIngress l tgt0 svc networks (shortName_of svc) (derivedTag_of svc) else Inr tgt0)"
  define egr where "egr = parseEgress l svc networks stack (shortName_of svc) (derivedTag_of svc)"
  have P: "Parse l svc networks =
      (case ing of Inl e \<Rightarrow> (zeroTarget, True, Some e)
       | Inr t \<Rightarrow> if egress_on l svc
           then (case egr of Inl e \<Rightarrow> (zeroTarget, True, Some e)
                 | Inr eg \<Rightarrow> (t\<lparr>tgt_Egress := Some eg\<rparr>, True, None))
           else (t, True, None))"
    using True
    unfolding Parse_def Let_def ing_def egr_def tgt0_def stack_def ingress_on_def egress_on_def
    by simp
  have z: "tgt_Egress tgt0 = None" "\<not> tgt_Ingress tgt0" "tgt_ServiceID tgt0 = svc_ID svc"
      "tgt_ServiceName tgt0 = ss_Name (svc_Spec svc)"
    by (simp_all add: tgt0_def zeroTarget_def)
  show thesis
  proof (cases ing)
    case (Inl e)
    with assms P ingress_err show thesis by (auto simp: ing_def split: if_splits)
  next
    case (Inr tgt1)
    show thesis
    proof (cases "egress_on l svc \<and> isl egr")
      case True
      with assms P Inr egress_err show thesis by (auto simp: egr_def isl_def)
    next
      case False
      with assms P Inr True z show thesis
        by (intro ok [of tgt0 tgt1 stack]) (auto simp: ing_def egr_def split: if_splits sum.splits)
    qed
  qed
qed

lemma Parse_wf:
  assumes "Parse l svc networks = (tgt, True, None)"
  shows "wf_parsed l svc networks tgt"
  using assms
proof (cases rule: Parse_cases)
  case (ok tgt0 tgt1 stack)
  have "tgt_Ingress tgt1 = ingress_on l svc \<and> tgt_Egress tgt1 = None \<and>
      tgt_ServiceID tgt1 = svc_ID svc \<and> tgt_ServiceName tgt1 = ss_Name (svc_Spec svc) \<and>
      (tgt_Ingress tgt1 \<longrightarrow> network_permitted l svc networks (tgt_Network tgt1) \<and>
         tgt_Ports tgt1 = tcpPorts svc \<and> tcpPorts svc \<noteq> [])"
  proof (cases "ingress_on l svc")
    case True
    with ok have p: "parseIngress l tgt0 svc networks (shortName_of svc) (derivedTag_of svc) = Inr tgt1"
      by simp
    obtain n h t where "tgt1 = tgt0\<lparr>tgt_Ingress := True, tgt_Network := n, tgt_Hostname := h,
        tgt_Tag := t, tgt_Ports := tcpPorts svc\<rparr>"
      using parseIngress_ok(1) [OF p] by blast
    with True ok parseIngress_ok(2,4) [OF p] show ?thesis by auto
  qed (use ok in auto)
  with ok parseEgress_ok [of l svc networks] tcpPorts_wf [of svc] show ?thesis
    by (cases "egress_on l svc") (auto simp: wf_parsed_def)
qed auto

lemma Parse_tag:
  assumes "Parse l svc networks = (tgt, True, None)"
  shows "(tgt_Ingress tgt \<longrightarrow> tag_permitted l svc (tgt_Tag tgt)) \<and>
         (\<forall>eg. tgt_Egress tgt = Some eg \<longrightarrow> tag_permitted l svc (eg_Tag eg))"
  using assms
proof (cases rule: Parse_cases)
  case (ok tgt0 tgt1 stack)
  have 1: "(tgt_Ingress tgt1 \<longrightarrow> tag_permitted l svc (tgt_Tag tgt1)) \<and> tgt_Egress tgt1 = None"
  proof (cases "ingress_on l svc")
    case True
    with ok have p: "parseIngress l tgt0 svc networks (shortName_of svc) (derivedTag_of svc) = Inr tgt1"
      by simp
    obtain n h t where "tgt1 = tgt0\<lparr>tgt_Ingress := True, tgt_Network := n, tgt_Hostname := h,
        tgt_Tag := t, tgt_Ports := tcpPorts svc\<rparr>"
      using parseIngress_ok(1) [OF p] by blast
    with ok parseIngress_ok(3) [OF p] show ?thesis by auto
  qed (use ok in auto)
  then show ?thesis
    using ok(9) parseEgress_ok(2) [of l svc networks] by (auto split: if_splits)
qed auto


text \<open>When an opted-in service is accepted, as conditions on its labels alone.\<close>

definition override_ok :: "string \<Rightarrow> bool \<Rightarrow> bool" where
  "override_ok ov ok \<longleftrightarrow> ov = [] \<or> ok"

definition accepted :: "labels \<Rightarrow> service \<Rightarrow> network list \<Rightarrow> bool" where
  "accepted l svc networks \<longleftrightarrow>
     (let lbl = (\<lambda>k. get_str (ss_Labels (svc_Spec svc)) (key_of l k));
          net_ok = (\<lambda>k. override_ok (lbl k) (serviceAttachedTo svc networks (lbl k)));
          tag_ok = (\<lambda>k. override_ok (lbl k) (tag_permitted l svc (lbl k)));
          es = entries_of (split_on (CHR '','') (lbl ''egress.targets''))
      in (ingress_on l svc \<longrightarrow> net_ok ''network'' \<and> tag_ok ''tag'' \<and> tcpPorts svc \<noteq> []) \<and>
         (egress_on l svc \<longrightarrow>
            net_ok ''egress.network'' \<and> tag_ok ''egress.tag'' \<and> es \<noteq> [] \<and>
            (\<forall>e \<in> set es. target_of_entry e \<noteq> None)))"

lemma tagAllowed_iff: "tagAllowed tag (derivedTag_of svc) (l_AllowedTags l) \<longleftrightarrow> tag_permitted l svc tag"
  by (auto simp: tagAllowed_def tag_permitted_def list_ex_iff matchGlob_iff)

lemma dedup_first_Nil_iff: "dedup_first xs = [] \<longleftrightarrow> xs = []"
  by (cases xs) auto

lemma parseEgressTargets_Inr_iff:
  "(\<exists>t ts. parseEgressTargets raw = Inr (t # ts)) \<longleftrightarrow>
     (let es = entries_of (split_on (CHR '','') raw)
      in es \<noteq> [] \<and> (\<forall>e \<in> set es. target_of_entry e \<noteq> None))"
  by (auto simp: parseEgressTargets_eq Let_def find_None_iff find_Some_iff dedup_first_Nil_iff
      neq_Nil_conv [symmetric] split: option.splits)

lemma parseIngress_isl:
  "isl (parseIngress l tgt svc networks sn (derivedTag_of svc)) \<longleftrightarrow>
     (let lbl = (\<lambda>k. get_str (ss_Labels (svc_Spec svc)) (key_of l k))
      in \<not> (override_ok (lbl ''network'') (serviceAttachedTo svc networks (lbl ''network'')) \<and>
            override_ok (lbl ''tag'') (tag_permitted l svc (lbl ''tag'')) \<and> tcpPorts svc \<noteq> []))"
  by (auto simp: parseIngress_def Let_def override_ok_def tagAllowed_iff)

lemma parseEgress_isl:
  "isl (parseEgress l svc networks stack sn (derivedTag_of svc)) \<longleftrightarrow>
     (let lbl = (\<lambda>k. get_str (ss_Labels (svc_Spec svc)) (key_of l k))
      in \<not> (override_ok (lbl ''egress.network'') (serviceAttachedTo svc networks (lbl ''egress.network'')) \<and>
            override_ok (lbl ''egress.tag'') (tag_permitted l svc (lbl ''egress.tag'')) \<and>
            (\<exists>t ts. parseEgressTargets (lbl ''egress.targets'') = Inr (t # ts))))"
  by (auto simp: parseEgress_def Let_def override_ok_def tagAllowed_iff neq_Nil_conv split: sum.splits)

lemma Parse_None_iff:
  assumes "Parse l svc networks = (tgt, en, err)"
  shows "err = None \<longleftrightarrow> accepted l svc networks"
  using assms
proof (cases rule: Parse_cases)
  case off
  then show ?thesis by (simp add: accepted_def Let_def)
next
  case (ingress_err e tgt0)
  then have "isl (parseIngress l tgt0 svc networks (shortName_of svc) (derivedTag_of svc))" by simp
  then have "\<not> accepted l svc networks"
    unfolding parseIngress_isl using ingress_err(1) by (simp add: accepted_def Let_def)
  with ingress_err(4) show ?thesis by simp
next
  case (egress_err e stack)
  then have "isl (parseEgress l svc networks stack (shortName_of svc) (derivedTag_of svc))" by simp
  then have "\<not> accepted l svc networks"
    unfolding parseEgress_isl parseEgressTargets_Inr_iff
    using egress_err(1) by (simp add: accepted_def Let_def)
  with egress_err(4) show ?thesis by simp
next
  case (ok tgt0 tgt1 stack)
  have "ingress_on l svc \<longrightarrow> \<not> isl (parseIngress l tgt0 svc networks (shortName_of svc) (derivedTag_of svc))"
    using ok(8) by auto
  moreover have "egress_on l svc \<longrightarrow>
      \<not> isl (parseEgress l svc networks stack (shortName_of svc) (derivedTag_of svc))"
    using ok(9) by auto
  ultimately show ?thesis
    using ok(3) by (simp add: parseIngress_isl parseEgress_isl parseEgressTargets_Inr_iff accepted_def Let_def)
qed

lemma Parse_error_kinds:
  assumes "Parse l svc networks = (tgt, en, Some e)"
  shows "\<exists>v \<in> {UnknownNetwork, TagNotAllowed, NoTCPPorts, BadEgressTarget, NoEgressTargets, EgressTagNotAllow}.
           errors_is e v"
  using assms
proof (cases rule: Parse_cases)
  case (ingress_err e' tgt0)
  then show ?thesis by (auto simp: parseIngress_def Let_def split: if_splits)
next
  case (egress_err e' stack)
  then show ?thesis
    by (auto simp: parseEgress_def parseEgressTargets_eq Let_def split: if_splits sum.splits option.splits)
qed auto

section \<open>Properties\<close>

text \<open>
  C29: the allowlist matcher, which splits the pattern at its stars and searches the parts
  greedily from left to right, decides exactly the byte-by-byte meaning of the pattern.
\<close>

theorem matchGlob_correct: "matchGlob pattern s \<longleftrightarrow> glob_spec pattern s"
  by (rule matchGlob_iff)

text \<open>
  The ports of a target are the non-zero TCP target ports of the service, each once, in
  the order of their first declaration.
\<close>

theorem tcpPorts_first_occurrences:
  "map port_Target (tcpPorts svc) =
     (case ss_EndpointPorts (svc_Spec svc) of None \<Rightarrow> [] | Some ps \<Rightarrow> dedup_first (tcp_targets ps))
   \<and> distinct (map port_Target (tcpPorts svc)) \<and> 0 \<notin> set (map port_Target (tcpPorts svc))"
  using tcpPorts_eq tcpPorts_wf by blast

text \<open>
  The target list is read entry by entry: the first malformed entry of the whole list is
  the error that is reported, and otherwise the result holds one target per different entry
  text, in order of first occurrence, each with a host and a port from 1 to 65535.
\<close>

theorem parseEgressTargets_spec:
  "(let es = entries_of (split_on (CHR '','') raw)
    in parseEgressTargets raw =
         (case List.find (\<lambda>e. target_of_entry e = None) es of
            Some e \<Rightarrow> Inl (ErrQuote (ErrVar BadEgressTarget) e)
          | None \<Rightarrow> Inr (map (\<lambda>e. the (target_of_entry e)) (dedup_first es))))
   \<and> (case parseEgressTargets raw of Inl _ \<Rightarrow> True | Inr ts \<Rightarrow> list_all wf_target ts)"
  using parseEgressTargets_eq [of raw] parseEgressTargets_wf [of raw]
  by (auto simp: Let_def list_all_iff split: sum.splits)

text \<open>
  C30: what a successful parse guarantees. The target names the service; each direction is
  on exactly when its label says so; networks are the default one or one the service is
  attached to; ports and egress targets are well formed and not empty; and both ACL tags
  are the derived one or one the allowlist permits.
\<close>

theorem Parse_guarantees:
  assumes "Parse l svc networks = (tgt, True, None)"
  shows "wf_parsed l svc networks tgt \<and>
         (tgt_Ingress tgt \<longrightarrow> tag_permitted l svc (tgt_Tag tgt)) \<and>
         (\<forall>eg. tgt_Egress tgt = Some eg \<longrightarrow> tag_permitted l svc (eg_Tag eg))"
  using Parse_wf [OF assms] Parse_tag [OF assms] by simp

definition demo_labels :: labels where
  "demo_labels = \<lparr>l_Namespace = ''tailswarm'', l_AllowedTags = [''tag:team-*''], l_DefaultNetwork = ''tailswarm-overlay''\<rparr>"

definition demo_svc :: service where
  "demo_svc =
     \<lparr>svc_ID = ''app1'', svc_Version = 4, svc_Spec =
       \<lparr>ss_Name = ''shop_web'',
        ss_Labels = [(''com.docker.stack.namespace'', ''shop''), (''tailswarm.enable'', ''Yes''),
                     (''tailswarm.tag'', ''tag:team-web''), (''tailswarm.egress.enable'', ''1''),
                     (''tailswarm.egress.targets'', ''db:5432'')],
        ss_ContainerSpec = None, ss_TaskNetworks = [], ss_Networks = [],
        ss_EndpointPorts = Some [\<lparr>pc_Protocol = ''tcp'', pc_TargetPort = 80\<rparr>]\<rparr>\<rparr>"

definition demo_tgt :: target where
  "demo_tgt =
     \<lparr>tgt_ServiceID = ''app1'', tgt_ServiceName = ''shop_web'', tgt_Stack = ''shop'',
      tgt_Network = ''tailswarm-overlay'', tgt_Hostname = ''shop-web'', tgt_Tag = ''tag:team-web'',
      tgt_Ports = [\<lparr>port_Target = 80\<rparr>], tgt_SpecVersion = 4, tgt_Ingress = True,
      tgt_Egress = Some \<lparr>eg_Hostname = ''shop-web-egress'', eg_Tag = ''tag:swarm-web'',
        eg_Network = ''tailswarm-overlay'',
        eg_Targets = [\<lparr>et_Host = ''db'', et_Port = 5432\<rparr>]\<rparr>\<rparr>"

text \<open>The labels of the example as the parser looks them up.\<close>

definition demo_label :: "string \<Rightarrow> string" where
  "demo_label k = get_str (ss_Labels (svc_Spec demo_svc)) (key_of demo_labels k)"

lemma demo_label_eval:
  "demo_label ''enable'' = ''Yes''" "demo_label ''tag'' = ''tag:team-web''" "demo_label ''network'' = []"
  "demo_label ''hostname'' = []" "demo_label ''egress.enable'' = ''1''"
  "demo_label ''egress.targets'' = ''db:5432''" "demo_label ''egress.network'' = []"
  "demo_label ''egress.tag'' = []" "demo_label ''egress.hostname'' = []"
  by code_simp+

lemma demo_parse: "Parse demo_labels demo_svc [] = (demo_tgt, True, None)"
proof -
  note lbl = demo_label_eval [unfolded demo_label_def]
  have "trimmed ''db''" by code_simp
  then have targets: "parseEgressTargets ''db:5432'' = Inr [\<lparr>et_Host = ''db'', et_Port = 5432\<rparr>]"
    using parseEgressTargets_addr [of "\<lparr>et_Host = ''db'', et_Port = 5432\<rparr>"]
    by (simp add: wf_target_def addr_def dec.simps)
  have facts: "tagAllowed ''tag:team-web'' ''tag:swarm-web'' (l_AllowedTags demo_labels)"
    "derivedTag_of demo_svc = ''tag:swarm-web''" "shortName_of demo_svc = ''web''"
    "tcpPorts demo_svc = [\<lparr>port_Target = 80\<rparr>]" "isTrue ''Yes''" "isTrue ''1''"
    "defaultNetwork demo_labels = ''tailswarm-overlay''"
    "get_str (ss_Labels (svc_Spec demo_svc)) stackLabel = ''shop''"
    by code_simp+
  have "parseEgress demo_labels demo_svc [] ''shop'' ''web'' ''tag:swarm-web'' = Inr (the (tgt_Egress demo_tgt))"
    by (simp add: parseEgress_def lbl targets facts demo_tgt_def)
  moreover have "parseIngress demo_labels tgt demo_svc [] ''web'' ''tag:swarm-web'' =
      Inr (tgt\<lparr>tgt_Ingress := True, tgt_Network := ''tailswarm-overlay'', tgt_Hostname := ''shop-web'',
               tgt_Tag := ''tag:team-web'', tgt_Ports := [\<lparr>port_Target = 80\<rparr>]\<rparr>)"
    if "tgt_Stack tgt = ''shop''" for tgt
    using that by (simp add: parseIngress_def lbl facts)
  moreover have "svc_ID demo_svc = ''app1''" "svc_Version demo_svc = 4" "ss_Name (svc_Spec demo_svc) = ''shop_web''"
    by (simp_all add: demo_svc_def)
  ultimately show ?thesis
    by (simp add: Parse_def Let_def lbl facts zeroTarget_def) (simp add: demo_tgt_def)
qed

theorem Parse_guarantees_witness:
  "wf_parsed demo_labels demo_svc [] demo_tgt \<and> tag_permitted demo_labels demo_svc ''tag:team-web''"
  using Parse_guarantees [OF demo_parse] by (simp add: demo_tgt_def)

text \<open>
  C31: the outcome of a parse. A service that opts into neither direction is not enabled and
  gives no error; one that opts in is enabled, and is accepted exactly when its overrides,
  ports and targets are all good; a refusal is one of the documented errors; and whenever
  there is nothing to run the target is the zero value.
\<close>

theorem Parse_outcome:
  assumes "Parse l svc networks = (tgt, en, err)"
  shows "(en \<longleftrightarrow> ingress_on l svc \<or> egress_on l svc) \<and>
         (err = None \<longleftrightarrow> accepted l svc networks) \<and>
         (\<not> en \<or> err \<noteq> None \<longrightarrow> tgt = zeroTarget) \<and>
         (\<forall>e. err = Some e \<longrightarrow> (\<exists>v \<in> {UnknownNetwork, TagNotAllowed, NoTCPPorts, BadEgressTarget,
            NoEgressTargets, EgressTagNotAllow}. errors_is e v))"
proof -
  have "(en \<longleftrightarrow> ingress_on l svc \<or> egress_on l svc) \<and> (\<not> en \<or> err \<noteq> None \<longrightarrow> tgt = zeroTarget)"
    using assms by (cases rule: Parse_cases) auto
  with Parse_None_iff [OF assms] Parse_error_kinds assms show ?thesis by blast
qed

theorem Parse_outcome_witness:
  "accepted demo_labels demo_svc [] \<and> (ingress_on demo_labels demo_svc \<or> egress_on demo_labels demo_svc)"
  using Parse_outcome [OF demo_parse] by simp

text \<open>
  Duplicates in the target list are recognised by the text of the entry, not by the
  target it denotes: a port written with a leading zero gives the same target twice.
\<close>

theorem duplicate_targets_by_text:
  "parseEgressTargets ''db:80,db:080'' =
     Inr [\<lparr>et_Host = ''db'', et_Port = 80\<rparr>, \<lparr>et_Host = ''db'', et_Port = 80\<rparr>]"
proof -
  have t: "trimmed ''db:80''" "trimmed ''db:080''" "trimmed ''db''" "trimmed ''80''" "trimmed ''080''"
    by code_simp+
  have es: "entries_of [''db:80'', ''db:080''] = [''db:80'', ''db:080'']"
    by (simp add: entries_of_def trim_space_trimmed t)
  have digits: "digit_val (CHR ''0'') = Some 0" "digit_val (CHR ''8'') = Some 8"
    by code_simp+
  have "parse_uint 16 ''80'' = Some 80" "parse_uint 16 ''080'' = Some 80"
    unfolding parse_uint_def using digits by simp_all
  then show ?thesis
    by (simp add: parseEgressTargets_eq Let_def es target_of_entry_def trim_space_trimmed t)
qed

end
