(* ===== verification/Proxy.thy ===== *)
theory Proxy
  imports Labels
begin

text \<open>
  The ingress data plane, \<^verbatim>\<open>internal/tailswarm/proxy.go\<close>: bringing a proxy up, opening its
  listeners and closing it. A tsnet server is third-party code: what it answers is an
  argument (\<open>listen\<close>, the outcome of \<^verbatim>\<open>Start\<close>), what the sources do to it is a list of
  actions.
\<close>

section \<open>Definitions\<close>

record proxyConfig =
  px_Hostname :: string
  px_Target :: string
  px_AuthKey :: string
  px_Ports :: "port list"
  px_StateDir :: string
  px_LoginURL :: string
  px_Tags :: "string list"

text \<open>A \<^verbatim>\<open>*Proxy\<close>: pointer identity and the configuration it was started with.\<close>

record proxy =
  proxy_ref :: nat
  proxy_cfg :: proxyConfig

text \<open>
  A \<^verbatim>\<open>dialFunc\<close>: what a forwarder will dial once it has a connection, over which network stack.
  Ingress dials the overlay with the host's \<^verbatim>\<open>net.Dialer\<close>; egress dials the tailnet through the
  gateway's own server.
\<close>

datatype dial_via = HostNet | Tailnet

record dialFunc =
  df_via :: dial_via
  df_network :: string
  df_addr :: string

definition overlayDialer :: "string \<Rightarrow> dialFunc" where
  "overlayDialer tgt = \<lparr>df_via = HostNet, df_network = ''tcp'', df_addr = tgt\<rparr>"

text \<open>
  What the sources do to a server and its goroutines, in order: start the server, open a
  listener, spawn the accept loop towards a destination, spawn the goroutine that closes a
  listener when the context is cancelled, wait for the cancellation, cancel, close the
  server, and wait for the accept loops.
\<close>

datatype net_action =
    ActStart
  | ActListen string
  | ActAccept dialFunc
  | ActCloseOnCancel string
  | ActAwaitCancel
  | ActCancel
  | ActCloseServer
  | ActJoin

text \<open>The fields of the \<^verbatim>\<open>tsnet.Server\<close> that is built from a configuration.\<close>

record tsnetServer =
  ts_Hostname :: string
  ts_AuthKey :: string
  ts_Dir :: string
  ts_Ephemeral :: bool
  ts_ControlURL :: string

text \<open>\<^verbatim>\<open>filepath.Join\<close> is called with a non-empty directory and host name; its cleaning of the
  result is an argument.\<close>

definition server_for ::
  "(string \<Rightarrow> string \<Rightarrow> string) \<Rightarrow> string \<Rightarrow> string \<Rightarrow> string \<Rightarrow> string \<Rightarrow> tsnetServer" where
  "server_for join hostname authKey stateDir loginURL =
     \<lparr>ts_Hostname = hostname, ts_AuthKey = authKey, ts_Dir = join stateDir hostname,
      ts_Ephemeral = True, ts_ControlURL = loginURL\<rparr>"

text \<open>
  \<^verbatim>\<open>startTsnetBounded\<close>: whichever of the three channels of the \<^verbatim>\<open>select\<close> is ready first
  decides. On a timeout or a cancelled context the server is closed and an error returned.
\<close>

datatype start_outcome = StartDone "goerr option" | StartTimeout | StartCtxDone goerr

definition startTsnetBounded :: "start_outcome \<Rightarrow> string \<Rightarrow> net_action list \<times> goerr option" where
  "startTsnetBounded out hostname =
     (case out of
        StartDone err \<Rightarrow> ([ActStart], err)
      | StartTimeout \<Rightarrow>
          ([ActStart, ActCloseServer], Some (ErrNew (''tsnet start '' @ hostname @ '': timed out'')))
      | StartCtxDone e \<Rightarrow>
          ([ActStart, ActCloseServer], Some (ErrWrap (''tsnet start '' @ hostname) e)))"

text \<open>
  The listener loop of \<^verbatim>\<open>startProxyOn\<close>. \<open>listen\<close> answers each \<^verbatim>\<open>srv.Listen\<close>, \<open>None\<close> for
  success; an accept loop is spawned per listener with its overlay destination. A failed
  listen cancels the context, closes the server and gives up.
\<close>

fun listen_loop ::
  "(string \<Rightarrow> goerr option) \<Rightarrow> string \<Rightarrow> port list \<Rightarrow> net_action list \<times> goerr option" where
  "listen_loop listen tgt [] = ([], None)"
| "listen_loop listen tgt (p # ps) =
     (let n = dec (unat (port_Target p))
      in case listen ('':'' @ n) of
           Some e \<Rightarrow> ([ActListen ('':'' @ n), ActCancel, ActCloseServer], Some (ErrWrap (''listen '' @ n) e))
         | None \<Rightarrow>
             (case listen_loop listen tgt ps of
                (acts, r) \<Rightarrow> (ActListen ('':'' @ n) # ActAccept (overlayDialer (tgt @ '':'' @ n)) # acts, r)))"

definition startProxyOn ::
  "(string \<Rightarrow> goerr option) \<Rightarrow> nat \<Rightarrow> proxyConfig \<Rightarrow> net_action list \<times> (goerr + proxy)" where
  "startProxyOn listen ref cfg =
     (case listen_loop listen (px_Target cfg) (px_Ports cfg) of
        (acts, Some e) \<Rightarrow> (acts, Inl e)
      | (acts, None) \<Rightarrow> (acts, Inr \<lparr>proxy_ref = ref, proxy_cfg = cfg\<rparr>))"

definition NewTsnetProxy ::
  "(tsnetServer \<Rightarrow> start_outcome) \<Rightarrow> (string \<Rightarrow> string \<Rightarrow> string) \<Rightarrow> (string \<Rightarrow> goerr option) \<Rightarrow> nat
     \<Rightarrow> proxyConfig \<Rightarrow> net_action list \<times> (goerr + proxy)" where
  "NewTsnetProxy start join listen ref cfg =
     (if px_Hostname cfg = [] then ([], Inl (ErrNew ''tailswarm: ProxyConfig.Hostname is empty''))
      else if px_Target cfg = [] then ([], Inl (ErrNew ''tailswarm: ProxyConfig.Target is empty''))
      else if px_Ports cfg = [] then ([], Inl (ErrNew ''tailswarm: ProxyConfig.Ports is empty''))
      else if px_StateDir cfg = [] then ([], Inl (ErrNew ''tailswarm: ProxyConfig.StateDir is empty''))
      else
        (let srv = server_for join (px_Hostname cfg) (px_AuthKey cfg) (px_StateDir cfg) (px_LoginURL cfg)
         in case startTsnetBounded (start srv) (px_Hostname cfg) of
              (acts, Some e) \<Rightarrow> (acts, Inl e)
            | (acts, None) \<Rightarrow>
                (case startProxyOn listen ref cfg of (acts', r) \<Rightarrow> (acts @ acts', r))))"

text \<open>\<^verbatim>\<open>Close\<close>: cancel, close the server, wait for the accept loops, return the close error.\<close>

definition proxy_Close :: "goerr option \<Rightarrow> net_action list \<times> goerr option" where
  "proxy_Close closeErr = ([ActCancel, ActCloseServer, ActJoin], closeErr)"

section \<open>Bring-up\<close>

definition listener_actions :: "string \<Rightarrow> port \<Rightarrow> net_action list" where
  "listener_actions tgt p =
     (let n = dec (unat (port_Target p)) in [ActListen ('':'' @ n), ActAccept (overlayDialer (tgt @ '':'' @ n))])"

text \<open>
  The two data planes open their listeners in the same way, one item after the other, and
  give up at the first failure. The locale states that discipline and what follows from it:
  all listeners are open, or the server is closed, once, at the very end.
\<close>

locale bring_up =
  fixes loop :: "'p list \<Rightarrow> net_action list \<times> goerr option"
    and opened :: "'p \<Rightarrow> net_action list"
    and attempt :: "'p \<Rightarrow> net_action"
  assumes loop_Nil: "loop [] = ([], None)"
    and loop_Cons: "loop (p # ps) = (opened p @ fst (loop ps), snd (loop ps)) \<or>
        (\<exists>e. loop (p # ps) = ([attempt p, ActCancel, ActCloseServer], Some e))"
    and opened_open: "ActCloseServer \<notin> set (opened p)"
    and attempt_open: "attempt p \<noteq> ActCloseServer"
begin

lemma loop_ok: "loop ps = (acts, None) \<Longrightarrow> acts = concat (map opened ps)"
proof (induction ps arbitrary: acts)
  case (Cons p ps)
  then show ?case using loop_Cons [of p ps] by (metis concat.simps(2) list.simps(9) option.distinct(1)
        prod.collapse prod.inject)
qed (simp add: loop_Nil)

lemma loop_err:
  "loop ps = (acts, Some e) \<Longrightarrow>
     \<exists>qs p rs. ps = qs @ p # rs \<and>
       acts = concat (map opened qs) @ [attempt p, ActCancel, ActCloseServer]"
proof (induction ps arbitrary: acts)
  case (Cons p ps)
  consider "loop (p # ps) = (opened p @ fst (loop ps), snd (loop ps))"
    | "fst (loop (p # ps)) = [attempt p, ActCancel, ActCloseServer]"
    using loop_Cons [of p ps] by force
  then show ?case
  proof cases
    case 1
    with Cons.prems have "loop ps = (fst (loop ps), Some e)" "acts = opened p @ fst (loop ps)"
      by (simp_all add: prod_eq_iff)
    with Cons.IH obtain qs q rs where "ps = qs @ q # rs"
      "acts = opened p @ concat (map opened qs) @ [attempt q, ActCancel, ActCloseServer]" by blast
    then show ?thesis by (intro exI [of _ "p # qs"] exI [of _ q] exI [of _ rs]) simp
  next
    case 2
    with Cons.prems show ?thesis by (intro exI [of _ "[]"] exI [of _ p] exI [of _ ps]) simp
  qed
qed (simp add: loop_Nil)

lemma never_closed_early: "count_list (concat (map opened ps)) ActCloseServer = 0"
  using opened_open by (induction ps) (simp_all add: count_list_0_iff)

lemma all_or_nothing:
  assumes "loop ps = (acts, r)"
  shows "case r of
      None \<Rightarrow> acts = concat (map opened ps) \<and> ActCloseServer \<notin> set acts
    | Some _ \<Rightarrow> acts \<noteq> [] \<and> last acts = ActCloseServer \<and> count_list acts ActCloseServer = 1"
proof (cases r)
  case None
  with assms show ?thesis
    using loop_ok never_closed_early [of ps] by (simp add: count_list_0_iff)
next
  case (Some e)
  with assms show ?thesis
    using never_closed_early attempt_open by (auto dest!: loop_err)
qed

end

interpretation ing: bring_up "listen_loop listen tgt" "listener_actions tgt"
  "\<lambda>p. ActListen ('':'' @ dec (unat (port_Target p)))" for listen tgt
  by unfold_locales (auto simp: listener_actions_def Let_def split: option.splits prod.splits)

text \<open>
  Bringing a proxy up never leaves a half-open server. If \<^verbatim>\<open>NewTsnetProxy\<close> returns a
  proxy, the server was started, one listener per configured port was opened, each
  forwarding to that port of the target, and nothing was closed; if it returns an error
  after \<^verbatim>\<open>Start\<close> succeeded, the last thing it did was to close the server.
\<close>

theorem NewTsnetProxy_all_or_nothing:
  assumes "NewTsnetProxy start join listen ref cfg = (acts, res)"
    and "start (server_for join (px_Hostname cfg) (px_AuthKey cfg) (px_StateDir cfg) (px_LoginURL cfg))
           = StartDone None"
  shows "case res of
      Inr p \<Rightarrow> proxy_cfg p = cfg \<and>
        acts = ActStart # concat (map (listener_actions (px_Target cfg)) (px_Ports cfg)) \<and>
        ActCloseServer \<notin> set acts
    | Inl _ \<Rightarrow> acts = [] \<or> (last acts = ActCloseServer \<and> count_list acts ActCloseServer = 1)"
proof -
  obtain acts' r where L: "listen_loop listen (px_Target cfg) (px_Ports cfg) = (acts', r)" by fastforce
  show ?thesis
    using assms L ing.all_or_nothing [OF L]
    by (cases r) (auto simp: NewTsnetProxy_def startTsnetBounded_def startProxyOn_def Let_def split: if_splits)
qed

theorem NewTsnetProxy_all_or_nothing_witness:
  "let cfg = \<lparr>px_Hostname = ''h'', px_Target = ''t'', px_AuthKey = ''k'',
         px_Ports = [\<lparr>port_Target = 80\<rparr>, \<lparr>port_Target = 81\<rparr>], px_StateDir = ''d'', px_LoginURL = ''u'',
         px_Tags = []\<rparr>;
       r = NewTsnetProxy (\<lambda>_. StartDone None) (@) (\<lambda>a. if a = '':81'' then Some (ErrVar Canceled) else None)
             0 cfg
   in isl (snd r) \<and> last (fst r) = ActCloseServer"
proof -
  let ?cfg = "\<lparr>px_Hostname = ''h'', px_Target = ''t'', px_AuthKey = ''k'',
         px_Ports = [\<lparr>port_Target = 80\<rparr>, \<lparr>port_Target = 81\<rparr>], px_StateDir = ''d'', px_LoginURL = ''u'',
         px_Tags = []\<rparr>"
  let ?r = "NewTsnetProxy (\<lambda>_. StartDone None) (@)
      (\<lambda>a. if a = '':81'' then Some (ErrVar Canceled) else None) 0 ?cfg"
  have "isl (snd ?r)" "fst ?r \<noteq> []" by code_simp+
  then show ?thesis
    using NewTsnetProxy_all_or_nothing [of "\<lambda>_. StartDone None" "(@)"
        "\<lambda>a. if a = '':81'' then Some (ErrVar Canceled) else None" 0 ?cfg "fst ?r" "snd ?r"]
    by (simp add: Let_def split: sum.splits)
qed

end
