(* ===== verification/Store.thy ===== *)
theory Store
  imports Proxy
begin

text \<open>
  The reconciler's bookkeeping, \<^verbatim>\<open>internal/tailswarm/state.go\<close>. The store is a map from
  service IDs to entries behind a read-write lock: every operation is one critical section,
  and entries are copied in and out, so the operations are functions on values. The locale
  \<open>kv_store\<close> is the contract that the reconciler relies on.
\<close>

section \<open>Definitions\<close>

record gatewayRef =
  gr_Target :: string
  gr_ServiceID :: string
  gr_KeyID :: string
  gr_Hash :: string

record entry =
  en_Proxy :: "proxy option"
  en_LastSpecHash :: string
  en_PreAuthKeyID :: string
  en_LastReconcileAt :: int
  en_Gateways :: "gatewayRef list"
  en_GatewayHash :: string

text \<open>\<^verbatim>\<open>Entry{}\<close>; the zero time is \<open>0\<close>.\<close>

definition zeroEntry :: entry where
  "zeroEntry =
     \<lparr>en_Proxy = None, en_LastSpecHash = [], en_PreAuthKeyID = [], en_LastReconcileAt = 0,
      en_Gateways = [], en_GatewayHash = []\<rparr>"

type_synonym store = "(string, entry) gomap"

definition NewStore :: store where
  "NewStore = []"

definition store_Get :: "store \<Rightarrow> string \<Rightarrow> entry \<times> bool" where
  "store_Get s sid = (case map_of s sid of None \<Rightarrow> (zeroEntry, False) | Some e \<Rightarrow> (e, True))"

definition store_Put :: "string \<Rightarrow> entry \<Rightarrow> store \<Rightarrow> store" where
  "store_Put sid e s = gm_put sid e s"

definition store_Delete :: "string \<Rightarrow> store \<Rightarrow> store" where
  "store_Delete sid s = gm_del sid s"

definition store_Snapshot :: "store \<Rightarrow> (string, entry) gomap" where
  "store_Snapshot s = s"

definition store_Keys :: "store \<Rightarrow> string list" where
  "store_Keys s = gm_keys s"

section \<open>The contract\<close>

locale kv_store =
  fixes empty :: 's
    and get :: "'s \<Rightarrow> 'k \<Rightarrow> 'v \<times> bool"
    and put :: "'k \<Rightarrow> 'v \<Rightarrow> 's \<Rightarrow> 's"
    and del :: "'k \<Rightarrow> 's \<Rightarrow> 's"
    and ks :: "'s \<Rightarrow> 'k list"
    and zero :: 'v
    and ok :: "'s \<Rightarrow> bool"
  assumes ok_empty: "ok empty"
    and ok_put: "ok s \<Longrightarrow> ok (put k v s)"
    and ok_del: "ok s \<Longrightarrow> ok (del k s)"
    and get_empty: "get empty k = (zero, False)"
    and get_put: "get (put k v s) k' = (if k' = k then (v, True) else get s k')"
    and get_del: "get (del k s) k' = (if k' = k then (zero, False) else get s k')"
    and get_missing: "\<not> snd (get s k) \<Longrightarrow> get s k = (zero, False)"
    and keys_get: "set (ks s) = {k. snd (get s k)}"
    and keys_once: "ok s \<Longrightarrow> distinct (ks s)"
begin

lemma get_put_same: "get (put k v s) k = (v, True)"
  by (simp add: get_put)

lemma get_put_other: "k' \<noteq> k \<Longrightarrow> get (put k v s) k' = get s k'"
  by (simp add: get_put)

lemma get_del_other: "k' \<noteq> k \<Longrightarrow> get (del k s) k' = get s k'"
  by (simp add: get_del)

lemma put_put_get: "get (put k v (put k w s)) = get (put k v s)"
  by (rule ext) (simp add: get_put)

lemma del_all_empty: "get (fold del (ks s) s) k = (zero, False)"
proof -
  have gone: "snd (get (fold del xs t) k) \<longleftrightarrow> k \<notin> set xs \<and> snd (get t k)" for xs t
    by (induction xs arbitrary: t) (simp_all add: get_del)
  have "\<not> snd (get (fold del (ks s) s) k)"
    by (simp add: gone keys_get)
  then show ?thesis by (rule get_missing)
qed

end

definition store_ok :: "store \<Rightarrow> bool" where
  "store_ok s \<longleftrightarrow> distinct (gm_keys s)"

lemmas store_defs = store_Get_def store_Put_def store_Delete_def store_Keys_def store_Snapshot_def

interpretation st: kv_store NewStore store_Get store_Put store_Delete store_Keys zeroEntry store_ok
proof unfold_locales
  show "set (store_Keys s) = {k. snd (store_Get s k)}" for s
    unfolding store_defs set_gm_keys by (auto split: option.splits)
qed (auto simp: store_defs store_ok_def NewStore_def split: option.splits if_splits)

lemmas store_get_simps [simp] = st.get_put st.get_del

end
