(* ===== verification/Config.thy ===== *)
theory Config
  imports Complex_Main Labels
begin

text \<open>
  The daemon configuration, \<^verbatim>\<open>internal/tailswarm/config.go\<close>: defaults, the YAML overlay, the
  environment overlay and validation. Durations are Go's \<^verbatim>\<open>int64\<close> nanoseconds, words of 64
  bits read as signed numbers.

  Reading files, the YAML decoder (a third-party package) and the text formats of durations,
  floats and URLs are arguments, collected in the record \<open>sysfuns\<close>: each is an arbitrary
  function, so what is proved holds for whatever they accept.
\<close>

section \<open>Definitions\<close>

type_synonym duration = "64 word"

definition second :: duration where
  "second = 1000000000"

definition minute :: duration where
  "minute = 60 * second"

text \<open>A \<^verbatim>\<open>float64\<close>, as far as the sources compare it with zero.\<close>

datatype float64 = Finite rat | PosInf | NegInf | NaN

fun fle0 :: "float64 \<Rightarrow> bool" where
  "fle0 (Finite q) = (q \<le> 0)"
| "fle0 NegInf = True"
| "fle0 PosInf = False"
| "fle0 NaN = False"

text \<open>\<^verbatim>\<open>f != 0\<close>: true for NaN as well.\<close>

fun fne0 :: "float64 \<Rightarrow> bool" where
  "fne0 (Finite q) = (q \<noteq> 0)"
| "fne0 _ = True"

record headscaleConfig =
  hs_URL :: string
  hs_APIKey :: string
  hs_APIKeyFile :: string
  hs_User :: string
  hs_KeyExpiration :: duration

record reconcileConfig =
  rc_FullResyncInterval :: duration
  rc_RateLimitRPS :: float64

text \<open>\<^verbatim>\<open>TsnetConfig\<close> has the single field \<^verbatim>\<open>StateDir\<close>. \<^verbatim>\<open>AllowedTags\<close> may be a nil slice.\<close>

record config =
  cfg_Headscale :: headscaleConfig
  cfg_StateDir :: string
  cfg_Reconcile :: reconcileConfig
  cfg_LabelNamespace :: string
  cfg_AllowedTags :: "string list option"
  cfg_Network :: string

record sysfuns =
  read_file :: "string \<Rightarrow> goerr + string"
  yaml_decode :: "string \<Rightarrow> goerr + config"
  parse_duration :: "string \<Rightarrow> goerr + duration"
  parse_float :: "string \<Rightarrow> goerr + float64"
  url_parse :: "string \<Rightarrow> goerr + (string \<times> string)"

text \<open>The slice behind \<^verbatim>\<open>AllowedTags\<close>; a nil slice ranges like an empty one.\<close>

definition allowedTags :: "config \<Rightarrow> string list" where
  "allowedTags c = (case cfg_AllowedTags c of None \<Rightarrow> [] | Some ts \<Rightarrow> ts)"

definition defaultConfig :: config where
  "defaultConfig =
     \<lparr>cfg_Headscale = \<lparr>hs_URL = [], hs_APIKey = [], hs_APIKeyFile = [], hs_User = [],
                       hs_KeyExpiration = 5 * minute\<rparr>,
      cfg_StateDir = ''/var/lib/tailswarm'',
      cfg_Reconcile = \<lparr>rc_FullResyncInterval = 30 * second, rc_RateLimitRPS = Finite 5\<rparr>,
      cfg_LabelNamespace = defaultNamespace,
      cfg_AllowedTags = None,
      cfg_Network = defaultOverlay\<rparr>"

text \<open>\<^verbatim>\<open>if src.F != "" { dst.F = src.F }\<close>.\<close>

definition overlay :: "string \<Rightarrow> string \<Rightarrow> string" where
  "overlay dst src = (if src \<noteq> [] then src else dst)"

definition mergeConfig :: "config \<Rightarrow> config \<Rightarrow> config" where
  "mergeConfig dst src =
     (let dh = cfg_Headscale dst; sh = cfg_Headscale src;
          dr = cfg_Reconcile dst; sr = cfg_Reconcile src
      in \<lparr>cfg_Headscale =
            dh\<lparr>hs_URL := overlay (hs_URL dh) (hs_URL sh),
               hs_APIKeyFile := overlay (hs_APIKeyFile dh) (hs_APIKeyFile sh),
               hs_User := overlay (hs_User dh) (hs_User sh),
               hs_KeyExpiration := (if hs_KeyExpiration sh \<noteq> 0 then hs_KeyExpiration sh
                                    else hs_KeyExpiration dh)\<rparr>,
          cfg_StateDir = overlay (cfg_StateDir dst) (cfg_StateDir src),
          cfg_Reconcile =
            \<lparr>rc_FullResyncInterval = (if rc_FullResyncInterval sr \<noteq> 0 then rc_FullResyncInterval sr
                                      else rc_FullResyncInterval dr),
             rc_RateLimitRPS = (if fne0 (rc_RateLimitRPS sr) then rc_RateLimitRPS sr
                                else rc_RateLimitRPS dr)\<rparr>,
          cfg_LabelNamespace = overlay (cfg_LabelNamespace dst) (cfg_LabelNamespace src),
          cfg_AllowedTags = (case cfg_AllowedTags src of None \<Rightarrow> cfg_AllowedTags dst | Some ts \<Rightarrow> Some ts),
          cfg_Network = overlay (cfg_Network dst) (cfg_Network src)\<rparr>)"

text \<open>\<^verbatim>\<open>TAILSWARM_ALLOWED_TAGS\<close>: split at commas, trimmed, blanks dropped.\<close>

definition env_tags :: "string \<Rightarrow> string list" where
  "env_tags v = filter (\<lambda>p. p \<noteq> []) (map trim_space (split_on (CHR '','') v))"

text \<open>An overlay whose text must be parsed: unset keeps the value, an error is wrapped with
  the variable's name.\<close>

definition env_parsed ::
  "(string \<Rightarrow> goerr + 'a) \<Rightarrow> (string \<Rightarrow> string) \<Rightarrow> string \<Rightarrow> 'a \<Rightarrow> goerr + 'a" where
  "env_parsed parse env name old =
     (if env name = [] then Inr old
      else (case parse (env name) of Inl e \<Rightarrow> Inl (ErrWrap name e) | Inr v \<Rightarrow> Inr v))"

definition applyEnv :: "sysfuns \<Rightarrow> config \<Rightarrow> (string \<Rightarrow> string) \<Rightarrow> goerr + config" where
  "applyEnv sys c env =
     (let h = cfg_Headscale c; r = cfg_Reconcile c
      in case env_parsed (parse_duration sys) env ''TAILSWARM_HEADSCALE_KEY_EXPIRATION''
                (hs_KeyExpiration h) of
           Inl e \<Rightarrow> Inl e
         | Inr ke \<Rightarrow>
       (case env_parsed (parse_duration sys) env ''TAILSWARM_RECONCILE_FULL_RESYNC_INTERVAL''
               (rc_FullResyncInterval r) of
           Inl e \<Rightarrow> Inl e
         | Inr fr \<Rightarrow>
       (case env_parsed (parse_float sys) env ''TAILSWARM_RECONCILE_RATE_LIMIT_RPS''
               (rc_RateLimitRPS r) of
           Inl e \<Rightarrow> Inl e
         | Inr rps \<Rightarrow>
           Inr \<lparr>cfg_Headscale =
                  \<lparr>hs_URL = overlay (hs_URL h) (env ''TAILSWARM_HEADSCALE_URL''),
                   hs_APIKey = overlay (hs_APIKey h) (env ''TAILSWARM_HEADSCALE_API_KEY''),
                   hs_APIKeyFile = overlay (hs_APIKeyFile h) (env ''TAILSWARM_HEADSCALE_API_KEY_FILE''),
                   hs_User = overlay (hs_User h) (env ''TAILSWARM_HEADSCALE_USER''),
                   hs_KeyExpiration = ke\<rparr>,
                cfg_StateDir = overlay (cfg_StateDir c) (env ''TAILSWARM_TSNET_STATE_DIR''),
                cfg_Reconcile = \<lparr>rc_FullResyncInterval = fr, rc_RateLimitRPS = rps\<rparr>,
                cfg_LabelNamespace = overlay (cfg_LabelNamespace c) (env ''TAILSWARM_LABEL_NAMESPACE''),
                cfg_AllowedTags =
                  (if env ''TAILSWARM_ALLOWED_TAGS'' \<noteq> []
                   then Some (env_tags (env ''TAILSWARM_ALLOWED_TAGS''))
                   else cfg_AllowedTags c),
                cfg_Network = overlay (cfg_Network c) (env ''TAILSWARM_NETWORK'')\<rparr>)))"

text \<open>\<^verbatim>\<open>^[a-z0-9-]+$\<close>.\<close>

definition ns_char :: "char \<Rightarrow> bool" where
  "ns_char c \<longleftrightarrow>
     (let n = of_char c :: nat in (97 \<le> n \<and> n \<le> 122) \<or> (48 \<le> n \<and> n \<le> 57) \<or> n = 45)"

definition labelNamespacePattern :: "string \<Rightarrow> bool" where
  "labelNamespacePattern s \<longleftrightarrow> s \<noteq> [] \<and> list_all ns_char s"

definition validate :: "sysfuns \<Rightarrow> config \<Rightarrow> goerr option" where
  "validate sys c =
     (let h = cfg_Headscale c; r = cfg_Reconcile c
      in if hs_URL h = [] then Some (ErrNew ''tailswarm: headscale.url is required'')
         else if (case url_parse sys (hs_URL h) of
                    Inl _ \<Rightarrow> True
                  | Inr (scheme, host) \<Rightarrow> scheme = [] \<or> host = [])
         then Some (ErrNew ''tailswarm: headscale.url is not a valid absolute URL'')
         else if hs_User h = [] then Some (ErrNew ''tailswarm: headscale.user is required'')
         else if cfg_StateDir c = [] then Some (ErrNew ''tailswarm: tsnet.state_dir is required'')
         else if sint (hs_KeyExpiration h) \<le> 0
         then Some (ErrNew ''tailswarm: headscale.key_expiration must be positive'')
         else if sint (rc_FullResyncInterval r) \<le> 0
         then Some (ErrNew ''tailswarm: reconcile.full_resync_interval must be positive'')
         else if fle0 (rc_RateLimitRPS r)
         then Some (ErrNew ''tailswarm: reconcile.rate_limit_rps must be positive'')
         else if \<not> labelNamespacePattern (cfg_LabelNamespace c)
         then Some (ErrNew ''tailswarm: label_namespace must match'')
         else if cfg_Network c = [] then Some (ErrNew ''tailswarm: network is required'')
         else None)"

text \<open>The first stage of \<^verbatim>\<open>Load\<close>: defaults with the file, if any, merged over them.\<close>

definition load_file :: "sysfuns \<Rightarrow> string \<Rightarrow> goerr + config" where
  "load_file sys path =
     (if path = [] then Inr defaultConfig
      else
        (case read_file sys path of
           Inl e \<Rightarrow> Inl (ErrWrap (''read config '' @ path) e)
         | Inr raw \<Rightarrow>
             (case yaml_decode sys raw of
                Inl e \<Rightarrow> Inl (ErrWrap (''parse config '' @ path) e)
              | Inr fromFile \<Rightarrow> Inr (mergeConfig defaultConfig fromFile))))"

text \<open>The third stage: the API key file, read when no inline key is set.\<close>

definition load_api_key :: "sysfuns \<Rightarrow> config \<Rightarrow> goerr + config" where
  "load_api_key sys c =
     (let h = cfg_Headscale c
      in if hs_APIKey h = [] \<and> hs_APIKeyFile h \<noteq> [] then
           (case read_file sys (hs_APIKeyFile h) of
              Inl e \<Rightarrow> Inl (ErrWrap (''read headscale api_key_file '' @ hs_APIKeyFile h) e)
            | Inr k \<Rightarrow> Inr (c\<lparr>cfg_Headscale := h\<lparr>hs_APIKey := trim_space k\<rparr>\<rparr>))
         else Inr c)"

definition Load :: "sysfuns \<Rightarrow> string \<Rightarrow> (string \<Rightarrow> string) \<Rightarrow> goerr + config" where
  "Load sys path env =
     (case load_file sys path of
        Inl e \<Rightarrow> Inl e
      | Inr c1 \<Rightarrow>
          (case applyEnv sys c1 env of
             Inl e \<Rightarrow> Inl e
           | Inr c2 \<Rightarrow>
               (case load_api_key sys c2 of
                  Inl e \<Rightarrow> Inl e
                | Inr c3 \<Rightarrow>
                    (case validate sys c3 of
                       Some e \<Rightarrow> Inl e
                     | None \<Rightarrow> Inr c3))))"

section \<open>What a loaded configuration guarantees\<close>

text \<open>The conditions the rest of the daemon relies on.\<close>

definition valid_config :: "sysfuns \<Rightarrow> config \<Rightarrow> bool" where
  "valid_config sys c \<longleftrightarrow>
     (\<exists>scheme host. url_parse sys (hs_URL (cfg_Headscale c)) = Inr (scheme, host) \<and>
        scheme \<noteq> [] \<and> host \<noteq> []) \<and>
     hs_URL (cfg_Headscale c) \<noteq> [] \<and> hs_User (cfg_Headscale c) \<noteq> [] \<and> cfg_StateDir c \<noteq> [] \<and>
     0 < sint (hs_KeyExpiration (cfg_Headscale c)) \<and>
     0 < sint (rc_FullResyncInterval (cfg_Reconcile c)) \<and>
     \<not> fle0 (rc_RateLimitRPS (cfg_Reconcile c)) \<and>
     cfg_LabelNamespace c \<noteq> [] \<and> list_all ns_char (cfg_LabelNamespace c) \<and> cfg_Network c \<noteq> []"

lemma validate_None: "validate sys c = None \<longleftrightarrow> valid_config sys c"
  by (auto simp: validate_def Let_def valid_config_def labelNamespacePattern_def not_le
      split: if_splits sum.splits prod.splits)

lemma load_api_key_frame:
  "load_api_key sys c = Inr c' \<Longrightarrow>
     \<exists>k. c' = c\<lparr>cfg_Headscale := (cfg_Headscale c)\<lparr>hs_APIKey := k\<rparr>\<rparr>"
  by (rule exI [of _ "hs_APIKey (cfg_Headscale c')"])
    (auto simp: load_api_key_def Let_def split: if_splits sum.splits)

lemma Load_stages:
  assumes "Load sys path env = Inr c"
  obtains c1 c2 k where "load_file sys path = Inr c1" "applyEnv sys c1 env = Inr c2"
    "c = c2\<lparr>cfg_Headscale := (cfg_Headscale c2)\<lparr>hs_APIKey := k\<rparr>\<rparr>"
    "load_api_key sys c2 = Inr c" "validate sys c = None"
proof -
  from assms obtain c1 c2 where "load_file sys path = Inr c1" "applyEnv sys c1 env = Inr c2"
    "load_api_key sys c2 = Inr c" "validate sys c = None"
    by (auto simp: Load_def split: sum.splits option.splits)
  with load_api_key_frame [of sys c2 c] that show thesis by blast
qed

lemma applyEnv_strings:
  assumes "applyEnv sys c env = Inr c'"
  shows "hs_URL (cfg_Headscale c') = overlay (hs_URL (cfg_Headscale c)) (env ''TAILSWARM_HEADSCALE_URL'')"
    and "hs_User (cfg_Headscale c') = overlay (hs_User (cfg_Headscale c)) (env ''TAILSWARM_HEADSCALE_USER'')"
    and "cfg_StateDir c' = overlay (cfg_StateDir c) (env ''TAILSWARM_TSNET_STATE_DIR'')"
    and "cfg_LabelNamespace c' = overlay (cfg_LabelNamespace c) (env ''TAILSWARM_LABEL_NAMESPACE'')"
    and "cfg_Network c' = overlay (cfg_Network c) (env ''TAILSWARM_NETWORK'')"
    and "env_parsed (parse_duration sys) env ''TAILSWARM_HEADSCALE_KEY_EXPIRATION''
           (hs_KeyExpiration (cfg_Headscale c)) = Inr (hs_KeyExpiration (cfg_Headscale c'))"
  using assms by (auto simp: applyEnv_def Let_def split: sum.splits)

text \<open>The first non-empty text of a list, the empty text if there is none.\<close>

fun first_set :: "string list \<Rightarrow> string" where
  "first_set [] = []"
| "first_set (x # xs) = (if x \<noteq> [] then x else first_set xs)"

text \<open>
  A configuration that loads satisfies every condition of \<^verbatim>\<open>validate\<close>: an absolute
  Headscale URL, a user, a state directory, a network, positive durations, a rate that is
  not at most zero, and a label namespace of lower-case letters, digits and dashes.
\<close>

theorem Load_valid:
  assumes "Load sys path env = Inr c"
  shows "valid_config sys c"
  using assms by (rule Load_stages) (simp add: validate_None)

text \<open>A system whose files and parsers accept a small concrete configuration.\<close>

definition demo_sys :: sysfuns where
  "demo_sys =
     \<lparr>read_file = (\<lambda>_. Inr ''yaml''),
      yaml_decode = (\<lambda>_. Inr (defaultConfig\<lparr>cfg_Headscale :=
        (cfg_Headscale defaultConfig)\<lparr>hs_URL := ''https://file'', hs_User := ''swarm''\<rparr>\<rparr>)),
      parse_duration = (\<lambda>_. Inr minute),
      parse_float = (\<lambda>_. Inr (Finite 2)),
      url_parse = (\<lambda>s. Inr (''https'', drop 8 s))\<rparr>"

definition demo_env :: "string \<Rightarrow> string" where
  "demo_env v = (if v = ''TAILSWARM_HEADSCALE_URL'' then ''https://env'' else [])"

definition demo_config :: config where
  "demo_config =
     defaultConfig\<lparr>cfg_Headscale := (cfg_Headscale defaultConfig)
       \<lparr>hs_URL := ''https://env'', hs_User := ''swarm''\<rparr>\<rparr>"

lemma demo_load: "Load demo_sys ''/etc/tailswarm.yml'' demo_env = Inr demo_config"
  by code_simp

theorem Load_valid_witness: "valid_config demo_sys demo_config"
  using Load_valid [OF demo_load] .

text \<open>
  Every textual setting is taken from the environment if set there, else from the file
  if set there, else from the defaults, and a key expiration that comes from the
  environment is the parsed text.
\<close>

theorem Load_precedence:
  assumes "path \<noteq> []" and "read_file sys path = Inr raw" and "yaml_decode sys raw = Inr f"
    and "Load sys path env = Inr c"
  shows "hs_URL (cfg_Headscale c) =
           first_set [env ''TAILSWARM_HEADSCALE_URL'', hs_URL (cfg_Headscale f)]
       \<and> hs_User (cfg_Headscale c) =
           first_set [env ''TAILSWARM_HEADSCALE_USER'', hs_User (cfg_Headscale f)]
       \<and> cfg_StateDir c =
           first_set [env ''TAILSWARM_TSNET_STATE_DIR'', cfg_StateDir f, ''/var/lib/tailswarm'']
       \<and> cfg_LabelNamespace c =
           first_set [env ''TAILSWARM_LABEL_NAMESPACE'', cfg_LabelNamespace f, defaultNamespace]
       \<and> cfg_Network c = first_set [env ''TAILSWARM_NETWORK'', cfg_Network f, defaultOverlay]
       \<and> (env ''TAILSWARM_HEADSCALE_KEY_EXPIRATION'' \<noteq> [] \<longrightarrow>
            parse_duration sys (env ''TAILSWARM_HEADSCALE_KEY_EXPIRATION'') =
              Inr (hs_KeyExpiration (cfg_Headscale c)))"
  using assms(4)
proof (rule Load_stages)
  fix c1 c2 k
  assume c1: "load_file sys path = Inr c1" and c2: "applyEnv sys c1 env = Inr c2"
    and c: "c = c2\<lparr>cfg_Headscale := (cfg_Headscale c2)\<lparr>hs_APIKey := k\<rparr>\<rparr>"
  have m: "c1 = mergeConfig defaultConfig f" using c1 assms by (simp add: load_file_def)
  note env = applyEnv_strings [OF c2]
  have ke: "env ''TAILSWARM_HEADSCALE_KEY_EXPIRATION'' \<noteq> [] \<longrightarrow>
      parse_duration sys (env ''TAILSWARM_HEADSCALE_KEY_EXPIRATION'') =
        Inr (hs_KeyExpiration (cfg_Headscale c2))"
    using env(6) by (auto simp: env_parsed_def split: sum.splits if_splits)
  have merged: "hs_URL (cfg_Headscale c1) = hs_URL (cfg_Headscale f)"
    "hs_User (cfg_Headscale c1) = hs_User (cfg_Headscale f)"
    "cfg_StateDir c1 = first_set [cfg_StateDir f, ''/var/lib/tailswarm'']"
    "cfg_LabelNamespace c1 = first_set [cfg_LabelNamespace f, defaultNamespace]"
    "cfg_Network c1 = first_set [cfg_Network f, defaultOverlay]"
    by (simp_all add: m mergeConfig_def Let_def overlay_def defaultConfig_def defaultNamespace_def
        defaultOverlay_def)
  show ?thesis
    unfolding c using ke
    by (simp add: env(1-5) merged overlay_def defaultNamespace_def defaultOverlay_def)
qed

theorem Load_precedence_witness:
  "hs_URL (cfg_Headscale demo_config) = ''https://env'' \<and>
   hs_User (cfg_Headscale demo_config) = ''swarm'' \<and> cfg_Network demo_config = defaultOverlay"
  using Load_precedence [OF _ _ _ demo_load, of "''yaml''"
      "defaultConfig\<lparr>cfg_Headscale :=
        (cfg_Headscale defaultConfig)\<lparr>hs_URL := ''https://file'', hs_User := ''swarm''\<rparr>\<rparr>"]
  by (simp add: demo_sys_def demo_env_def defaultConfig_def)

end
