(* ===== verification/Digest.thy ===== *)
theory Digest
  imports Prelude "HOL-Library.Word"
begin

text \<open>
  The digests of the sources, from the standard library: \<^verbatim>\<open>json.Marshal\<close> on the payload
  structs that are hashed, \<^verbatim>\<open>sha256.Sum256\<close>, \<^verbatim>\<open>hex.EncodeToString\<close> and the 32-bit FNV-1a
  hash of \<^verbatim>\<open>hash/fnv\<close>. All of them are executable definitions on bytes, with machine words
  of the width the algorithms use.
\<close>

unbundle bit_operations_syntax

section \<open>Hexadecimal\<close>

type_synonym u8 = "8 word"

definition byte :: "char \<Rightarrow> u8" where
  "byte c = of_char c"

definition hex_digit :: "u8 \<Rightarrow> char" where
  "hex_digit n = ''0123456789abcdef'' ! unat (n AND 15)"

definition hex_byte :: "u8 \<Rightarrow> string" where
  "hex_byte n = [hex_digit (drop_bit 4 n), hex_digit n]"

definition hex_encode :: "u8 list \<Rightarrow> string" where
  "hex_encode bs = concat (map hex_byte bs)"

section \<open>JSON strings\<close>

definition is_cont :: "u8 \<Rightarrow> bool" where
  "is_cont b \<longleftrightarrow> 128 \<le> b \<and> b \<le> 191"

text \<open>
  The size of the UTF-8 encoded rune at the head of a byte string, \<open>0\<close> where
  \<^verbatim>\<open>utf8.DecodeRuneInString\<close> reports \<^verbatim>\<open>RuneError\<close> with size one.
\<close>

definition rune_len :: "u8 list \<Rightarrow> nat" where
  "rune_len bs =
     (case bs of
        b0 # b1 # rest \<Rightarrow>
          if b0 < 128 then 1
          else if 194 \<le> b0 \<and> b0 \<le> 223 then (if is_cont b1 then 2 else 0)
          else
            (case rest of
               b2 # rest' \<Rightarrow>
                 if 224 \<le> b0 \<and> b0 \<le> 239 then
                   (if (if b0 = 224 then 160 \<le> b1 \<and> b1 \<le> 191
                        else if b0 = 237 then 128 \<le> b1 \<and> b1 \<le> 159
                        else is_cont b1) \<and> is_cont b2
                    then 3 else 0)
                 else if 240 \<le> b0 \<and> b0 \<le> 244 then
                   (case rest' of
                      b3 # _ \<Rightarrow>
                        if (if b0 = 240 then 144 \<le> b1 \<and> b1 \<le> 191
                            else if b0 = 244 then 128 \<le> b1 \<and> b1 \<le> 143
                            else is_cont b1) \<and> is_cont b2 \<and> is_cont b3
                        then 4 else 0
                    | [] \<Rightarrow> 0)
                 else 0
             | [] \<Rightarrow> 0)
      | [b0] \<Rightarrow> (if b0 < 128 then 1 else 0)
      | [] \<Rightarrow> 0)"

definition quote_char :: char where
  "quote_char = char_of (34::nat)"

definition backslash :: char where
  "backslash = char_of (92::nat)"

text \<open>
  One ASCII byte, with the HTML escaping that \<^verbatim>\<open>json.Marshal\<close> applies: quote and backslash
  get a backslash, five control bytes a letter, the other control bytes and \<^verbatim>\<open><\<close>, \<^verbatim>\<open>>\<close>,
  \<^verbatim>\<open>&\<close> a \<^verbatim>\<open>\u00xx\<close> escape.
\<close>

definition json_ascii :: "char \<Rightarrow> string" where
  "json_ascii c =
     (let b = byte c
      in if b = 34 \<or> b = 92 then [backslash, c]
         else if b = 8 then [backslash, CHR ''b'']
         else if b = 12 then [backslash, CHR ''f'']
         else if b = 10 then [backslash, CHR ''n'']
         else if b = 13 then [backslash, CHR ''r'']
         else if b = 9 then [backslash, CHR ''t'']
         else if b < 32 \<or> b = 60 \<or> b = 62 \<or> b = 38 then backslash # ''u00'' @ hex_byte b
         else [c])"

text \<open>The string body: runes are copied, bytes that are no rune become U+FFFD, and the line
  separators U+2028 and U+2029 are escaped.\<close>

fun json_body :: "nat \<Rightarrow> string \<Rightarrow> string" where
  "json_body 0 s = []"
| "json_body (Suc fuel) s =
     (case s of
        [] \<Rightarrow> []
      | c # s' \<Rightarrow>
          let n = rune_len (map byte s)
          in if byte c < 128 then json_ascii c @ json_body fuel s'
             else if n = 0 then backslash # ''ufffd'' @ json_body fuel s'
             else if map byte (take n s) = [226, 128, 168]
             then backslash # ''u2028'' @ json_body fuel (drop n s)
             else if map byte (take n s) = [226, 128, 169]
             then backslash # ''u2029'' @ json_body fuel (drop n s)
             else take n s @ json_body fuel (drop n s))"

definition json_string :: "string \<Rightarrow> string" where
  "json_string s = quote_char # json_body (length s) s @ [quote_char]"

text \<open>An array and an object with the fields of a struct in declaration order.\<close>

definition json_array :: "string list \<Rightarrow> string" where
  "json_array vs = CHR ''['' # join_on (CHR '','') vs @ [CHR '']'']"

definition json_object :: "(string \<times> string) list \<Rightarrow> string" where
  "json_object fs =
     CHR ''{'' # join_on (CHR '','') (map (\<lambda>(k, v). json_string k @ CHR '':'' # v) fs) @ [CHR ''}'']"

section \<open>SHA-256\<close>

definition rotr :: "nat \<Rightarrow> 32 word \<Rightarrow> 32 word" where
  "rotr n x = drop_bit n x OR push_bit (32 - n) x"

text \<open>
  The constants of the algorithm are the first 32 fractional bits of the square roots of the
  first eight primes and of the cube roots of the first 64. They are computed as such: the
  integer root is found bit by bit, from the top.
\<close>

fun root_bits :: "nat \<Rightarrow> int \<Rightarrow> nat \<Rightarrow> int \<Rightarrow> int" where
  "root_bits k n 0 acc = acc"
| "root_bits k n (Suc i) acc =
     (let mid = acc + 2 ^ i in root_bits k n i (if mid ^ k \<le> n then mid else acc))"

definition frac_root :: "nat \<Rightarrow> int \<Rightarrow> 32 word" where
  "frac_root k p = of_int (root_bits k (p * 2 ^ (32 * k)) 37 0)"

definition sha_primes :: "int list" where
  "sha_primes =
     [2, 3, 5, 7, 11, 13, 17, 19, 23, 29, 31, 37, 41, 43, 47, 53,
      59, 61, 67, 71, 73, 79, 83, 89, 97, 101, 103, 107, 109, 113, 127, 131,
      137, 139, 149, 151, 157, 163, 167, 173, 179, 181, 191, 193, 197, 199, 211, 223,
      227, 229, 233, 239, 241, 251, 257, 263, 269, 271, 277, 281, 283, 293, 307, 311]"

definition sha_K :: "32 word list" where
  "sha_K = map (frac_root 3) sha_primes"

definition sha_H0 :: "32 word list" where
  "sha_H0 = map (frac_root 2) (take 8 sha_primes)"

definition sha_pad :: "u8 list \<Rightarrow> u8 list" where
  "sha_pad bs =
     (let l = length bs; bits = push_bit 3 (of_nat l :: 64 word)
      in bs @ 128 # replicate ((119 - l mod 64) mod 64) 0
           @ map (\<lambda>i. ucast (drop_bit i bits)) [56, 48, 40, 32, 24, 16, 8, 0])"

fun be_words :: "u8 list \<Rightarrow> 32 word list" where
  "be_words (a # b # c # d # bs) =
     (push_bit 24 (ucast a) OR push_bit 16 (ucast b) OR push_bit 8 (ucast c) OR ucast d)
       # be_words bs"
| "be_words _ = []"

text \<open>The message schedule, newest word first.\<close>

fun sha_schedule :: "nat \<Rightarrow> 32 word list \<Rightarrow> 32 word list" where
  "sha_schedule 0 ws = ws"
| "sha_schedule (Suc n) ws =
     (let w15 = ws ! 14; w2 = ws ! 1;
          s0 = rotr 7 w15 XOR rotr 18 w15 XOR drop_bit 3 w15;
          s1 = rotr 17 w2 XOR rotr 19 w2 XOR drop_bit 10 w2
      in sha_schedule n ((ws ! 15 + s0 + ws ! 6 + s1) # ws))"

fun sha_round :: "32 word list \<Rightarrow> 32 word \<times> 32 word \<Rightarrow> 32 word list" where
  "sha_round [a, b, c, d, e, f, g, h] (k, w) =
     (let s1 = rotr 6 e XOR rotr 11 e XOR rotr 25 e;
          ch = (e AND f) XOR (NOT e AND g);
          t1 = h + s1 + ch + k + w;
          s0 = rotr 2 a XOR rotr 13 a XOR rotr 22 a;
          maj = (a AND b) XOR (a AND c) XOR (b AND c)
      in [t1 + (s0 + maj), a, b, c, d + t1, e, f, g])"
| "sha_round st _ = st"

definition sha_block :: "32 word list \<Rightarrow> 32 word list \<Rightarrow> 32 word list" where
  "sha_block hs ws =
     map2 (+) hs (foldl sha_round hs (zip sha_K (rev (sha_schedule 48 (rev ws)))))"

fun sha_blocks :: "nat \<Rightarrow> 32 word list \<Rightarrow> 32 word list \<Rightarrow> 32 word list" where
  "sha_blocks 0 hs ws = hs"
| "sha_blocks (Suc n) hs ws = sha_blocks n (sha_block hs (take 16 ws)) (drop 16 ws)"

definition be_bytes :: "32 word \<Rightarrow> u8 list" where
  "be_bytes w = map (\<lambda>i. ucast (drop_bit i w)) [24, 16, 8, 0]"

definition sha256 :: "u8 list \<Rightarrow> u8 list" where
  "sha256 bs =
     (let ws = be_words (sha_pad bs)
      in concat (map be_bytes (sha_blocks (length ws div 16) sha_H0 ws)))"

text \<open>\<^verbatim>\<open>hex.EncodeToString\<close> of \<^verbatim>\<open>sha256.Sum256\<close>, as every hash of the sources is formed.\<close>

definition sha256_hex :: "string \<Rightarrow> string" where
  "sha256_hex s = hex_encode (sha256 (map byte s))"

section \<open>FNV-1a\<close>

definition fnv32a :: "string \<Rightarrow> 32 word" where
  "fnv32a s = foldl (\<lambda>h c. (h XOR of_char c) * 16777619) 2166136261 s"

section \<open>Facts\<close>

lemma root_bits_bounds:
  assumes "acc ^ k \<le> n" and "n < (acc + 2 ^ i) ^ k"
  shows "root_bits k n i acc ^ k \<le> n \<and> n < (root_bits k n i acc + 1) ^ k"
  using assms
proof (induction i arbitrary: acc)
  case (Suc i)
  have "acc + 2 ^ Suc i = (acc + 2 ^ i) + 2 ^ i" by simp
  with Suc show ?case by (simp add: Let_def del: power_Suc)
qed simp

lemma sha_H0_eval:
  "sha_H0 = [1779033703, 3144134277, 1013904242, 2773480762, 1359893119, 2600822924, 528734635, 1541459225]"
  by code_simp

lemma fnv32a_eval: "fnv32a ''a'' = 3826002220"
  by code_simp

lemma length_sha_round [simp]: "length (sha_round st kw) = length st"
  by (cases "(st, kw)" rule: sha_round.cases) (auto simp: Let_def)

lemma length_sha_rounds [simp]: "length (foldl sha_round st kws) = length st"
  by (induction kws arbitrary: st) simp_all

lemma length_sha_blocks [simp]: "length (sha_blocks n hs ws) = length hs"
  by (induction n arbitrary: hs ws) (simp_all add: sha_block_def)

lemma length_be_bytes [simp]: "length (be_bytes w) = 4"
  by (simp add: be_bytes_def)

lemma length_concat_const: "\<forall>x \<in> set xs. length (f x) = k \<Longrightarrow> length (concat (map f xs)) = k * length xs"
  by (induction xs) auto

lemma length_sha256 [simp]: "length (sha256 bs) = 32"
  by (simp add: sha256_def Let_def length_concat_const [where k = 4] sha_H0_def sha_primes_def)

lemma length_hex_encode [simp]: "length (hex_encode bs) = 2 * length bs"
  by (simp add: hex_encode_def length_concat_const [where k = 2] hex_byte_def)

text \<open>Every hash of the sources has 64 characters; in particular it is not empty.\<close>

lemma length_sha256_hex [simp]: "length (sha256_hex s) = 64"
  by (simp add: sha256_hex_def)

lemma sha256_hex_not_Nil [simp]: "sha256_hex s \<noteq> []"
  using length_sha256_hex [of s] by (metis list.size(3) zero_neq_numeral)

end
