(* ===== verification/Egress_Gateway.thy ===== *)
theory Egress_Gateway
  imports Config Digest "HOL-Library.List_Lexorder" "HOL-Library.Char_ord"
begin

text \<open>
  The egress control plane's pure part, \<^verbatim>\<open>internal/tailswarm/egress_gateway.go\<close>: the Swarm
  service spec of a gateway, its names, and the three hashes that decide whether a gateway
  is up to date. \<^verbatim>\<open>gatewayTargetAddr\<close> of \<^verbatim>\<open>reconciler.go\<close>, which reads a spec back, stands
  here too. Strings are ordered bytewise, as \<^verbatim>\<open>sort.Strings\<close> orders them.
\<close>

section \<open>Definitions\<close>

definition envGatewayHostname :: string where
  "envGatewayHostname = ''TAILSWARM_GATEWAY_HOSTNAME''"

definition envGatewayTag :: string where
  "envGatewayTag = ''TAILSWARM_GATEWAY_TAG''"

definition envGatewayTargets :: string where
  "envGatewayTargets = ''TAILSWARM_GATEWAY_TARGETS''"

definition envGatewayAuthKey :: string where
  "envGatewayAuthKey = ''TAILSWARM_GATEWAY_AUTH_KEY''"

definition envHeadscaleURL :: string where
  "envHeadscaleURL = ''TAILSWARM_HEADSCALE_URL''"

definition envStateDir :: string where
  "envStateDir = ''TAILSWARM_TSNET_STATE_DIR''"

definition maxTailnetHostname :: nat where
  "maxTailnetHostname = 63"

definition gatewayHostname :: "egressSpec \<Rightarrow> egressTarget \<Rightarrow> string" where
  "gatewayHostname eg t =
     (let name = eg_Hostname eg @ ''-'' @ et_Host t
      in if length name \<le> maxTailnetHostname then name
         else (let suffix = ''-'' @ take 8 (sha256_hex (addr t));
                   keep = maxTailnetHostname - length suffix
               in take keep name @ suffix))"

definition gatewayServiceName :: "string \<Rightarrow> string" where
  "gatewayServiceName hostname = ''tsgw-'' @ hostname"

definition gatewaySpec ::
  "egressSpec \<Rightarrow> egressTarget \<Rightarrow> string \<Rightarrow> config \<Rightarrow> string \<Rightarrow> string \<Rightarrow> serviceSpec" where
  "gatewaySpec eg t appServiceID cfg img authKey =
     (let hostname = gatewayHostname eg t;
          env0 = [envHeadscaleURL @ ''='' @ hs_URL (cfg_Headscale cfg),
                  envStateDir @ ''='' @ cfg_StateDir cfg,
                  envGatewayHostname @ ''='' @ hostname,
                  envGatewayTag @ ''='' @ eg_Tag eg,
                  envGatewayTargets @ ''='' @ addr t];
          env = (if authKey \<noteq> [] then env0 @ [envGatewayAuthKey @ ''='' @ authKey] else env0)
      in \<lparr>ss_Name = gatewayServiceName hostname,
          ss_Labels = [(gatewayForLabel, appServiceID)],
          ss_ContainerSpec = Some \<lparr>cs_Image = img, cs_Command = [''/tailswarm''],
                                   cs_Args = [''gateway''], cs_Env = env\<rparr>,
          ss_TaskNetworks = [\<lparr>na_Target = eg_Network eg, na_Aliases = [et_Host t]\<rparr>],
          ss_Networks = [],
          ss_EndpointPorts = None\<rparr>)"

definition encodeTargets :: "egressTarget list \<Rightarrow> string" where
  "encodeTargets targets = join_on (CHR '','') (map addr targets)"

definition gatewayHash :: "egressSpec \<Rightarrow> string \<Rightarrow> string" where
  "gatewayHash eg img =
     sha256_hex (json_object
       [(''Hostname'', json_string (eg_Hostname eg)),
        (''Tag'', json_string (eg_Tag eg)),
        (''Network'', json_string (eg_Network eg)),
        (''Targets'', json_array (map json_string (sort (map addr (eg_Targets eg))))),
        (''Image'', json_string img)])"

text \<open>The anonymous payload struct that \<^verbatim>\<open>targetGatewayHash\<close> and \<^verbatim>\<open>liveGatewayHash\<close> share.\<close>

definition gateway_payload :: "string \<Rightarrow> string \<Rightarrow> string \<Rightarrow> string \<Rightarrow> string \<Rightarrow> string" where
  "gateway_payload hostname tag network tgt img =
     json_object
       [(''Hostname'', json_string hostname), (''Tag'', json_string tag),
        (''Network'', json_string network), (''Target'', json_string tgt),
        (''Image'', json_string img)]"

definition targetGatewayHash :: "egressSpec \<Rightarrow> egressTarget \<Rightarrow> string \<Rightarrow> string" where
  "targetGatewayHash eg t img =
     sha256_hex (gateway_payload (gatewayHostname eg t) (eg_Tag eg) (eg_Network eg) (addr t) img)"

text \<open>\<^verbatim>\<open>env := map[string]string{}\<close> filled from \<^verbatim>\<open>K=V\<close> entries; a later entry wins.\<close>

definition env_map :: "string list \<Rightarrow> (string, string) gomap" where
  "env_map es =
     foldl (\<lambda>m e. case cut_at (CHR ''='') e of (k, v, ok) \<Rightarrow> if ok then gm_put k v m else m) [] es"

definition liveGatewayHash :: "service \<Rightarrow> string" where
  "liveGatewayHash gw =
     (case ss_ContainerSpec (svc_Spec gw) of
        None \<Rightarrow> []
      | Some cs \<Rightarrow>
          (let env = env_map (cs_Env cs);
               network = (case ss_TaskNetworks (svc_Spec gw) of [] \<Rightarrow> [] | n # _ \<Rightarrow> na_Target n)
           in sha256_hex (gateway_payload (get_str env envGatewayHostname) (get_str env envGatewayTag)
                network (get_str env envGatewayTargets) (cs_Image cs))))"

definition gatewayTargetAddr :: "service \<Rightarrow> string" where
  "gatewayTargetAddr gw =
     (case ss_ContainerSpec (svc_Spec gw) of
        None \<Rightarrow> []
      | Some cs \<Rightarrow>
          (let pre = envGatewayTargets @ ''=''
           in case List.find (\<lambda>e. has_prefix e pre) (cs_Env cs) of
                None \<Rightarrow> []
              | Some e \<Rightarrow> trim_prefix e pre))"

lemmas env_names =
  envGatewayHostname_def envGatewayTag_def envGatewayTargets_def envGatewayAuthKey_def
  envHeadscaleURL_def envStateDir_def

section \<open>Reading a spec back\<close>

text \<open>A service that runs a gateway spec, as Docker reports it.\<close>

lemma env_map_gatewaySpec:
  assumes "ss_ContainerSpec (gatewaySpec eg t app cfg img key) = Some cs"
  shows "get_str (env_map (cs_Env cs)) envGatewayHostname = gatewayHostname eg t"
    and "get_str (env_map (cs_Env cs)) envGatewayTag = eg_Tag eg"
    and "get_str (env_map (cs_Env cs)) envGatewayTargets = addr t"
  using assms
  by (auto simp: gatewaySpec_def Let_def env_map_def env_names get_str_def)

lemma liveGatewayHash_spec:
  "svc_Spec gw = gatewaySpec eg t app cfg img key \<Longrightarrow> liveGatewayHash gw = targetGatewayHash eg t img"
proof -
  assume gw: "svc_Spec gw = gatewaySpec eg t app cfg img key"
  obtain cs where cs: "ss_ContainerSpec (gatewaySpec eg t app cfg img key) = Some cs"
    "cs_Image cs = img"
    by (simp add: gatewaySpec_def Let_def)
  then show ?thesis
    using env_map_gatewaySpec [OF cs(1)]
    by (simp add: liveGatewayHash_def gw targetGatewayHash_def Let_def)
      (simp add: gatewaySpec_def Let_def)
qed

lemma gatewayTargetAddr_spec:
  "svc_Spec gw = gatewaySpec eg t app cfg img key \<Longrightarrow> gatewayTargetAddr gw = addr t"
  by (simp add: gatewayTargetAddr_def gatewaySpec_def Let_def env_names trim_prefix_def)

lemma entries_of_addrs:
  "\<forall>t \<in> set ts. wf_target t \<Longrightarrow> entries_of (map addr ts) = map addr ts"
  by (induction ts) (auto simp: entries_of_def trim_space_addr)

lemma parse_encodeTargets:
  assumes wf: "\<forall>t \<in> set ts. wf_target t" and "distinct ts"
  shows "parseEgressTargets (encodeTargets ts) = Inr ts"
proof (cases "ts = []")
  case True
  then show ?thesis by (simp add: encodeTargets_def parseEgressTargets_def trim_space_trimmed
        trimmed_def has_prefix_iff has_suffix_iff space_seqs_ne)
next
  case False
  have "split_on (CHR '','') (encodeTargets ts) = map addr ts"
    unfolding encodeTargets_def using False wf by (intro split_join) (auto dest: comma_addr)
  moreover have "distinct (map addr ts)"
    using assms addr_inj by (auto simp: distinct_map inj_on_def)
  ultimately have "parseEgressTargets (encodeTargets ts) =
      (case List.find (\<lambda>e. target_of_entry e = None) (map addr ts) of
         Some e \<Rightarrow> Inl (ErrQuote (ErrVar BadEgressTarget) e)
       | None \<Rightarrow> Inr (map (\<lambda>e. the (target_of_entry e)) (map addr ts)))"
    using wf by (simp add: parseEgressTargets_eq entries_of_addrs dedup_first_id Let_def cong: option.case_cong)
  moreover have "List.find (\<lambda>e. target_of_entry e = None) (map addr ts) = None"
    using wf by (auto simp: find_None_iff target_of_entry_addr)
  moreover have "map (\<lambda>e. the (target_of_entry e)) (map addr ts) = ts"
    using wf by (auto simp: target_of_entry_addr intro: map_idI)
  ultimately show ?thesis by simp
qed

lemma parse_addr: "wf_target t \<Longrightarrow> parseEgressTargets (addr t) = Inr [t]"
  using parse_encodeTargets [of "[t]"] by (simp add: encodeTargets_def)

section \<open>Names\<close>

lemma gatewayHostname_length: "length (gatewayHostname eg t) \<le> maxTailnetHostname"
  by (auto simp: gatewayHostname_def Let_def maxTailnetHostname_def)

text \<open>The name is used as it is when it is short enough.\<close>

definition short_name :: "egressSpec \<Rightarrow> egressTarget \<Rightarrow> bool" where
  "short_name eg t \<longleftrightarrow> length (eg_Hostname eg) + length (et_Host t) < maxTailnetHostname"

lemma gatewayHostname_short:
  "short_name eg t \<Longrightarrow> gatewayHostname eg t = eg_Hostname eg @ ''-'' @ et_Host t"
  by (simp add: gatewayHostname_def short_name_def maxTailnetHostname_def Let_def)

lemma gatewayServiceName_inj [simp]: "gatewayServiceName a = gatewayServiceName b \<longleftrightarrow> a = b"
  by (simp add: gatewayServiceName_def)

section \<open>A gateway is not an app\<close>

text \<open>No label key of any namespace is the gateway marker.\<close>

lemma key_of_not_marker:
  assumes "suffix = ''enable'' \<or> suffix = ''egress.enable''"
  shows "key_of l suffix \<noteq> gatewayForLabel"
proof
  assume "key_of l suffix = gatewayForLabel"
  then have "last (key_of l suffix) = last gatewayForLabel" by simp
  then show False using assms by (auto simp: key_of_def gatewayForLabel_def)
qed

lemma isTrue_Nil [simp]: "\<not> isTrue []"
  by code_simp

lemma Parse_gateway:
  "ss_Labels (svc_Spec gw) = [(gatewayForLabel, app)] \<Longrightarrow> Parse l gw networks = (zeroTarget, False, None)"
  by (simp add: Parse_def Let_def get_str_def key_of_not_marker)

section \<open>Properties\<close>

text \<open>
  What the control plane writes into a gateway's spec, it reads back: for a running
  service with the spec of a target's gateway, the drift hash rebuilt from the live spec is
  the desired one, and the target address recovered from its environment is the target's.
  An adopted gateway that nobody touched is thus neither updated nor recreated.
\<close>

theorem gateway_spec_roundtrip:
  assumes "svc_Spec gw = gatewaySpec eg t app cfg img key"
  shows "liveGatewayHash gw = targetGatewayHash eg t img \<and> gatewayTargetAddr gw = addr t"
  using assms by (simp add: liveGatewayHash_spec gatewayTargetAddr_spec)

definition demo_eg :: egressSpec where
  "demo_eg = \<lparr>eg_Hostname = ''admin-pma-egress'', eg_Tag = ''tag:swarm-pma'',
     eg_Network = ''tailswarm-overlay'',
     eg_Targets = [\<lparr>et_Host = ''db-mysql'', et_Port = 3306\<rparr>, \<lparr>et_Host = ''db-mysql'', et_Port = 33060\<rparr>]\<rparr>"

definition demo_target :: egressTarget where
  "demo_target = \<lparr>et_Host = ''db-mysql'', et_Port = 3306\<rparr>"

theorem gateway_spec_roundtrip_witness:
  "gatewayTargetAddr \<lparr>svc_ID = ''gw-1'', svc_Version = 7,
     svc_Spec = gatewaySpec demo_eg demo_target ''app'' demo_config ''img'' ''secret''\<rparr> = ''db-mysql:3306''"
proof -
  have "addr demo_target = ''db-mysql:3306''" by (simp add: addr_def demo_target_def dec.simps)
  then show ?thesis
    using gateway_spec_roundtrip [of "\<lparr>svc_ID = ''gw-1'', svc_Version = 7,
        svc_Spec = gatewaySpec demo_eg demo_target ''app'' demo_config ''img'' ''secret''\<rparr>"]
    by simp
qed

text \<open>
  Rendering a list of distinct well-formed targets and parsing the text again gives the
  list back, so the gateway entrypoint reads exactly the targets it was configured with.
\<close>

theorem encodeTargets_roundtrip:
  assumes "\<forall>t \<in> set ts. wf_target t" and "distinct ts"
  shows "parseEgressTargets (encodeTargets ts) = Inr ts"
  using assms by (rule parse_encodeTargets)

theorem encodeTargets_roundtrip_witness:
  "parseEgressTargets (encodeTargets (eg_Targets demo_eg)) = Inr (eg_Targets demo_eg)"
proof (rule encodeTargets_roundtrip)
  have "trimmed ''db-mysql''" by code_simp
  then show "\<forall>t \<in> set (eg_Targets demo_eg). wf_target t" by (simp add: demo_eg_def wf_target_def)
  show "distinct (eg_Targets demo_eg)" by (simp add: demo_eg_def)
qed

text \<open>
  A gateway's host name never exceeds the 63 bytes of a tailnet host name, and below
  the cap targets with different hosts get different host and service names.
\<close>

theorem gatewayHostname_bounded_distinct:
  "length (gatewayHostname eg t) \<le> 63 \<and>
   (short_name eg t \<and> short_name eg t' \<and> et_Host t \<noteq> et_Host t' \<longrightarrow>
      gatewayServiceName (gatewayHostname eg t) \<noteq> gatewayServiceName (gatewayHostname eg t'))"
  using gatewayHostname_length [of eg t] by (auto simp: gatewayHostname_short maxTailnetHostname_def)

theorem gatewayHostname_bounded_distinct_witness:
  "gatewayServiceName (gatewayHostname demo_eg demo_target) \<noteq>
     gatewayServiceName (gatewayHostname demo_eg \<lparr>et_Host = ''db-pg'', et_Port = 5432\<rparr>)"
  using gatewayHostname_bounded_distinct
    [of demo_eg demo_target "\<lparr>et_Host = ''db-pg'', et_Port = 5432\<rparr>"]
  by (simp add: short_name_def demo_eg_def demo_target_def maxTailnetHostname_def)

text \<open>
  Below the cap the port does not enter the name, so two targets on the same host with
  different ports ask for gateways of the same service name, although every target is meant
  to have a gateway of its own.
\<close>

theorem same_host_targets_collide:
  assumes "short_name eg t" and "et_Host t = et_Host t'"
  shows "ss_Name (gatewaySpec eg t app cfg img key) = ss_Name (gatewaySpec eg t' app' cfg' img' key')"
proof -
  have "short_name eg t'" using assms by (simp add: short_name_def)
  with assms show ?thesis by (simp add: gatewaySpec_def Let_def gatewayHostname_short)
qed

theorem same_host_targets_collide_witness:
  "\<exists>t t'. t \<in> set (eg_Targets demo_eg) \<and> t' \<in> set (eg_Targets demo_eg) \<and> addr t \<noteq> addr t' \<and>
     ss_Name (gatewaySpec demo_eg t ''app'' demo_config ''img'' ''k1'') =
       ss_Name (gatewaySpec demo_eg t' ''app'' demo_config ''img'' ''k2'')"
proof (intro exI conjI)
  let ?t = "\<lparr>et_Host = ''db-mysql'', et_Port = 3306\<rparr>" and ?t' = "\<lparr>et_Host = ''db-mysql'', et_Port = 33060\<rparr>"
  show "?t \<in> set (eg_Targets demo_eg)" "?t' \<in> set (eg_Targets demo_eg)" by (simp_all add: demo_eg_def)
  show "addr ?t \<noteq> addr ?t'" by (simp add: addr_def dec.simps)
  show "ss_Name (gatewaySpec demo_eg ?t ''app'' demo_config ''img'' ''k1'') =
       ss_Name (gatewaySpec demo_eg ?t' ''app'' demo_config ''img'' ''k2'')"
    by (rule same_host_targets_collide) (simp_all add: short_name_def demo_eg_def maxTailnetHostname_def)
qed

text \<open>
  A gateway carries the marker label only, so under every label namespace the parser
  reports it as not opted in, and neither the resync nor a stray event turns a gateway into
  an app.
\<close>

theorem gateway_never_opted_in:
  assumes "svc_Spec gw = gatewaySpec eg t app cfg img key"
  shows "Parse l gw networks = (zeroTarget, False, None)"
  using assms by (intro Parse_gateway) (simp add: gatewaySpec_def Let_def)

theorem gateway_never_opted_in_witness:
  "Parse \<lparr>l_Namespace = ''tailswarm'', l_AllowedTags = [], l_DefaultNetwork = []\<rparr>
     \<lparr>svc_ID = ''gw-1'', svc_Version = 7,
      svc_Spec = gatewaySpec demo_eg demo_target ''app'' demo_config ''img'' ''secret''\<rparr> []
   = (zeroTarget, False, None)"
  by (rule gateway_never_opted_in) simp

text \<open>
  The whole-set hash of an egress spec does not depend on the order in which the
  targets are listed.
\<close>

theorem gatewayHash_order_insensitive:
  assumes "mset (eg_Targets eg) = mset (eg_Targets eg')"
    and "eg_Hostname eg = eg_Hostname eg'" and "eg_Tag eg = eg_Tag eg'" and "eg_Network eg = eg_Network eg'"
  shows "gatewayHash eg img = gatewayHash eg' img"
proof -
  have "mset (map addr (eg_Targets eg)) = mset (map addr (eg_Targets eg'))"
    using assms(1) by simp
  then have "sort (map addr (eg_Targets eg)) = sort (map addr (eg_Targets eg'))"
    by (metis properties_for_sort mset_sort sorted_sort)
  with assms show ?thesis by (simp add: gatewayHash_def)
qed

theorem gatewayHash_order_insensitive_witness:
  "gatewayHash demo_eg ''img'' = gatewayHash (demo_eg\<lparr>eg_Targets := rev (eg_Targets demo_eg)\<rparr>) ''img''"
  by (rule gatewayHash_order_insensitive) simp_all

end
