(* ===== verification/World.thy ===== *)
theory World
  imports Store Egress_Gateway "HOL-Library.State_Monad"
begin

text \<open>
  What the reconciler acts upon: the \<^verbatim>\<open>DockerClient\<close> interface of \<^verbatim>\<open>reconciler.go\<close>, the
  \<^verbatim>\<open>Controller\<close> interface of \<^verbatim>\<open>controller.go\<close>, the rate limiter, the clock and the proxy
  factory. Everything behind them is outside this process and may fail or change at any
  time, so the environment is an arbitrary function from the calls made so far to the next
  answer (record \<open>env\<close>), and every call is recorded with its answer in a trace. A statement
  for all environments covers every interleaving of other actors on Docker and Headscale.

  Operations are actions of the state monad over the store and the trace. Go leaves the
  iteration order of maps open; \<open>env_range\<close> ranks the keys, and a loop visits them by rank.
\<close>

section \<open>Definitions\<close>

record labelFilter =
  lf_Key :: string
  lf_Value :: string
  lf_Name :: string

record keyRequest =
  kr_User :: string
  kr_Tags :: "string list"
  kr_Ephemeral :: bool
  kr_Reusable :: bool
  kr_Expiration :: duration

record key =
  key_ID :: string
  key_Secret :: string
  key_ExpiresAt :: int

datatype event =
    EvInspect string "goerr + service"
  | EvList labelFilter "goerr + service list"
  | EvNetworks "goerr + network list"
  | EvCreate serviceSpec "goerr + string"
  | EvUpdate string u64 serviceSpec "goerr option"
  | EvRemove string "goerr option"
  | EvMint keyRequest "goerr + key"
  | EvExpire string "goerr option"
  | EvWait "goerr option"
  | EvStart proxyConfig "goerr + proxy"
  | EvClose proxy "goerr option"

type_synonym trace = "event list"

record env =
  env_inspect :: "trace \<Rightarrow> string \<Rightarrow> goerr + service"
  env_list :: "trace \<Rightarrow> labelFilter \<Rightarrow> goerr + service list"
  env_networks :: "trace \<Rightarrow> goerr + network list"
  env_create :: "trace \<Rightarrow> serviceSpec \<Rightarrow> goerr + string"
  env_update :: "trace \<Rightarrow> string \<Rightarrow> u64 \<Rightarrow> serviceSpec \<Rightarrow> goerr option"
  env_remove :: "trace \<Rightarrow> string \<Rightarrow> goerr option"
  env_mint :: "trace \<Rightarrow> keyRequest \<Rightarrow> goerr + key"
  env_expire :: "trace \<Rightarrow> string \<Rightarrow> goerr option"
  env_wait :: "trace \<Rightarrow> goerr option"
  env_start :: "trace \<Rightarrow> proxyConfig \<Rightarrow> goerr + proxy"
  env_close :: "trace \<Rightarrow> proxy \<Rightarrow> goerr option"
  env_now :: "trace \<Rightarrow> int"
  env_range :: "trace \<Rightarrow> string \<Rightarrow> nat"

record rstate =
  rs_store :: store
  rs_trace :: trace

type_synonym 'a act = "(rstate, 'a) state"

abbreviation ret :: "'a \<Rightarrow> 'a act" where
  "ret \<equiv> State_Monad.return"

text \<open>One call: ask the environment, record question and answer.\<close>

definition call :: "(trace \<Rightarrow> 'a) \<Rightarrow> ('a \<Rightarrow> event) \<Rightarrow> 'a act" where
  "call ask ev =
     State (\<lambda>s. let r = ask (rs_trace s) in (r, s\<lparr>rs_trace := rs_trace s @ [ev r]\<rparr>))"

definition InspectService :: "env \<Rightarrow> string \<Rightarrow> (goerr + service) act" where
  "InspectService e sid = call (\<lambda>tr. env_inspect e tr sid) (EvInspect sid)"

definition ListServices :: "env \<Rightarrow> labelFilter \<Rightarrow> (goerr + service list) act" where
  "ListServices e f = call (\<lambda>tr. env_list e tr f) (EvList f)"

definition ListNetworks :: "env \<Rightarrow> (goerr + network list) act" where
  "ListNetworks e = call (env_networks e) EvNetworks"

definition CreateService :: "env \<Rightarrow> serviceSpec \<Rightarrow> (goerr + string) act" where
  "CreateService e spec = call (\<lambda>tr. env_create e tr spec) (EvCreate spec)"

definition UpdateService :: "env \<Rightarrow> string \<Rightarrow> u64 \<Rightarrow> serviceSpec \<Rightarrow> goerr option act" where
  "UpdateService e sid v spec = call (\<lambda>tr. env_update e tr sid v spec) (EvUpdate sid v spec)"

definition RemoveService :: "env \<Rightarrow> string \<Rightarrow> goerr option act" where
  "RemoveService e sid = call (\<lambda>tr. env_remove e tr sid) (EvRemove sid)"

definition CreateEphemeralKey :: "env \<Rightarrow> keyRequest \<Rightarrow> (goerr + key) act" where
  "CreateEphemeralKey e req = call (\<lambda>tr. env_mint e tr req) (EvMint req)"

definition ExpireKey :: "env \<Rightarrow> string \<Rightarrow> goerr option act" where
  "ExpireKey e k = call (\<lambda>tr. env_expire e tr k) (EvExpire k)"

definition LimiterWait :: "env \<Rightarrow> goerr option act" where
  "LimiterWait e = call (env_wait e) EvWait"

definition NewProxy :: "env \<Rightarrow> proxyConfig \<Rightarrow> (goerr + proxy) act" where
  "NewProxy e c = call (\<lambda>tr. env_start e tr c) (EvStart c)"

definition ProxyClose :: "env \<Rightarrow> proxy \<Rightarrow> goerr option act" where
  "ProxyClose e p = call (\<lambda>tr. env_close e tr p) (EvClose p)"

definition Now :: "env \<Rightarrow> int act" where
  "Now e = State (\<lambda>s. (env_now e (rs_trace s), s))"

definition StoreGet :: "string \<Rightarrow> (entry \<times> bool) act" where
  "StoreGet sid = State (\<lambda>s. (store_Get (rs_store s) sid, s))"

definition StorePut :: "string \<Rightarrow> entry \<Rightarrow> unit act" where
  "StorePut sid en = State (\<lambda>s. ((), s\<lparr>rs_store := store_Put sid en (rs_store s)\<rparr>))"

definition StoreDelete :: "string \<Rightarrow> unit act" where
  "StoreDelete sid = State (\<lambda>s. ((), s\<lparr>rs_store := store_Delete sid (rs_store s)\<rparr>))"

definition StoreSnapshot :: "store act" where
  "StoreSnapshot = State (\<lambda>s. (store_Snapshot (rs_store s), s))"

text \<open>The order in which a \<^verbatim>\<open>range\<close> over a map visits its keys.\<close>

definition RangeKeys :: "env \<Rightarrow> (string, 'v) gomap \<Rightarrow> string list act" where
  "RangeKeys e m = State (\<lambda>s. (sort_key (env_range e (rs_trace s)) (gm_keys m), s))"

section \<open>Running actions\<close>

named_theorems runs \<open>evaluation of the primitive actions\<close>

lemma run_call: "run_state (call ask ev) s =
    (ask (rs_trace s), s\<lparr>rs_trace := rs_trace s @ [ev (ask (rs_trace s))]\<rparr>)"
  by (simp add: call_def Let_def)

lemmas run_calls [runs] =
  InspectService_def ListServices_def ListNetworks_def CreateService_def UpdateService_def
  RemoveService_def CreateEphemeralKey_def ExpireKey_def LimiterWait_def NewProxy_def ProxyClose_def
  run_call

lemma run_Now [runs]: "run_state (Now e) s = (env_now e (rs_trace s), s)"
  by (simp add: Now_def)

lemma run_StoreGet [runs]: "run_state (StoreGet sid) s = (store_Get (rs_store s) sid, s)"
  by (simp add: StoreGet_def)

lemma run_StorePut [runs]:
  "run_state (StorePut sid en) s = ((), s\<lparr>rs_store := store_Put sid en (rs_store s)\<rparr>)"
  by (simp add: StorePut_def)

lemma run_StoreDelete [runs]:
  "run_state (StoreDelete sid) s = ((), s\<lparr>rs_store := store_Delete sid (rs_store s)\<rparr>)"
  by (simp add: StoreDelete_def)

lemma run_StoreSnapshot [runs]: "run_state StoreSnapshot s = (rs_store s, s)"
  by (simp add: StoreSnapshot_def store_Snapshot_def)

lemma run_RangeKeys [runs]:
  "run_state (RangeKeys e m) s = (sort_key (env_range e (rs_trace s)) (gm_keys m), s)"
  by (simp add: RangeKeys_def)

text \<open>A visit order is a permutation of the keys.\<close>

lemma mset_range: "mset (sort_key f (gm_keys m)) = mset (gm_keys m)"
  by simp

section \<open>Relational contracts\<close>

text \<open>
  A relation between the states before and after, kept by every action built from actions
  that keep it. The contracts of the reconciler and of the Headscale client are instances.
\<close>

locale state_rel =
  fixes R :: "'s \<Rightarrow> 's \<Rightarrow> bool"
  assumes rel_refl: "R s s"
    and rel_trans: "R s t \<Longrightarrow> R t u \<Longrightarrow> R s u"
begin

definition keeps :: "('s, 'a) state \<Rightarrow> bool" where
  "keeps m \<longleftrightarrow> (\<forall>s. R s (snd (run_state m s)))"

lemma keepsD: "keeps m \<Longrightarrow> run_state m s = (x, t) \<Longrightarrow> R s t"
  by (metis keeps_def snd_conv)

lemma keeps_ret: "keeps (State_Monad.return x)"
  by (simp add: keeps_def rel_refl)

lemma keeps_bind: "keeps m \<Longrightarrow> (\<And>x. keeps (f x)) \<Longrightarrow> keeps (State_Monad.bind m f)"
  unfolding keeps_def by (auto split: prod.splits) (metis rel_trans snd_conv)

lemma keeps_if: "(b \<Longrightarrow> keeps m) \<Longrightarrow> (\<not> b \<Longrightarrow> keeps n) \<Longrightarrow> keeps (if b then m else n)"
  by simp

lemma keeps_option:
  "(x = None \<Longrightarrow> keeps m) \<Longrightarrow> (\<And>y. x = Some y \<Longrightarrow> keeps (f y)) \<Longrightarrow> keeps (case x of None \<Rightarrow> m | Some y \<Rightarrow> f y)"
  by (cases x) auto

lemma keeps_sum:
  "(\<And>y. x = Inl y \<Longrightarrow> keeps (f y)) \<Longrightarrow> (\<And>y. x = Inr y \<Longrightarrow> keeps (g y)) \<Longrightarrow>
     keeps (case x of Inl y \<Rightarrow> f y | Inr y \<Rightarrow> g y)"
  by (cases x) auto

lemma keeps_prod: "(\<And>a b. x = (a, b) \<Longrightarrow> keeps (f a b)) \<Longrightarrow> keeps (case x of (a, b) \<Rightarrow> f a b)"
  by (cases x) auto

lemma keeps_list:
  "(xs = [] \<Longrightarrow> keeps m) \<Longrightarrow> (\<And>y ys. xs = y # ys \<Longrightarrow> keeps (f y ys)) \<Longrightarrow>
     keeps (case xs of [] \<Rightarrow> m | y # ys \<Rightarrow> f y ys)"
  by (cases xs) auto

lemmas keeps_structure = keeps_ret keeps_bind keeps_if keeps_option keeps_sum keeps_prod keeps_list

end

text \<open>On the reconciler's state, the actions that only read keep every such relation.\<close>

locale act_rel = state_rel R for R :: "rstate \<Rightarrow> rstate \<Rightarrow> bool"
begin

lemma keeps_Now: "keeps (Now e)"
  by (simp add: keeps_def runs rel_refl)

lemma keeps_StoreGet: "keeps (StoreGet sid)"
  by (simp add: keeps_def runs rel_refl)

lemma keeps_RangeKeys: "keeps (RangeKeys e m)"
  by (simp add: keeps_def runs rel_refl)

lemmas keeps_intros = keeps_structure keeps_Now keeps_StoreGet keeps_RangeKeys

end

text \<open>
  The usual shape of such a relation: the trace grows by events that satisfy \<open>Q\<close>, and the
  entries of services other than \<open>sid\<close> stay as they are.
\<close>

definition grows :: "(event \<Rightarrow> bool) \<Rightarrow> string \<Rightarrow> rstate \<Rightarrow> rstate \<Rightarrow> bool" where
  "grows Q sid s t \<longleftrightarrow>
     (\<exists>es. rs_trace t = rs_trace s @ es \<and> list_all Q es) \<and>
     (\<forall>sid'. sid' \<noteq> sid \<longrightarrow> store_Get (rs_store t) sid' = store_Get (rs_store s) sid')"

lemma grows_refl: "grows Q sid s s"
  by (simp add: grows_def)

lemma grows_trans: "grows Q sid s t \<Longrightarrow> grows Q sid t u \<Longrightarrow> grows Q sid s u"
  by (auto simp: grows_def)

interpretation gr: act_rel "grows Q sid" for Q sid
  by unfold_locales (auto intro: grows_refl grows_trans)

section \<open>A concrete environment\<close>

text \<open>Every call succeeds; there is no service, and every key and proxy is the same one. The
  witnesses build their environments from it.\<close>

definition calm_key :: key where
  "calm_key = \<lparr>key_ID = ''key-1'', key_Secret = ''secret'', key_ExpiresAt = 0\<rparr>"

definition calm_env :: env where
  "calm_env =
     \<lparr>env_inspect = (\<lambda>_ _. Inl (ErrVar ServiceNotFound)), env_list = (\<lambda>_ _. Inr []),
      env_networks = (\<lambda>_. Inr []), env_create = (\<lambda>_ _. Inr ''gw-1''), env_update = (\<lambda>_ _ _ _. None),
      env_remove = (\<lambda>_ _. None), env_mint = (\<lambda>_ _. Inr calm_key), env_expire = (\<lambda>_ _. None),
      env_wait = (\<lambda>_. None), env_start = (\<lambda>_ c. Inr \<lparr>proxy_ref = 1, proxy_cfg = c\<rparr>),
      env_close = (\<lambda>_ _. None), env_now = (\<lambda>tr. int (length tr)), env_range = (\<lambda>_ _. 0)\<rparr>"

end
