(* ===== verification/Watcher.thy ===== *)
theory Watcher
  imports World
begin

text \<open>
  The watcher, \<^verbatim>\<open>internal/tailswarm/watcher.go\<close>: the reconnect backoff on 64-bit durations, the
  periodic full list, and the select loop of \<^verbatim>\<open>Run\<close> as a step function over what the select
  receives. The output channel is read by another goroutine at any time, so whether a send
  finds room, and whether the context is cancelled yet, is asked of an oracle that sees the
  IDs offered so far.
\<close>

section \<open>Definitions\<close>

record watchEvent =
  ev_ServiceID :: string
  ev_Action :: string

record watcher =
  w_FullResync :: duration
  w_LabelNamespace :: string
  w_ReconnectBackoff :: duration

definition defaultFullResync :: duration where
  "defaultFullResync = 30 * second"

definition defaultReconnectBackoff :: duration where
  "defaultReconnectBackoff = 1 * second"

definition maxReconnectBackoff :: duration where
  "maxReconnectBackoff = 30 * second"

text \<open>Durations are signed; the multiplication wraps.\<close>

definition nextBackoff :: "duration \<Rightarrow> duration" where
  "nextBackoff d =
     (let n = d * 2;
          n' = (if maxReconnectBackoff <s n then maxReconnectBackoff else n)
      in if n' \<le>s 0 then defaultReconnectBackoff else n')"

record outlet =
  out_done :: "string list \<Rightarrow> bool"
  out_room :: "string list \<Rightarrow> bool"

definition send :: "outlet \<Rightarrow> string list \<Rightarrow> bool" where
  "send o1 offered = (if out_done o1 offered then False else out_room o1 offered)"

text \<open>The loop over the services of one listing: the IDs seen so far with the outcome of their
  send, in order.\<close>

fun list_loop :: "outlet \<Rightarrow> (string \<times> bool) list \<Rightarrow> service list \<Rightarrow> (string \<times> bool) list" where
  "list_loop o1 seen [] = seen"
| "list_loop o1 seen (s # svcs) =
     (if svc_ID s = [] then list_loop o1 seen svcs
      else if svc_ID s \<in> set (map fst seen) then list_loop o1 seen svcs
      else list_loop o1 (seen @ [(svc_ID s, send o1 (map fst seen))]) svcs)"

definition resync_filter :: "string \<Rightarrow> labelFilter" where
  "resync_filter key = \<lparr>lf_Key = key, lf_Value = ''true'', lf_Name = []\<rparr>"

fun keys_loop :: "(labelFilter \<Rightarrow> goerr + service list) \<Rightarrow> outlet \<Rightarrow> (string \<times> bool) list \<Rightarrow> string list
    \<Rightarrow> (string \<times> bool) list" where
  "keys_loop docker o1 seen [] = seen"
| "keys_loop docker o1 seen (key # ks) =
     (case docker (resync_filter key) of
        Inl _ \<Rightarrow> keys_loop docker o1 seen ks
      | Inr svcs \<Rightarrow> keys_loop docker o1 (list_loop o1 seen svcs) ks)"

definition fullList :: "(labelFilter \<Rightarrow> goerr + service list) \<Rightarrow> outlet \<Rightarrow> string \<Rightarrow> (string \<times> bool) list" where
  "fullList docker o1 ns = keys_loop docker o1 [] [ns @ ''.enable'', ns @ ''.egress.enable'']"

text \<open>
  The state of \<^verbatim>\<open>Run\<close>: whether \<^verbatim>\<open>eventsCh\<close> is live, the current backoff, and \<^verbatim>\<open>resubAt\<close>. The
  inputs are the branches of the select, with what the environment answers.
\<close>

record wstate =
  ws_live :: bool
  ws_backoff :: duration
  ws_resubAt :: "int option"

datatype winput =
    CtxDone
  | Tick
  | StreamClosed int
  | StreamEvent watchEvent
  | ResubTimer bool int

datatype woutput = WReturn | WFullList string | WOffer string | WNothing

text \<open>The checks before anything else: which of \<^verbatim>\<open>Out\<close>, \<^verbatim>\<open>Docker\<close> and \<^verbatim>\<open>Events\<close> are set.\<close>

definition run_checks :: "bool \<Rightarrow> bool \<Rightarrow> bool \<Rightarrow> goerr option" where
  "run_checks hasOut hasDocker hasEvents =
     (if \<not> hasOut then Some (ErrNew ''tailswarm: Watcher.Out is nil'')
      else if \<not> hasDocker then Some (ErrNew ''tailswarm: Watcher.Docker is nil'')
      else if \<not> hasEvents then Some (ErrNew ''tailswarm: Watcher.Events is nil'')
      else None)"

text \<open>The settings \<^verbatim>\<open>Run\<close> works with, defaults filled in: the tick interval and the namespace.\<close>

definition resync_of :: "watcher \<Rightarrow> duration" where
  "resync_of w = (if w_FullResync w \<le>s 0 then defaultFullResync else w_FullResync w)"

definition ns_of :: "watcher \<Rightarrow> string" where
  "ns_of w = (if w_LabelNamespace w = [] then defaultNamespace else w_LabelNamespace w)"

definition reset_backoff :: "watcher \<Rightarrow> duration" where
  "reset_backoff w =
     (if w_ReconnectBackoff w \<le>s 0 then defaultReconnectBackoff else w_ReconnectBackoff w)"

text \<open>The \<^verbatim>\<open>subscribe\<close> closure, given whether \<^verbatim>\<open>Subscribe\<close> succeeded and the current time.\<close>

definition subscribe :: "watcher \<Rightarrow> bool \<Rightarrow> int \<Rightarrow> wstate \<Rightarrow> wstate" where
  "subscribe w ok now st =
     (if \<not> ok then st\<lparr>ws_resubAt := Some (now + sint (ws_backoff st)), ws_backoff := nextBackoff (ws_backoff st)\<rparr>
      else st\<lparr>ws_live := True, ws_resubAt := None, ws_backoff := reset_backoff w\<rparr>)"

text \<open>The state before the loop: the first full list has run and \<^verbatim>\<open>subscribe\<close> was called once.\<close>

definition run_start :: "watcher \<Rightarrow> bool \<Rightarrow> int \<Rightarrow> wstate" where
  "run_start w ok now =
     subscribe w ok now \<lparr>ws_live = False, ws_backoff = reset_backoff w, ws_resubAt = None\<rparr>"

text \<open>Which branches of the select can fire, and one turn of the loop.\<close>

fun enabled :: "wstate \<Rightarrow> winput \<Rightarrow> bool" where
  "enabled st CtxDone = True"
| "enabled st Tick = True"
| "enabled st (StreamClosed _) = ws_live st"
| "enabled st (StreamEvent _) = ws_live st"
| "enabled st (ResubTimer _ now) =
     (\<not> ws_live st \<and> (case ws_resubAt st of None \<Rightarrow> False | Some t \<Rightarrow> t \<le> now))"

fun run_turn :: "watcher \<Rightarrow> winput \<Rightarrow> wstate \<Rightarrow> woutput \<times> wstate" where
  "run_turn w CtxDone st = (WReturn, st)"
| "run_turn w Tick st = (WFullList (ns_of w), st)"
| "run_turn w (StreamClosed now) st =
     (WNothing, st\<lparr>ws_live := False, ws_resubAt := Some (now + sint (ws_backoff st)),
                   ws_backoff := nextBackoff (ws_backoff st)\<rparr>)"
| "run_turn w (StreamEvent ev) st =
     (if ev_ServiceID ev = [] then WNothing else WOffer (ev_ServiceID ev), st)"
| "run_turn w (ResubTimer ok now) st = (WNothing, subscribe w ok now st)"

inductive wreach :: "watcher \<Rightarrow> wstate \<Rightarrow> bool" for w where
  wstart: "wreach w (run_start w ok now)"
| wturn: "wreach w st \<Longrightarrow> enabled st x \<Longrightarrow> run_turn w x st = (out, st') \<Longrightarrow> wreach w st'"

section \<open>Lemmas\<close>

lemma backoff_consts [simp]:
  "sint defaultReconnectBackoff = 1000000000" "sint maxReconnectBackoff = 30000000000"
  by (simp_all add: defaultReconnectBackoff_def maxReconnectBackoff_def second_def)

lemma nextBackoff_range: "0 < sint (nextBackoff d) \<and> sint (nextBackoff d) \<le> 30000000000"
  by (auto simp: nextBackoff_def Let_def word_sless_alt word_sle_eq)

lemma nextBackoff_double:
  assumes "0 < sint d" and "sint d \<le> 15000000000"
  shows "sint (nextBackoff d) = 2 * sint d"
proof -
  have "sint (d * 2) = 2 * sint d"
    using assms by (subst sint_word_ariths) (simp add: signed_take_bit_int_eq_self)
  with assms show ?thesis by (simp add: nextBackoff_def Let_def word_sless_alt word_sle_eq)
qed

text \<open>The IDs of a listing in order, empty ones left out; a failed listing has none.\<close>

definition listed_ids :: "goerr + service list \<Rightarrow> string list" where
  "listed_ids res = (case res of Inl _ \<Rightarrow> [] | Inr svcs \<Rightarrow> filter (\<lambda>i. i \<noteq> []) (map svc_ID svcs))"

lemma filter_dedup: "dedup_first (filter P xs) = filter P (dedup_first xs)"
  by (induction xs) (auto simp: filter_filter conj_commute intro: filter_cong)

lemma list_loop_ids:
  "map fst (list_loop o1 seen svcs) =
     map fst seen @ filter (\<lambda>i. i \<notin> set (map fst seen)) (dedup_first (listed_ids (Inr svcs)))"
proof (induction o1 seen svcs rule: list_loop.induct)
  case (2 o1 seen s svcs)
  show ?case
  proof (cases "svc_ID s = [] \<or> svc_ID s \<in> set (map fst seen)")
    case True
    then show ?thesis using 2 by (auto simp: listed_ids_def filter_filter intro: filter_cong)
  next
    case False
    then show ?thesis using 2 by (auto simp: listed_ids_def filter_filter conj_commute intro: filter_cong)
  qed
qed (simp add: listed_ids_def)

lemma dedup_append: "dedup_first (xs @ ys) = dedup_first xs @ filter (\<lambda>y. y \<notin> set xs) (dedup_first ys)"
  by (induction xs) (auto simp: filter_filter conj_commute intro: filter_cong)

lemma fullList_ids:
  "map fst (fullList docker o1 ns) =
     dedup_first (listed_ids (docker (resync_filter (ns @ ''.enable''))) @
                  listed_ids (docker (resync_filter (ns @ ''.egress.enable''))))"
  unfolding fullList_def
  by (auto simp: dedup_append list_loop_ids listed_ids_def split: sum.splits)

section \<open>Properties\<close>

text \<open>
  C34: the reconnect delay is always positive and at most 30 seconds, whatever the previous
  delay, wrap-around of the doubling included, and doubles exactly while there is room.
\<close>

theorem nextBackoff_bounds:
  "0 < sint (nextBackoff d) \<and> sint (nextBackoff d) \<le> 30000000000 \<and>
   (0 < sint d \<and> sint d \<le> 15000000000 \<longrightarrow> sint (nextBackoff d) = 2 * sint d)"
  using nextBackoff_range nextBackoff_double by blast

theorem nextBackoff_bounds_witness:
  "sint (nextBackoff (4 * second)) = 8000000000 \<and> sint (nextBackoff (2 ^ 62)) = 1000000000"
  using nextBackoff_bounds [of "4 * second"] by (simp add: second_def nextBackoff_def Let_def word_sless_alt word_sle_eq)



text \<open>
  The periodic list offers every service of both listings, ingress and egress, each ID
  exactly once and in order of first appearance; a listing that fails costs only its own
  services.
\<close>

theorem fullList_offers_each_once:
  "map fst (fullList docker o1 ns) =
     dedup_first (listed_ids (docker (resync_filter (ns @ ''.enable''))) @
                  listed_ids (docker (resync_filter (ns @ ''.egress.enable''))))
   \<and> distinct (map fst (fullList docker o1 ns)) \<and> [] \<notin> set (map fst (fullList docker o1 ns))"
  using fullList_ids [of docker o1 ns] by (auto simp: listed_ids_def split: sum.splits)

text \<open>What Docker documents of its label filter, given a key and a value: only services with the
  label at that value are listed.\<close>

definition honours_filter :: "(labelFilter \<Rightarrow> goerr + service list) \<Rightarrow> bool" where
  "honours_filter docker \<longleftrightarrow>
     (\<forall>f svcs. docker f = Inr svcs \<and> lf_Key f \<noteq> [] \<and> lf_Value f \<noteq> [] \<longrightarrow>
        (\<forall>s \<in> set svcs. map_of (ss_Labels (svc_Spec s)) (lf_Key f) = Some (lf_Value f)))"

text \<open>
  The resync does not cover every opted-in service. The label parser takes \<^verbatim>\<open>yes\<close>, \<^verbatim>\<open>1\<close>,
  \<^verbatim>\<open>on\<close> and other capitalisations for true, but the periodic list asks Docker for the exact
  value \<^verbatim>\<open>true\<close>; a service that opts in with another spelling is enabled, yet never offered by
  the resync, so a reconcile of it that failed is not retried.
\<close>

theorem resync_misses_other_spellings:
  assumes "honours_filter docker"
    and "\<And>f svcs s. docker f = Inr svcs \<Longrightarrow> s \<in> set svcs \<Longrightarrow> svc_ID s = svc_ID svc \<Longrightarrow> s = svc"
    and "ingress_on l svc" and "namespace l = ns"
    and "map_of (ss_Labels (svc_Spec svc)) (ns @ ''.enable'') \<noteq> Some ''true''"
    and "map_of (ss_Labels (svc_Spec svc)) (ns @ ''.egress.enable'') \<noteq> Some ''true''"
  shows "fst (snd (Parse l svc networks)) \<and> svc_ID svc \<notin> set (map fst (fullList docker o1 ns))"
proof -
  obtain tgt en err where P: "Parse l svc networks = (tgt, en, err)" by (metis prod_cases3)
  have "en" using P assms(3) by (cases rule: Parse_cases) auto
  moreover have "svc_ID svc \<notin> set (listed_ids (docker (resync_filter key)))"
    if "key = ns @ ''.enable'' \<or> key = ns @ ''.egress.enable''" for key
  proof (cases "docker (resync_filter key)")
    case (Inr svcs)
    have "svc \<notin> set svcs"
      using assms(1,5,6) that Inr by (fastforce simp: honours_filter_def resync_filter_def)
    with Inr assms(2) [OF Inr] show ?thesis by (auto simp: listed_ids_def)
  qed (simp add: listed_ids_def)
  ultimately show ?thesis using P unfolding fullList_ids by simp
qed

theorem resync_misses_other_spellings_witness:
  "''app1'' \<notin> set (map fst (fullList
     (\<lambda>f. Inr (filter (\<lambda>s. map_of (ss_Labels (svc_Spec s)) (lf_Key f) = Some (lf_Value f)) [demo_svc]))
     \<lparr>out_done = (\<lambda>_. False), out_room = (\<lambda>_. True)\<rparr> ''tailswarm''))"
proof -
  let ?docker = "\<lambda>f. Inr (filter (\<lambda>s. map_of (ss_Labels (svc_Spec s)) (lf_Key f) = Some (lf_Value f)) [demo_svc])"
  have h: "honours_filter ?docker" by (simp add: honours_filter_def)
  have u: "s = demo_svc" if "?docker f = Inr svcs" "s \<in> set svcs" "svc_ID s = svc_ID demo_svc" for f svcs s
    using that(1,2) by (simp only: sum.inject) (metis empty_iff filter_is_subset insert_iff list.set subset_iff)
  have on: "ingress_on demo_labels demo_svc" and ns: "namespace demo_labels = ''tailswarm''"
    and sid: "svc_ID demo_svc = ''app1''"
    and e: "map_of (ss_Labels (svc_Spec demo_svc)) (''tailswarm'' @ ''.enable'') \<noteq> Some ''true''"
    and g: "map_of (ss_Labels (svc_Spec demo_svc)) (''tailswarm'' @ ''.egress.enable'') \<noteq> Some ''true''"
    by code_simp+
  have "fst (snd (Parse demo_labels demo_svc [])) \<and> svc_ID demo_svc \<notin> set (map fst (fullList ?docker
      \<lparr>out_done = (\<lambda>_. False), out_room = (\<lambda>_. True)\<rparr> ''tailswarm''))"
    by (rule resync_misses_other_spellings [OF h _ on ns e g]) (rule u)
  then show ?thesis unfolding sid by blast
qed

end
