(* ===== verification/Docker.thy ===== *)
theory Docker
  imports Watcher
begin

text \<open>
  The Docker client, \<^verbatim>\<open>internal/tailswarm/docker.go\<close>, which implements the \<^verbatim>\<open>DockerClient\<close> and
  \<^verbatim>\<open>EventStream\<close> interfaces over the Docker SDK. The SDK is third-party code: record
  \<open>dockerAPI\<close> holds one field per method of the \<^verbatim>\<open>dockerAPI\<close> interface and the two error
  predicates of \<^verbatim>\<open>containerd/errdefs\<close>. Filter arguments are pairs of a field and a value.
\<close>

section \<open>Definitions\<close>

text \<open>\<^verbatim>\<open>network.Summary\<close>, the fields that are read.\<close>

record networkSummary =
  nsum_ID :: string
  nsum_Name :: string
  nsum_Labels :: "(string, string) gomap"
  nsum_Ingress :: bool
  nsum_Driver :: string

record dockerAPI =
  api_ServiceList :: "(string \<times> string) list \<Rightarrow> goerr + service list"
  api_ServiceInspect :: "string \<Rightarrow> goerr + service"
  api_NetworkList :: "goerr + networkSummary list"
  api_TaskList :: "goerr + task list"
  api_ServiceCreate :: "serviceSpec \<Rightarrow> goerr + string"
  api_ServiceUpdate :: "string \<Rightarrow> u64 \<Rightarrow> serviceSpec \<Rightarrow> goerr option"
  api_ServiceRemove :: "string \<Rightarrow> goerr option"
  api_Close :: "goerr option"
  IsNotFound :: "goerr \<Rightarrow> bool"
  IsConflict :: "goerr \<Rightarrow> bool"

definition NewDocker :: "goerr + 'c \<Rightarrow> goerr + 'c" where
  "NewDocker newClient =
     (case newClient of Inl e \<Rightarrow> Inl (ErrWrap ''docker: new client'' e) | Inr cli \<Rightarrow> Inr cli)"

text \<open>\<^verbatim>\<open>Close\<close> of a \<^verbatim>\<open>*Docker\<close> whose \<^verbatim>\<open>api\<close> may be nil.\<close>

definition docker_Close :: "dockerAPI option \<Rightarrow> goerr option" where
  "docker_Close api = (case api of None \<Rightarrow> None | Some a \<Rightarrow> api_Close a)"

text \<open>The filter arguments of \<^verbatim>\<open>ListServices\<close>; none at all when the filter is empty.\<close>

definition filter_args :: "labelFilter \<Rightarrow> (string \<times> string) list" where
  "filter_args f =
     (if lf_Key f \<noteq> [] \<or> lf_Name f \<noteq> [] then
        (if lf_Key f \<noteq> [] then
           (if lf_Value f \<noteq> [] then [(''label'', lf_Key f @ ''='' @ lf_Value f)] else [(''label'', lf_Key f)])
         else [])
        @ (if lf_Name f \<noteq> [] then [(''name'', lf_Name f)] else [])
      else [])"

text \<open>
  The narrowing loop appends to \<^verbatim>\<open>svcs[:0]\<close>, that is, it overwrites the array it is ranging
  over: \<open>i\<close> is the read position, \<open>w\<close> the length of \<^verbatim>\<open>out\<close>, \<open>n\<close> the elements still to read.
\<close>

fun narrow_loop :: "string \<Rightarrow> service list \<Rightarrow> nat \<Rightarrow> nat \<Rightarrow> nat \<Rightarrow> service list" where
  "narrow_loop name arr i w 0 = take w arr"
| "narrow_loop name arr i w (Suc n) =
     (let s = arr ! i
      in if ss_Name (svc_Spec s) = name then narrow_loop name (arr[w := s]) (Suc i) (Suc w) n
         else narrow_loop name arr (Suc i) w n)"

definition docker_ListServices :: "dockerAPI \<Rightarrow> labelFilter \<Rightarrow> goerr + service list" where
  "docker_ListServices api f =
     (case api_ServiceList api (filter_args f) of
        Inl e \<Rightarrow> Inl e
      | Inr svcs \<Rightarrow>
          if lf_Name f \<noteq> [] then Inr (narrow_loop (lf_Name f) svcs 0 0 (length svcs)) else Inr svcs)"

definition docker_InspectService :: "dockerAPI \<Rightarrow> string \<Rightarrow> goerr + service" where
  "docker_InspectService api sid =
     (case api_ServiceInspect api sid of
        Inl e \<Rightarrow> if IsNotFound api e then Inl (ErrVar ServiceNotFound) else Inl e
      | Inr svc \<Rightarrow> Inr svc)"

definition docker_ListNetworks :: "dockerAPI \<Rightarrow> goerr + network list" where
  "docker_ListNetworks api =
     (case api_NetworkList api of
        Inl e \<Rightarrow> Inl e
      | Inr summaries \<Rightarrow> Inr (map (\<lambda>s. \<lparr>net_ID = nsum_ID s, net_Name = nsum_Name s, net_Labels = nsum_Labels s,
                               net_Ingress = nsum_Ingress s, net_Driver = nsum_Driver s\<rparr>) summaries))"

definition docker_ListTasks :: "dockerAPI \<Rightarrow> goerr + task list" where
  "docker_ListTasks api = api_TaskList api"

definition docker_CreateService :: "dockerAPI \<Rightarrow> serviceSpec \<Rightarrow> goerr + string" where
  "docker_CreateService api spec =
     (case api_ServiceCreate api spec of
        Inl e \<Rightarrow> if IsConflict api e then Inl (ErrVar ServiceExists) else Inl e
      | Inr sid \<Rightarrow> Inr sid)"

definition docker_UpdateService :: "dockerAPI \<Rightarrow> string \<Rightarrow> u64 \<Rightarrow> serviceSpec \<Rightarrow> goerr option" where
  "docker_UpdateService api sid version spec = api_ServiceUpdate api sid version spec"

definition docker_RemoveService :: "dockerAPI \<Rightarrow> string \<Rightarrow> goerr option" where
  "docker_RemoveService api sid =
     (case api_ServiceRemove api sid of
        None \<Rightarrow> None
      | Some e \<Rightarrow> if IsNotFound api e then None else Some e)"

subsection \<open>The event stream\<close>

record message =
  msg_Type :: string
  msg_ActorID :: string
  msg_Action :: string

definition ServiceEventType :: string where
  "ServiceEventType = ''service''"

text \<open>
  The goroutine of \<^verbatim>\<open>Subscribe\<close>: the channel \<^verbatim>\<open>out\<close> with its buffer of 16, the event it is
  trying to send (the inner select), and whether it has returned, closing \<^verbatim>\<open>out\<close>. For the
  statements, the messages it took and the events the watcher received so far.
\<close>

record subState =
  sub_out :: "watchEvent list"
  sub_sending :: "watchEvent option"
  sub_closed :: bool
  sub_taken :: "message list"
  sub_received :: "watchEvent list"

definition out_buffer :: nat where
  "out_buffer = 16"

definition sub_start :: subState where
  "sub_start = \<lparr>sub_out = [], sub_sending = None, sub_closed = False, sub_taken = [], sub_received = []\<rparr>"

text \<open>What becomes of one message: nothing, or an event to send on.\<close>

definition translate :: "message \<Rightarrow> watchEvent option" where
  "translate m =
     (if msg_Type m \<noteq> ServiceEventType then None
      else if msg_ActorID m = [] then None
      else Some \<lparr>ev_ServiceID = msg_ActorID m, ev_Action = msg_Action m\<rparr>)"

inductive sub_step :: "subState \<Rightarrow> subState \<Rightarrow> bool" where
  sub_ctx: "\<not> sub_closed st \<Longrightarrow> sub_step st (st\<lparr>sub_closed := True, sub_sending := None\<rparr>)"
| sub_message: "\<not> sub_closed st \<Longrightarrow> sub_sending st = None \<Longrightarrow>
    sub_step st (st\<lparr>sub_taken := sub_taken st @ [m], sub_sending := translate m\<rparr>)"
| sub_msgs_closed: "\<not> sub_closed st \<Longrightarrow> sub_sending st = None \<Longrightarrow> sub_step st (st\<lparr>sub_closed := True\<rparr>)"
| sub_error: "\<not> sub_closed st \<Longrightarrow> sub_sending st = None \<Longrightarrow> sub_step st (st\<lparr>sub_closed := True\<rparr>)"
| sub_send: "\<not> sub_closed st \<Longrightarrow> sub_sending st = Some ev \<Longrightarrow> length (sub_out st) < out_buffer \<Longrightarrow>
    sub_step st (st\<lparr>sub_out := sub_out st @ [ev], sub_sending := None\<rparr>)"
| sub_receive: "sub_out st = ev # evs \<Longrightarrow>
    sub_step st (st\<lparr>sub_out := evs, sub_received := sub_received st @ [ev]\<rparr>)"

inductive_cases sub_stepE: "sub_step st st'"

abbreviation sub_reach :: "subState \<Rightarrow> bool" where
  "sub_reach st \<equiv> sub_step\<^sup>*\<^sup>* sub_start st"

lemma map_filter_snoc:
  "List.map_filter f (xs @ [x]) = List.map_filter f xs @ (case f x of None \<Rightarrow> [] | Some y \<Rightarrow> [y])"
  by (simp add: List.map_filter_def split: option.splits)

section \<open>Listing\<close>

text \<open>The write position never overtakes the read position, so overwriting is harmless.\<close>

lemma narrow_loop_filter:
  "w \<le> i \<Longrightarrow> i + n = length arr \<Longrightarrow>
     narrow_loop name arr i w n =
       take w arr @ filter (\<lambda>s. ss_Name (svc_Spec s) = name) (drop i arr)"
proof (induction n arbitrary: arr i w)
  case (Suc n)
  then have i: "i < length arr" by simp
  then have d: "drop i arr = arr ! i # drop (Suc i) arr" by (simp add: Cons_nth_drop_Suc)
  have t: "take (Suc w) (arr[w := x]) = take w arr @ [x]" for x
    using Suc.prems i by (simp add: take_Suc_conv_app_nth)
  show ?case using Suc by (simp add: d t Let_def)
qed simp

text \<open>What the \<^verbatim>\<open>LabelFilter\<close> of the interface promises of a listed service: the label is set, to the
  given value if there is one, and the name is exactly the given one.\<close>

definition lists :: "labelFilter \<Rightarrow> service \<Rightarrow> bool" where
  "lists f s \<longleftrightarrow>
     (lf_Key f \<noteq> [] \<longrightarrow>
        (case map_of (ss_Labels (svc_Spec s)) (lf_Key f) of
           None \<Rightarrow> False
         | Some v \<Rightarrow> lf_Value f = [] \<or> v = lf_Value f)) \<and>
     (lf_Name f \<noteq> [] \<longrightarrow> ss_Name (svc_Spec s) = lf_Name f)"

text \<open>
  What Docker documents of its service filters: a label argument is a key, or a key and a
  value split at the first equals sign; a name argument matches loosely, by some \<open>nm\<close> that
  accepts at least the name itself.
\<close>

definition arg_ok :: "(string \<Rightarrow> string \<Rightarrow> bool) \<Rightarrow> string \<times> string \<Rightarrow> service \<Rightarrow> bool" where
  "arg_ok nm arg s =
     (case arg of (field, v) \<Rightarrow>
        if field = ''label'' then
          (case cut_at (CHR ''='') v of (k, x, hasValue) \<Rightarrow>
             (case map_of (ss_Labels (svc_Spec s)) k of
                None \<Rightarrow> False
              | Some y \<Rightarrow> if hasValue then y = x else True))
        else if field = ''name'' then nm v (ss_Name (svc_Spec s))
        else True)"

locale docker_sdk =
  fixes nm :: "string \<Rightarrow> string \<Rightarrow> bool"
    and db :: "service list"
    and api :: dockerAPI
  assumes exact_name: "nm n n"
    and filtered: "api_ServiceList api args = Inr (filter (\<lambda>s. list_all (\<lambda>a. arg_ok nm a s) args) db)"

text \<open>The contract of \<^verbatim>\<open>ListServices\<close>, on which the watcher and the reconciler rely.\<close>

locale service_listing =
  fixes lst :: "labelFilter \<Rightarrow> goerr + service list"
    and db :: "service list"
  assumes listing: "CHR ''='' \<notin> set (lf_Key f) \<Longrightarrow> lst f = Inr (filter (lists f) db)"
begin

lemma listed_true:
  assumes "CHR ''='' \<notin> set key" and "key \<noteq> []"
  shows "set (listed_ids (lst (resync_filter key))) =
    {svc_ID s | s. s \<in> set db \<and> svc_ID s \<noteq> [] \<and> map_of (ss_Labels (svc_Spec s)) key = Some ''true''}"
proof -
  have "lst (resync_filter key) = Inr (filter (lists (resync_filter key)) db)"
    using assms(1) by (intro listing) (simp add: resync_filter_def)
  moreover have "lists (resync_filter key) s \<longleftrightarrow> map_of (ss_Labels (svc_Spec s)) key = Some ''true''" for s
    using assms(2) by (auto simp: lists_def resync_filter_def split: option.splits)
  ultimately show ?thesis by (auto simp: listed_ids_def)
qed

lemma resync_ids:
  assumes "CHR ''='' \<notin> set ns"
  shows "set (map fst (fullList lst o1 ns)) =
    {svc_ID s | s. s \<in> set db \<and> svc_ID s \<noteq> [] \<and>
       (map_of (ss_Labels (svc_Spec s)) (ns @ ''.enable'') = Some ''true'' \<or>
        map_of (ss_Labels (svc_Spec s)) (ns @ ''.egress.enable'') = Some ''true'')}"
  using assms listed_true [of "ns @ ''.enable''"] listed_true [of "ns @ ''.egress.enable''"]
  unfolding fullList_ids by auto

end

lemma lists_args:
  assumes "CHR ''='' \<notin> set (lf_Key f)" and "\<And>n. nm n n"
  shows "list_all (\<lambda>a. arg_ok nm a s) (filter_args f) \<and> (lf_Name f \<noteq> [] \<longrightarrow> ss_Name (svc_Spec s) = lf_Name f)
    \<longleftrightarrow> lists f s"
  using assms
  by (auto simp: filter_args_def lists_def arg_ok_def cut_at_append cut_at_free split: option.splits)

sublocale docker_sdk \<subseteq> service_listing "docker_ListServices api" db
proof unfold_locales
  fix f :: labelFilter
  assume "CHR ''='' \<notin> set (lf_Key f)"
  note args = lists_args [OF this exact_name]
  let ?got = "filter (\<lambda>s. list_all (\<lambda>a. arg_ok nm a s) (filter_args f)) db"
  have "narrow_loop name ?got 0 0 (length ?got) = filter (\<lambda>s. ss_Name (svc_Spec s) = name) ?got" for name
    using narrow_loop_filter [of 0 0 "length ?got" ?got name] by simp
  then have "docker_ListServices api f =
      Inr (filter (\<lambda>s. list_all (\<lambda>a. arg_ok nm a s) (filter_args f) \<and>
        (lf_Name f \<noteq> [] \<longrightarrow> ss_Name (svc_Spec s) = lf_Name f)) db)"
    by (auto simp: docker_ListServices_def filtered intro: filter_cong)
  then show "docker_ListServices api f = Inr (filter (lists f) db)"
    unfolding args .
qed

text \<open>An SDK whose daemon holds the services \<open>db\<close> and matches names by substring.\<close>

definition sdk_over :: "service list \<Rightarrow> dockerAPI \<Rightarrow> dockerAPI" where
  "sdk_over db base =
     base\<lparr>api_ServiceList :=
       (\<lambda>args. Inr (filter (\<lambda>s. list_all (\<lambda>a. arg_ok (\<lambda>p n. str_index n p \<noteq> None) a s) args) db))\<rparr>"

lemma str_index_self: "str_index n n \<noteq> None"
  using str_index_le [of "[]" n "[]"] by auto

interpretation sdk: docker_sdk "\<lambda>p n. str_index n p \<noteq> None" db "sdk_over db base" for db base
  by unfold_locales (use str_index_self in \<open>simp_all add: sdk_over_def\<close>)

context docker_sdk
begin

lemma ListServices_exact:
  "CHR ''='' \<notin> set (lf_Key f) \<Longrightarrow> docker_ListServices api f = Inr (filter (lists f) db)"
  by (rule listing)

lemma resync_exact:
  "CHR ''='' \<notin> set ns \<Longrightarrow> set (map fst (fullList (docker_ListServices api) o1 ns)) =
    {svc_ID s | s. s \<in> set db \<and> svc_ID s \<noteq> [] \<and>
       (map_of (ss_Labels (svc_Spec s)) (ns @ ''.enable'') = Some ''true'' \<or>
        map_of (ss_Labels (svc_Spec s)) (ns @ ''.egress.enable'') = Some ''true'')}"
  by (rule resync_ids)

end

section \<open>Properties\<close>

text \<open>
  C24: what \<^verbatim>\<open>ListServices\<close> implements. For a daemon that holds the services \<open>db\<close> and filters as
  Docker documents it, with names matched loosely, the client returns exactly the services
  of \<open>db\<close> that the filter describes, in order: the label set (to the given value), and the name
  exactly the given one, although the narrowing loop overwrites the slice it reads.
\<close>

theorem docker_ListServices_refines:
  assumes "\<And>n. nm n n"
    and "\<And>args. api_ServiceList api args = Inr (filter (\<lambda>s. list_all (\<lambda>a. arg_ok nm a s) args) db)"
    and "CHR ''='' \<notin> set (lf_Key f)"
  shows "docker_ListServices api f = Inr (filter (lists f) db)"
  using docker_sdk.intro [of nm, OF assms(1,2)] assms(3) by (rule docker_sdk.ListServices_exact)

definition demo_api :: dockerAPI where
  "demo_api =
     \<lparr>api_ServiceList = (\<lambda>_. Inr []), api_ServiceInspect = (\<lambda>_. Inl (ErrNew ''404'')), api_NetworkList = Inr [],
      api_TaskList = Inr [], api_ServiceCreate = (\<lambda>_. Inl (ErrNew ''409'')), api_ServiceUpdate = (\<lambda>_ _ _. None),
      api_ServiceRemove = (\<lambda>_. Some (ErrNew ''404'')), api_Close = None,
      IsNotFound = (\<lambda>e. e = ErrNew ''404''), IsConflict = (\<lambda>e. e = ErrNew ''409'')\<rparr>"

definition named_svc :: "string \<Rightarrow> string \<Rightarrow> service" where
  "named_svc sid name =
     \<lparr>svc_ID = sid, svc_Version = 1,
      svc_Spec = \<lparr>ss_Name = name, ss_Labels = [(''tailswarm.enable'', ''true'')], ss_ContainerSpec = None,
        ss_TaskNetworks = [], ss_Networks = [], ss_EndpointPorts = None\<rparr>\<rparr>"

theorem docker_ListServices_refines_witness:
  "docker_ListServices (sdk_over [named_svc ''a'' ''gw-10'', named_svc ''b'' ''gw-1''] demo_api)
     \<lparr>lf_Key = [], lf_Value = [], lf_Name = ''gw-1''\<rparr> = Inr [named_svc ''b'' ''gw-1'']"
proof -
  let ?db = "[named_svc ''a'' ''gw-10'', named_svc ''b'' ''gw-1'']"
  let ?f = "\<lparr>lf_Key = [], lf_Value = [], lf_Name = ''gw-1''\<rparr>"
  have "docker_ListServices (sdk_over ?db demo_api) ?f = Inr (filter (lists ?f) ?db)"
    by (rule docker_ListServices_refines [where nm = "\<lambda>p n. str_index n p \<noteq> None"])
      (use str_index_self in \<open>simp_all add: sdk_over_def\<close>)
  also have "filter (lists ?f) ?db = [named_svc ''b'' ''gw-1'']" by (simp add: lists_def named_svc_def)
  finally show ?thesis .
qed

text \<open>
  The periodic resync through the Docker client covers exactly the services whose ingress
  or egress label is \<^verbatim>\<open>true\<close>, for every state of the swarm.
\<close>

theorem resync_covers_labelled:
  assumes "\<And>n. nm n n"
    and "\<And>args. api_ServiceList api args = Inr (filter (\<lambda>s. list_all (\<lambda>a. arg_ok nm a s) args) db)"
    and "CHR ''='' \<notin> set ns"
  shows "set (map fst (fullList (docker_ListServices api) o1 ns)) =
    {svc_ID s | s. s \<in> set db \<and> svc_ID s \<noteq> [] \<and>
       (map_of (ss_Labels (svc_Spec s)) (ns @ ''.enable'') = Some ''true'' \<or>
        map_of (ss_Labels (svc_Spec s)) (ns @ ''.egress.enable'') = Some ''true'')}"
  using docker_sdk.intro [of nm, OF assms(1,2)] assms(3) by (rule docker_sdk.resync_exact)

theorem resync_covers_labelled_witness:
  "''b'' \<in> set (map fst (fullList (docker_ListServices (sdk_over [named_svc ''b'' ''web''] demo_api))
     \<lparr>out_done = (\<lambda>_. False), out_room = (\<lambda>_. True)\<rparr> ''tailswarm''))"
  by (subst resync_covers_labelled [where nm = "\<lambda>p n. str_index n p \<noteq> None" and db = "[named_svc ''b'' ''web'']"])
    (use str_index_self in \<open>simp_all add: sdk_over_def named_svc_def\<close>)

text \<open>
  How the client maps the SDK's errors. A service is reported as not found exactly when the
  SDK says so, as existing exactly on a name conflict, and removing a service that is not
  there succeeds; every other error passes through.
\<close>

theorem docker_error_mapping:
  assumes "\<And>e. api_ServiceInspect api sid = Inl e \<Longrightarrow> \<not> errors_is e ServiceNotFound"
    and "\<And>e. api_ServiceCreate api spec = Inl e \<Longrightarrow> \<not> errors_is e ServiceExists"
  shows "((\<exists>e. docker_InspectService api sid = Inl e \<and> errors_is e ServiceNotFound) \<longleftrightarrow>
      (\<exists>e. api_ServiceInspect api sid = Inl e \<and> IsNotFound api e)) \<and>
    ((\<exists>e. docker_CreateService api spec = Inl e \<and> errors_is e ServiceExists) \<longleftrightarrow>
      (\<exists>e. api_ServiceCreate api spec = Inl e \<and> IsConflict api e)) \<and>
    (docker_RemoveService api sid = None \<longleftrightarrow>
      (\<forall>e. api_ServiceRemove api sid = Some e \<longrightarrow> IsNotFound api e))"
  using assms
  by (auto simp: docker_InspectService_def docker_CreateService_def docker_RemoveService_def
      split: sum.splits option.splits if_splits)

theorem docker_error_mapping_witness:
  "(\<exists>e. docker_InspectService demo_api ''x'' = Inl e \<and> errors_is e ServiceNotFound) \<and>
   docker_RemoveService demo_api ''x'' = None"
  using docker_error_mapping [of demo_api "''x''"] by (simp add: demo_api_def)

text \<open>
  C25: the event stream is faithful. Whatever the interleaving of the SDK, the context and the
  watcher, the events received so far, those in the channel and the one being sent are the
  service messages taken from Docker that carry an ID, in order and without gaps, except
  that a cancellation may drop the one being sent; the channel never holds more than 16.
\<close>

theorem subscribe_in_order:
  assumes "sub_reach st"
  shows "\<exists>dropped. List.map_filter translate (sub_taken st) =
       sub_received st @ sub_out st @ (case sub_sending st of None \<Rightarrow> [] | Some ev \<Rightarrow> [ev]) @ dropped \<and>
     length dropped \<le> 1 \<and> (sub_closed st \<or> dropped = []) \<and> length (sub_out st) \<le> 16 \<and>
     (\<forall>ev \<in> set (sub_received st). ev_ServiceID ev \<noteq> [])"
proof -
  have ids: "ev_ServiceID ev \<noteq> []" if "ev \<in> set (List.map_filter translate ms)" for ev ms
    using that by (auto simp: translate_def List.map_filter_def split: if_splits)
  have "\<exists>dropped. List.map_filter translate (sub_taken st) =
       sub_received st @ sub_out st @ (case sub_sending st of None \<Rightarrow> [] | Some ev \<Rightarrow> [ev]) @ dropped \<and>
     length dropped \<le> 1 \<and> (sub_closed st \<or> dropped = []) \<and> length (sub_out st) \<le> 16 \<and>
     (sub_closed st \<longrightarrow> sub_sending st = None)"
    using assms
  proof (induction rule: rtranclp_induct)
    case base
    then show ?case by (simp add: sub_start_def List.map_filter_def)
  next
    case (step y z)
    from step.hyps(2) step.IH show ?case
      by (elim sub_stepE) (auto simp: map_filter_snoc out_buffer_def split: option.splits)
  qed
  then show ?thesis using ids by (metis Un_iff set_append)
qed

definition demo_message :: message where
  "demo_message = \<lparr>msg_Type = ''service'', msg_ActorID = ''app1'', msg_Action = ''create''\<rparr>"

theorem subscribe_in_order_witness:
  "\<exists>st. sub_reach st \<and> List.map_filter translate (sub_taken st) = [\<lparr>ev_ServiceID = ''app1'', ev_Action = ''create''\<rparr>] \<and>
     sub_sending st = Some \<lparr>ev_ServiceID = ''app1'', ev_Action = ''create''\<rparr>"
proof -
  let ?st = "sub_start\<lparr>sub_taken := sub_taken sub_start @ [demo_message], sub_sending := translate demo_message\<rparr>"
  have r: "sub_reach ?st" by (rule r_into_rtranclp, rule sub_message) (simp_all add: sub_start_def)
  have snd: "sub_sending ?st = Some \<lparr>ev_ServiceID = ''app1'', ev_Action = ''create''\<rparr>"
    by (simp add: translate_def demo_message_def ServiceEventType_def)
  from subscribe_in_order [OF r] snd r show ?thesis by (intro exI [of _ ?st]) (auto simp: sub_start_def)
qed

end
