(* ===== verification/Own_Image.thy ===== *)
theory Own_Image
  imports Docker
begin

text \<open>
  Finding the image that egress gateways run, \<^verbatim>\<open>internal/tailswarm/own_image.go\<close>: the daemon
  looks up its own Swarm task by container ID and takes the image of its service. The two
  Docker calls are arguments; the daemon passes those of its Docker client.
\<close>

section \<open>Definitions\<close>

text \<open>The container ID is the full digest, the host name usually a prefix of it; either may be
  the shorter one.\<close>

definition task_matches :: "string \<Rightarrow> task \<Rightarrow> bool" where
  "task_matches hostname t =
     (case task_ContainerID t of
        None \<Rightarrow> False
      | Some cid \<Rightarrow> cid \<noteq> [] \<and> (has_prefix cid hostname \<or> has_prefix hostname cid))"

text \<open>The loop over the tasks: \<^verbatim>\<open>serviceID\<close> stays empty unless a task matches, and the first one
  that does ends the loop.\<close>

fun own_service :: "string \<Rightarrow> task list \<Rightarrow> string" where
  "own_service hostname [] = []"
| "own_service hostname (t # ts) =
     (if task_matches hostname t then task_ServiceID t else own_service hostname ts)"

definition DiscoverGatewayImage ::
  "(goerr + task list) \<Rightarrow> (string \<Rightarrow> goerr + service) \<Rightarrow> string \<Rightarrow> goerr + string" where
  "DiscoverGatewayImage listTasks inspect hostname =
     (if hostname = [] then Inl (ErrNew ''tailswarm: cannot discover gateway image: empty hostname'')
      else
        (case listTasks of
           Inl e \<Rightarrow> Inl (ErrWrap ''list tasks'' e)
         | Inr tasks \<Rightarrow>
             (let serviceID = own_service hostname tasks
              in if serviceID = []
                 then Inl (ErrNew (''tailswarm: no Swarm task matches hostname '' @ hostname))
                 else
                   (case inspect serviceID of
                      Inl e \<Rightarrow> Inl (ErrWrap (''inspect own service '' @ serviceID) e)
                    | Inr svc \<Rightarrow>
                        (case ss_ContainerSpec (svc_Spec svc) of
                           None \<Rightarrow> Inl (ErrNew (''tailswarm: own service '' @ serviceID @ '' has no container image''))
                         | Some cs \<Rightarrow>
                             if cs_Image cs = []
                             then Inl (ErrNew (''tailswarm: own service '' @ serviceID @ '' has no container image''))
                             else Inr (cs_Image cs))))))"

section \<open>Properties\<close>

lemma own_service_find:
  "own_service hostname ts = (case List.find (task_matches hostname) ts of None \<Rightarrow> [] | Some t \<Rightarrow> task_ServiceID t)"
  by (induction ts) simp_all

text \<open>
  Which image gateways run. Discovery succeeds with \<open>img\<close> exactly when the host name is not
  empty, the tasks can be listed, the first task whose container matches the host name
  belongs to a service that can be inspected, and that service's container image is \<open>img\<close> and
  not empty. In every other case it is an error, so no gateway is ever deployed without an
  image.
\<close>

theorem DiscoverGatewayImage_iff:
  "DiscoverGatewayImage listTasks inspect hostname = Inr img \<longleftrightarrow>
     hostname \<noteq> [] \<and> img \<noteq> [] \<and>
     (\<exists>tasks t svc cs. listTasks = Inr tasks \<and> List.find (task_matches hostname) tasks = Some t \<and>
        task_ServiceID t \<noteq> [] \<and> inspect (task_ServiceID t) = Inr svc \<and>
        ss_ContainerSpec (svc_Spec svc) = Some cs \<and> cs_Image cs = img)"
  by (auto simp: DiscoverGatewayImage_def own_service_find Let_def split: sum.splits option.splits)

end
