(* ===== verification/Headscale.thy ===== *)
theory Headscale
  imports World
begin

text \<open>
  The control-plane client, \<^verbatim>\<open>internal/tailswarm/headscale.go\<close>: resolving a user name with a
  cache, minting and expiring pre-auth keys over HTTP, and the error type.

  Arguments of the model (record \<open>henv\<close>): the HTTP client with the server behind it, which
  answers as it likes depending on what was sent before; whether \<^verbatim>\<open>http.NewRequest\<close> accepts a
  URL; the JSON decoders for the two response structs; the formatting of times; the clock.
  The cache is shared by all reconcile workers and locked only while it is read or written,
  so during a request the others may change it: \<open>he_others\<close> says how.
\<close>

section \<open>Definitions\<close>

record hrequest =
  rq_Method :: string
  rq_URL :: string
  rq_Header :: "(string \<times> string) list"
  rq_Body :: "string option"

record hresponse =
  rp_StatusCode :: int
  rp_Body :: string

type_synonym exchange = "hrequest \<times> (goerr + hresponse)"

record headscale =
  h_BaseURL :: string
  h_APIKey :: string
  h_userIDCache :: "(string, string) gomap"

text \<open>The two response structs: users are pairs of ID and name.\<close>

record preAuthKey =
  pk_ID :: string
  pk_Key :: string
  pk_Expiration :: int

record henv =
  he_newRequest :: "string \<Rightarrow> goerr option"
  he_http :: "exchange list \<Rightarrow> hrequest \<Rightarrow> goerr + hresponse"
  he_users :: "string \<Rightarrow> goerr + (string \<times> string) list"
  he_key :: "string \<Rightarrow> goerr + preAuthKey"
  he_rfc3339 :: "int \<Rightarrow> string"
  he_now :: "exchange list \<Rightarrow> int"
  he_others :: "exchange list \<Rightarrow> (string, string) gomap \<Rightarrow> (string, string) gomap"

record hstate =
  hs_client :: headscale
  hs_sent :: "exchange list"

type_synonym 'a hact = "(hstate, 'a) state"

abbreviation hret :: "'a \<Rightarrow> 'a hact" where
  "hret \<equiv> State_Monad.return"

definition dec_int :: "int \<Rightarrow> string" where
  "dec_int i = (if i < 0 then CHR ''-'' # dec (nat (- i)) else dec (nat i))"

text \<open>The methods of \<^verbatim>\<open>HeadscaleError\<close>, on its fields.\<close>

definition HeadscaleError_Error :: "int \<Rightarrow> string \<Rightarrow> string \<Rightarrow> string" where
  "HeadscaleError_Error status op body =
     (if body = [] then ''headscale: '' @ op @ '': status '' @ dec_int status
      else ''headscale: '' @ op @ '': status '' @ dec_int status @ '': '' @ body)"

definition IsClientError :: "int \<Rightarrow> bool" where
  "IsClientError status =
     (if status = 408 \<or> status = 429 then False else 400 \<le> status \<and> status < 500)"

definition IsServerError :: "int \<Rightarrow> bool" where
  "IsServerError status =
     (if status = 408 \<or> status = 429 then True else 500 \<le> status \<and> status < 600)"

definition baseURL :: "headscale \<Rightarrow> string" where
  "baseURL h = trim_right_char (CHR ''/'') (h_BaseURL h)"

text \<open>\<^verbatim>\<open>url.QueryEscape\<close>: letters, digits and \<^verbatim>\<open>-_.~\<close> stand for themselves, a space becomes a
  plus sign, every other byte a percent sign and two upper-case hexadecimal digits.\<close>

definition unreserved :: "char \<Rightarrow> bool" where
  "unreserved c \<longleftrightarrow>
     (let n = of_char c :: nat
      in (97 \<le> n \<and> n \<le> 122) \<or> (65 \<le> n \<and> n \<le> 90) \<or> (48 \<le> n \<and> n \<le> 57) \<or>
         n = 45 \<or> n = 95 \<or> n = 46 \<or> n = 126)"

definition upper_hex :: "nat \<Rightarrow> char" where
  "upper_hex n = ''0123456789ABCDEF'' ! n"

definition escape_char :: "char \<Rightarrow> string" where
  "escape_char c =
     (if c = CHR '' '' then ''+''
      else if unreserved c then [c]
      else (let n = of_char c :: nat in [CHR ''%'', upper_hex (n div 16), upper_hex (n mod 16)]))"

definition query_escape :: "string \<Rightarrow> string" where
  "query_escape s = concat (map escape_char s)"

definition nilIfEmpty :: "string list \<Rightarrow> string list option" where
  "nilIfEmpty s = (if length s = 0 then None else Some s)"

definition request_for :: "headscale \<Rightarrow> string \<Rightarrow> string \<Rightarrow> string option \<Rightarrow> hrequest" where
  "request_for h method path body =
     \<lparr>rq_Method = method, rq_URL = baseURL h @ path,
      rq_Header = [(''Authorization'', ''Bearer '' @ h_APIKey h), (''Accept'', ''application/json'')]
        @ (if body \<noteq> None then [(''Content-Type'', ''application/json'')] else []),
      rq_Body = body\<rparr>"

text \<open>One HTTP round trip: the request and its answer are recorded; meanwhile other workers may
  have written to the cache.\<close>

definition http_do :: "henv \<Rightarrow> hrequest \<Rightarrow> (goerr + hresponse) hact" where
  "http_do e req = State (\<lambda>s.
     let r = he_http e (hs_sent s) req;
         h = hs_client s
     in (r, \<lparr>hs_client = h\<lparr>h_userIDCache := he_others e (hs_sent s) (h_userIDCache h)\<rparr>,
              hs_sent = hs_sent s @ [(req, r)]\<rparr>))"

definition getClient :: "headscale hact" where
  "getClient = State (\<lambda>s. (hs_client s, s))"

definition hNow :: "henv \<Rightarrow> int hact" where
  "hNow e = State (\<lambda>s. (he_now e (hs_sent s), s))"

text \<open>The second half of \<^verbatim>\<open>do\<close>: what becomes of the answer. \<open>decode\<close> is the decoder for \<^verbatim>\<open>out\<close>; a
  call without \<^verbatim>\<open>out\<close> passes one that accepts everything.\<close>

definition read_response :: "(string \<Rightarrow> goerr + 'a) \<Rightarrow> string \<Rightarrow> goerr + hresponse \<Rightarrow> goerr + 'a" where
  "read_response decode op resp =
     (case resp of
        Inl err \<Rightarrow> Inl (ErrWrap (''headscale: '' @ op) err)
      | Inr r \<Rightarrow>
          if rp_StatusCode r < 200 \<or> 300 \<le> rp_StatusCode r
          then Inl (HeadscaleError (rp_StatusCode r) op (trim_space (take 1024 (rp_Body r))))
          else
            (case decode (rp_Body r) of
               Inl err \<Rightarrow> Inl (ErrWrap (''headscale: '' @ op @ '': decode response'') err)
             | Inr x \<Rightarrow> Inr x))"

text \<open>
  \<^verbatim>\<open>do\<close>. The body is the JSON text, which \<^verbatim>\<open>json.Marshal\<close> produces without error for the
  values the callers pass.
\<close>

definition headscale_do ::
  "henv \<Rightarrow> string \<Rightarrow> string \<Rightarrow> string option \<Rightarrow> (string \<Rightarrow> goerr + 'a) \<Rightarrow> string \<Rightarrow> (goerr + 'a) hact" where
  "headscale_do e method path body decode op =
     do {
       h \<leftarrow> getClient;
       (case he_newRequest e (baseURL h @ path) of
          Some err \<Rightarrow> hret (Inl (ErrWrap (''headscale: '' @ op @ '': build request'') err))
        | None \<Rightarrow>
            do {
              resp \<leftarrow> http_do e (request_for h method path body);
              hret (read_response decode op resp)
            })
     }"

text \<open>The loop over the users of a lookup: the first with the name and an ID.\<close>

fun find_user :: "string \<Rightarrow> (string \<times> string) list \<Rightarrow> string option" where
  "find_user name [] = None"
| "find_user name ((uid, n) # us) = (if n = name \<and> uid \<noteq> [] then Some uid else find_user name us)"

definition cachePut :: "string \<Rightarrow> string \<Rightarrow> unit hact" where
  "cachePut name uid = State (\<lambda>s.
     let h = hs_client s
     in ((), s\<lparr>hs_client := h\<lparr>h_userIDCache := gm_put name uid (h_userIDCache h)\<rparr>\<rparr>))"

definition user_path :: "string \<Rightarrow> string" where
  "user_path name = ''/api/v1/user?name='' @ query_escape name"

definition resolveUserID :: "henv \<Rightarrow> string \<Rightarrow> (goerr + string) hact" where
  "resolveUserID e name =
     do {
       h \<leftarrow> getClient;
       (case map_of (h_userIDCache h) name of
          Some uid \<Rightarrow> hret (Inr uid)
        | None \<Rightarrow>
            do {
              resp \<leftarrow> headscale_do e ''GET'' (user_path name) None (he_users e) ''lookup user'';
              (case resp of
                 Inl err \<Rightarrow> hret (Inl err)
               | Inr users \<Rightarrow>
                   (case find_user name users of
                      Some uid \<Rightarrow> do { cachePut name uid; hret (Inr uid) }
                    | None \<Rightarrow> hret (Inl (ErrNew (''headscale: user '' @ name @ '' not found'')))))
            })
     }"

definition json_bool :: "bool \<Rightarrow> string" where
  "json_bool b = (if b then ''true'' else ''false'')"

text \<open>\<^verbatim>\<open>json.Marshal\<close> of the \<^verbatim>\<open>map[string]any\<close>, whose keys come out sorted.\<close>

definition create_body :: "string \<Rightarrow> keyRequest \<Rightarrow> string \<Rightarrow> string" where
  "create_body userID req expiration =
     json_object
       [(''aclTags'', case nilIfEmpty (kr_Tags req) of None \<Rightarrow> ''null'' | Some ts \<Rightarrow> json_array (map json_string ts)),
        (''ephemeral'', json_bool (kr_Ephemeral req)),
        (''expiration'', json_string expiration),
        (''reusable'', json_bool (kr_Reusable req)),
        (''user'', json_string userID)]"

text \<open>Times count nanoseconds from the zero time, so \<^verbatim>\<open>IsZero\<close> is equality with \<open>0\<close>.\<close>

definition headscale_CreateEphemeralKey :: "henv \<Rightarrow> keyRequest \<Rightarrow> (goerr + key) hact" where
  "headscale_CreateEphemeralKey e req =
     (if kr_User req = [] then hret (Inl (ErrNew ''headscale: KeyRequest.User is empty''))
      else
        do {
          u \<leftarrow> resolveUserID e (kr_User req);
          (case u of
             Inl err \<Rightarrow> hret (Inl err)
           | Inr userID \<Rightarrow>
               do {
                 now \<leftarrow> hNow e;
                 let expiration = now + sint (kr_Expiration req);
                 resp \<leftarrow> headscale_do e ''POST'' ''/api/v1/preauthkey''
                   (Some (create_body userID req (he_rfc3339 e expiration))) (he_key e) ''create preauthkey'';
                 (case resp of
                    Inl err \<Rightarrow> hret (Inl err)
                  | Inr k \<Rightarrow>
                      if pk_Key k = []
                      then hret (Inl (ErrNew ''headscale: create preauthkey: empty key in response''))
                      else hret (Inr \<lparr>key_ID = pk_ID k, key_Secret = pk_Key k,
                        key_ExpiresAt = (if pk_Expiration k = 0 then expiration else pk_Expiration k)\<rparr>))
               })
        })"

definition headscale_ExpireKey :: "henv \<Rightarrow> string \<Rightarrow> goerr option hact" where
  "headscale_ExpireKey e keyID =
     (if keyID = [] then hret (Some (ErrNew ''headscale: keyID is empty''))
      else
        do {
          r \<leftarrow> headscale_do e ''POST'' ''/api/v1/preauthkey/expire''
            (Some (json_object [(''id'', json_string keyID)])) (\<lambda>_. Inr ()) ''expire preauthkey'';
          hret (case r of Inl err \<Rightarrow> Some err | Inr _ \<Rightarrow> None)
        })"

subsection \<open>As the reconciler's controller\<close>

text \<open>The client's state after the calls in a trace of the reconciler, and the environment whose
  \<^verbatim>\<open>Controller\<close> is this client.\<close>

definition replay_event :: "henv \<Rightarrow> event \<Rightarrow> hstate \<Rightarrow> hstate" where
  "replay_event e ev s =
     (case ev of
        EvMint req _ \<Rightarrow> snd (run_state (headscale_CreateEphemeralKey e req) s)
      | EvExpire k _ \<Rightarrow> snd (run_state (headscale_ExpireKey e k) s)
      | _ \<Rightarrow> s)"

definition replay :: "henv \<Rightarrow> headscale \<Rightarrow> trace \<Rightarrow> hstate" where
  "replay e h tr = fold (replay_event e) tr \<lparr>hs_client = h, hs_sent = []\<rparr>"

definition headscale_env :: "henv \<Rightarrow> headscale \<Rightarrow> env \<Rightarrow> env" where
  "headscale_env he h e =
     e\<lparr>env_mint := (\<lambda>tr req. fst (run_state (headscale_CreateEphemeralKey he req) (replay he h tr))),
       env_expire := (\<lambda>tr k. fst (run_state (headscale_ExpireKey he k) (replay he h tr)))\<rparr>"

section \<open>Running the operations\<close>

named_theorems hruns \<open>evaluation of the client's primitive actions\<close>

lemma run_getClient [hruns]: "run_state getClient s = (hs_client s, s)"
  by (simp add: getClient_def)

lemma run_hNow [hruns]: "run_state (hNow e) s = (he_now e (hs_sent s), s)"
  by (simp add: hNow_def)

text \<open>The state after a round trip.\<close>

definition after_http :: "henv \<Rightarrow> hrequest \<Rightarrow> hstate \<Rightarrow> hstate" where
  "after_http e req s =
     \<lparr>hs_client = (hs_client s)\<lparr>h_userIDCache := he_others e (hs_sent s) (h_userIDCache (hs_client s))\<rparr>,
      hs_sent = hs_sent s @ [(req, he_http e (hs_sent s) req)]\<rparr>"

lemma after_http_simps [simp]:
  "hs_sent (after_http e req s) = hs_sent s @ [(req, he_http e (hs_sent s) req)]"
  "h_userIDCache (hs_client (after_http e req s)) = he_others e (hs_sent s) (h_userIDCache (hs_client s))"
  "h_BaseURL (hs_client (after_http e req s)) = h_BaseURL (hs_client s)"
  "h_APIKey (hs_client (after_http e req s)) = h_APIKey (hs_client s)"
  by (simp_all add: after_http_def)

lemma run_headscale_do [hruns]:
  "run_state (headscale_do e m p b decode op) s =
     (case he_newRequest e (baseURL (hs_client s) @ p) of
        Some err \<Rightarrow> (Inl (ErrWrap (''headscale: '' @ op @ '': build request'') err), s)
      | None \<Rightarrow>
          (read_response decode op (he_http e (hs_sent s) (request_for (hs_client s) m p b)),
           after_http e (request_for (hs_client s) m p b) s))"
  by (simp add: headscale_do_def hruns http_do_def after_http_def Let_def split: option.splits)

lemma run_cachePut [hruns]:
  "run_state (cachePut n u) s =
     ((), s\<lparr>hs_client := (hs_client s)\<lparr>h_userIDCache := gm_put n u (h_userIDCache (hs_client s))\<rparr>\<rparr>)"
  by (simp add: cachePut_def Let_def)

text \<open>No operation touches the client's configuration, and the log of exchanges only grows.\<close>

definition hframe :: "hstate \<Rightarrow> hstate \<Rightarrow> bool" where
  "hframe s t \<longleftrightarrow>
     h_BaseURL (hs_client t) = h_BaseURL (hs_client s) \<and> h_APIKey (hs_client t) = h_APIKey (hs_client s) \<and>
     (\<exists>es. hs_sent t = hs_sent s @ es)"

interpretation hf: state_rel hframe
  by unfold_locales (auto simp: hframe_def)

lemma hframe_do: "hf.keeps (headscale_do e m p b decode op)"
  by (auto simp: hf.keeps_def hframe_def hruns split: option.splits)

lemma hframe_cachePut: "hf.keeps (cachePut n u)"
  by (auto simp: hf.keeps_def hframe_def hruns)

lemma hframe_reads: "hf.keeps getClient" "hf.keeps (hNow e)"
  by (auto simp: hf.keeps_def hframe_def hruns)

lemma hframe_resolve: "hf.keeps (resolveUserID e name)"
  unfolding resolveUserID_def
  by (intro hf.keeps_structure hframe_do hframe_cachePut hframe_reads)

lemma hframe_create: "hf.keeps (headscale_CreateEphemeralKey e req)"
  unfolding headscale_CreateEphemeralKey_def Let_def
  by (intro hf.keeps_structure hframe_do hframe_resolve hframe_reads)

lemma hframe_expire: "hf.keeps (headscale_ExpireKey e k)"
  unfolding headscale_ExpireKey_def by (intro hf.keeps_structure hframe_do)

section \<open>Escaping\<close>

definition hex_val :: "char \<Rightarrow> nat" where
  "hex_val c = (let n = of_char c in if n \<le> 57 then n - 48 else n - 55)"

text \<open>\<^verbatim>\<open>url.QueryUnescape\<close> on what \<^verbatim>\<open>QueryEscape\<close> writes.\<close>

fun query_unescape :: "string \<Rightarrow> string" where
  "query_unescape [] = []"
| "query_unescape (c # cs) =
     (if c = CHR ''+'' then CHR '' '' # query_unescape cs
      else if c = CHR ''%'' then
        (case cs of a # b # cs' \<Rightarrow> char_of (16 * hex_val a + hex_val b) # query_unescape cs' | _ \<Rightarrow> [])
      else c # query_unescape cs)"

lemma hex_val_upper: "n < 16 \<Longrightarrow> hex_val (upper_hex n) = n"
proof -
  have "\<forall>n \<in> set [0..<16]. hex_val (upper_hex n) = n" by code_simp
  then show "n < 16 \<Longrightarrow> hex_val (upper_hex n) = n" by simp
qed

lemma unescape_escape_char: "query_unescape (escape_char c @ s) = c # query_unescape s"
proof -
  let ?n = "of_char c :: nat"
  have "?n div 16 < 16" by (rule less_mult_imp_div_less) simp
  then have digits: "hex_val (upper_hex (?n div 16)) = ?n div 16" "hex_val (upper_hex (?n mod 16)) = ?n mod 16"
    by (simp_all add: hex_val_upper)
  have "char_of (16 * (?n div 16) + ?n mod 16) = c" by (metis char_of_char mult_div_mod_eq)
  moreover have "unreserved c \<Longrightarrow> c \<noteq> CHR ''+'' \<and> c \<noteq> CHR ''%''" by (auto simp: unreserved_def)
  ultimately show ?thesis by (simp add: escape_char_def Let_def digits)
qed

lemma query_unescape_escape: "query_unescape (query_escape s) = s"
  by (induction s) (simp_all add: query_escape_def unescape_escape_char)

section \<open>The user cache\<close>

text \<open>
  What the client relies on. \<open>good n u\<close> says that the server has a user named \<open>n\<close> with ID \<open>u\<close>.
  A truthful server lists only such pairs; the other workers run the same code, so they put
  only such pairs into the cache.
\<close>

type_synonym directory = "string \<Rightarrow> string \<Rightarrow> bool"

definition truthful :: "directory \<Rightarrow> henv \<Rightarrow> bool" where
  "truthful good e \<longleftrightarrow>
     (\<forall>sent req r us. he_http e sent req = Inr r \<and> he_users e (rp_Body r) = Inr us \<longrightarrow>
        (\<forall>(uid, n) \<in> set us. uid \<noteq> [] \<longrightarrow> good n uid))"

definition sound :: "directory \<Rightarrow> (string, string) gomap \<Rightarrow> bool" where
  "sound good cache \<longleftrightarrow> (\<forall>n uid. map_of cache n = Some uid \<longrightarrow> good n uid)"

definition others_sound :: "directory \<Rightarrow> henv \<Rightarrow> bool" where
  "others_sound good e \<longleftrightarrow> (\<forall>sent c. sound good c \<longrightarrow> sound good (he_others e sent c))"

abbreviation cache_of :: "hstate \<Rightarrow> (string, string) gomap" where
  "cache_of s \<equiv> h_userIDCache (hs_client s)"

lemma find_user_Some: "find_user name us = Some uid \<Longrightarrow> (uid, name) \<in> set us \<and> uid \<noteq> []"
  by (induction us) (auto split: if_splits)

lemma sound_put: "sound good c \<Longrightarrow> good n u \<Longrightarrow> sound good (gm_put n u c)"
  by (simp add: sound_def update_conv')

lemma read_response_Inr:
  "read_response decode op resp = Inr x \<Longrightarrow>
     \<exists>r. resp = Inr r \<and> decode (rp_Body r) = Inr x \<and> 200 \<le> rp_StatusCode r \<and> rp_StatusCode r < 300"
  by (auto simp: read_response_def split: sum.splits if_splits)

lemma do_keeps_sound:
  assumes "run_state (headscale_do e m p b decode op) s = (res, t)" and "others_sound good e"
    and "sound good (cache_of s)"
  shows "sound good (cache_of t)"
  using assms by (auto simp: hruns others_sound_def split: option.splits)

text \<open>Resolving a name: a cached ID is used without a request; otherwise at most one lookup is
  sent. The ID is right and the cache stays sound.\<close>

lemma resolveUserID_run:
  assumes R: "run_state (resolveUserID e name) s = (res, t)"
    and "truthful good e" and "others_sound good e" and "sound good (cache_of s)"
  shows "sound good (cache_of t) \<and> (\<forall>uid. res = Inr uid \<longrightarrow> good name uid) \<and>
    (\<exists>es. hs_sent t = hs_sent s @ es \<and> length es \<le> 1 \<and> (\<forall>(rq, _) \<in> set es. rq_Method rq = ''GET'') \<and>
      (map_of (cache_of s) name \<noteq> None \<longrightarrow> es = []))"
proof (cases "map_of (cache_of s) name")
  case (Some uid)
  with assms show ?thesis by (auto simp: resolveUserID_def hruns sound_def)
next
  case None
  show ?thesis
  proof (cases "he_newRequest e (baseURL (hs_client s) @ user_path name)")
    case (Some err)
    with None assms show ?thesis by (auto simp: resolveUserID_def hruns)
  next
    case sent: None
    let ?rq = "request_for (hs_client s) ''GET'' (user_path name) None"
    have s1: "sound good (cache_of (after_http e ?rq s))" using assms(3,4) by (simp add: others_sound_def)
    show ?thesis
    proof (cases "read_response (he_users e) ''lookup user'' (he_http e (hs_sent s) ?rq)")
      case (Inl err)
      with None sent R s1 show ?thesis by (auto simp: resolveUserID_def hruns request_for_def)
    next
      case (Inr us)
      have "good name uid" if "find_user name us = Some uid" for uid
        using find_user_Some [OF that] read_response_Inr [OF Inr] assms(2) unfolding truthful_def by fast
      with None sent R s1 Inr show ?thesis
        by (auto simp: resolveUserID_def hruns request_for_def intro: sound_put split: option.splits)
    qed
  qed
qed

lemma request_for_frame: "hframe s t \<Longrightarrow> request_for (hs_client t) = request_for (hs_client s)"
  by (rule ext)+ (simp add: hframe_def request_for_def baseURL_def)

section \<open>Properties\<close>

definition create_request :: "henv \<Rightarrow> headscale \<Rightarrow> keyRequest \<Rightarrow> string \<Rightarrow> int \<Rightarrow> hrequest" where
  "create_request e h req uid now =
     request_for h ''POST'' ''/api/v1/preauthkey''
       (Some (create_body uid req (he_rfc3339 e (now + sint (kr_Expiration req)))))"

text \<open>The part of \<^verbatim>\<open>CreateEphemeralKey\<close> after the user ID is known.\<close>

lemma create_run:
  assumes "run_state (resolveUserID e (kr_User req)) s = (Inr uid, t1)" and "kr_User req \<noteq> []"
    and "run_state (headscale_CreateEphemeralKey e req) s = (res, t)"
  shows "(t = t1 \<and> isl res) \<or>
    (\<exists>ans. t = after_http e (create_request e (hs_client s) req uid (he_now e (hs_sent t1))) t1 \<and>
      hs_sent t = hs_sent t1 @ [(create_request e (hs_client s) req uid (he_now e (hs_sent t1)), ans)] \<and>
      (\<forall>k. res = Inr k \<longrightarrow> (\<exists>r pk. ans = Inr r \<and> 200 \<le> rp_StatusCode r \<and> rp_StatusCode r < 300 \<and>
         he_key e (rp_Body r) = Inr pk \<and> pk_Key pk \<noteq> [] \<and> key_ID k = pk_ID pk \<and> key_Secret k = pk_Key pk)))"
proof -
  have "request_for (hs_client t1) = request_for (hs_client s)"
    using hf.keepsD [OF hframe_resolve assms(1)] by (rule request_for_frame)
  with assms show ?thesis
    by (auto simp: headscale_CreateEphemeralKey_def hruns create_request_def Let_def
        dest!: read_response_Inr split: option.splits sum.splits if_splits)
qed

lemma mint_run:
  assumes "run_state (headscale_CreateEphemeralKey e req) s = (res, t)"
    and "truthful good e" and "others_sound good e" and "sound good (cache_of s)"
  shows "sound good (cache_of t) \<and>
    (\<exists>es. hs_sent t = hs_sent s @ es \<and> length es \<le> 2 \<and>
       (\<forall>(rq, _) \<in> set es. rq_Method rq = ''POST'' \<longrightarrow>
          (\<exists>uid now. good (kr_User req) uid \<and> rq = create_request e (hs_client s) req uid now)) \<and>
       (\<forall>k. res = Inr k \<longrightarrow> key_Secret k \<noteq> [] \<and> es \<noteq> [] \<and>
          (\<exists>r pk. snd (last es) = Inr r \<and> 200 \<le> rp_StatusCode r \<and> rp_StatusCode r < 300 \<and>
             he_key e (rp_Body r) = Inr pk \<and> key_ID k = pk_ID pk \<and> key_Secret k = pk_Key pk)))"
proof (cases "kr_User req = []")
  case True
  with assms show ?thesis by (auto simp: headscale_CreateEphemeralKey_def)
next
  case False
  obtain u t1 where U: "run_state (resolveUserID e (kr_User req)) s = (u, t1)" by fastforce
  note ur = resolveUserID_run [OF U assms(2-4)]
  then obtain es where es: "hs_sent t1 = hs_sent s @ es" "length es \<le> 1"
    "\<forall>(rq, _) \<in> set es. rq_Method rq = ''GET''" by blast
  show ?thesis
  proof (cases u)
    case (Inl err)
    with assms(1) U False ur es show ?thesis by (fastforce simp: headscale_CreateEphemeralKey_def)
  next
    case (Inr uid)
    with ur have g: "good (kr_User req) uid" and snd1: "sound good (cache_of t1)" by auto
    let ?rq = "create_request e (hs_client s) req uid (he_now e (hs_sent t1))"
    from create_run [OF U [unfolded Inr] False assms(1)] show ?thesis
    proof (elim disjE exE conjE)
      assume "t = t1" "isl res"
      with es snd1 show ?thesis by (fastforce simp: isl_def)
    next
      fix ans assume t: "t = after_http e ?rq t1" "hs_sent t = hs_sent t1 @ [(?rq, ans)]"
        and k: "\<forall>k. res = Inr k \<longrightarrow> (\<exists>r pk. ans = Inr r \<and> 200 \<le> rp_StatusCode r \<and> rp_StatusCode r < 300 \<and>
         he_key e (rp_Body r) = Inr pk \<and> pk_Key pk \<noteq> [] \<and> key_ID k = pk_ID pk \<and> key_Secret k = pk_Key pk)"
      have "sound good (cache_of t)" using t(1) snd1 assms(3) by (simp add: others_sound_def)
      moreover have "hs_sent t = hs_sent s @ (es @ [(?rq, ans)])" using t(2) es by simp
      moreover have "\<forall>(rq, _) \<in> set (es @ [(?rq, ans)]). rq_Method rq = ''POST'' \<longrightarrow>
          (\<exists>uid now. good (kr_User req) uid \<and> rq = create_request e (hs_client s) req uid now)"
        using es(3) g by fastforce
      ultimately show ?thesis using es(2) k by (intro conjI exI [of _ "es @ [(?rq, ans)]"]) fastforce+
    qed
  qed
qed

text \<open>Requests that create a key.\<close>

definition creates_key :: "headscale \<Rightarrow> hrequest \<Rightarrow> bool" where
  "creates_key h rq \<longleftrightarrow> rq_Method rq = ''POST'' \<and> rq_URL rq = baseURL h @ ''/api/v1/preauthkey''"

lemma expire_run:
  assumes "run_state (headscale_ExpireKey e k) s = (res, t)" and "others_sound good e" and "sound good (cache_of s)"
  shows "sound good (cache_of t) \<and>
    (\<exists>es. hs_sent t = hs_sent s @ es \<and> (\<forall>(rq, _) \<in> set es. \<not> creates_key (hs_client s) rq))"
  using assms
  by (auto simp: headscale_ExpireKey_def hruns others_sound_def creates_key_def request_for_def
      split: if_splits option.splits)

text \<open>What a step of the replay puts on the wire.\<close>

definition wire_ok :: "henv \<Rightarrow> directory \<Rightarrow> headscale \<Rightarrow> event set \<Rightarrow> hrequest \<Rightarrow> bool" where
  "wire_ok e good h evs rq \<longleftrightarrow> (creates_key h rq \<longrightarrow>
     (\<exists>req res uid now. EvMint req res \<in> evs \<and> good (kr_User req) uid \<and> rq = create_request e h req uid now))"

lemma creates_key_frame: "hframe s t \<Longrightarrow> creates_key (hs_client t) = creates_key (hs_client s)"
  by (rule ext) (simp add: hframe_def creates_key_def baseURL_def)

lemma wire_ok_frame: "hframe s t \<Longrightarrow> wire_ok e good (hs_client t) evs rq = wire_ok e good (hs_client s) evs rq"
  by (simp add: wire_ok_def creates_key_frame create_request_def request_for_frame)

lemma replay_event_run:
  assumes "truthful good e" and "others_sound good e" and "sound good (cache_of s)"
  shows "hframe s (replay_event e ev s) \<and> sound good (cache_of (replay_event e ev s)) \<and>
    (\<exists>es. hs_sent (replay_event e ev s) = hs_sent s @ es \<and>
      (\<forall>(rq, _) \<in> set es. wire_ok e good (hs_client s) {ev} rq))"
proof (cases ev)
  case (EvMint req r)
  let ?m = "headscale_CreateEphemeralKey e req"
  have run: "run_state ?m s = (fst (run_state ?m s), snd (run_state ?m s))" by simp
  show ?thesis
    using mint_run [OF run assms] hf.keepsD [OF hframe_create run] EvMint
    by (fastforce simp: replay_event_def wire_ok_def creates_key_def)
next
  case (EvExpire k r)
  let ?m = "headscale_ExpireKey e k"
  have run: "run_state ?m s = (fst (run_state ?m s), snd (run_state ?m s))" by simp
  show ?thesis
    using expire_run [OF run assms(2,3)] hf.keepsD [OF hframe_expire run] EvExpire
    by (fastforce simp: replay_event_def wire_ok_def)
qed (use assms(3) hf.rel_refl in \<open>simp_all add: replay_event_def\<close>)

lemma replay_fold:
  assumes "truthful good e" and "others_sound good e" and "sound good (cache_of s)"
  shows "hframe s (fold (replay_event e) evs s) \<and> sound good (cache_of (fold (replay_event e) evs s)) \<and>
    (\<exists>es. hs_sent (fold (replay_event e) evs s) = hs_sent s @ es \<and>
      (\<forall>(rq, _) \<in> set es. wire_ok e good (hs_client s) (set evs) rq))"
  using assms(3)
proof (induction evs arbitrary: s)
  case Nil
  then show ?case by (simp add: hf.rel_refl)
next
  case (Cons ev evs)
  let ?s1 = "replay_event e ev s"
  from replay_event_run [OF assms(1,2) Cons.prems, of ev] obtain es1 where
    1: "hframe s ?s1" "sound good (cache_of ?s1)" "hs_sent ?s1 = hs_sent s @ es1"
      "\<forall>(rq, _) \<in> set es1. wire_ok e good (hs_client s) {ev} rq" by blast
  from Cons.IH [OF 1(2)] obtain es2 where
    2: "hframe ?s1 (fold (replay_event e) evs ?s1)" "sound good (cache_of (fold (replay_event e) evs ?s1))"
      "hs_sent (fold (replay_event e) evs ?s1) = hs_sent ?s1 @ es2"
      "\<forall>(rq, _) \<in> set es2. wire_ok e good (hs_client s) (set evs) rq"
    using wire_ok_frame [OF 1(1)] by auto
  have mono: "wire_ok e good (hs_client s) A rq \<Longrightarrow> A \<subseteq> B \<Longrightarrow> wire_ok e good (hs_client s) B rq" for A B rq
    unfolding wire_ok_def by blast
  have "wire_ok e good (hs_client s) {ev} rq \<Longrightarrow> wire_ok e good (hs_client s) (set (ev # evs)) rq"
    and "wire_ok e good (hs_client s) (set evs) rq \<Longrightarrow> wire_ok e good (hs_client s) (set (ev # evs)) rq" for rq
    by (erule mono, auto)+
  then have "\<forall>(rq, _) \<in> set (es1 @ es2). wire_ok e good (hs_client s) (set (ev # evs)) rq"
    using 1(4) 2(4) unfolding set_append by blast
  moreover have "hs_sent (fold (replay_event e) (ev # evs) s) = hs_sent s @ (es1 @ es2)"
    using 1(3) 2(3) by simp
  ultimately show ?case using hf.rel_trans [OF 1(1) 2(1)] 2(2) by auto
qed

text \<open>
  C18: keys are minted for the configured user only. With a server that lists its users
  truthfully, and whatever the other workers sharing the cache do, minting keeps the cache
  right and sends at most two requests; every creation request is for an ID of the requested
  user and carries the tags and flags of the request and the API key; and a key that is
  returned has a secret and is the one of the server's successful answer to the last request.
\<close>

theorem headscale_mints_for_user:
  assumes "run_state (headscale_CreateEphemeralKey e req) s = (res, t)"
    and "truthful good e" and "others_sound good e" and "sound good (cache_of s)"
  shows "sound good (cache_of t) \<and>
    (\<exists>es. hs_sent t = hs_sent s @ es \<and> length es \<le> 2 \<and>
       (\<forall>(rq, _) \<in> set es. rq_Method rq = ''POST'' \<longrightarrow>
          (\<exists>uid now. good (kr_User req) uid \<and> rq = create_request e (hs_client s) req uid now)) \<and>
       (\<forall>k. res = Inr k \<longrightarrow> key_Secret k \<noteq> [] \<and> es \<noteq> [] \<and>
          (\<exists>r pk. snd (last es) = Inr r \<and> 200 \<le> rp_StatusCode r \<and> rp_StatusCode r < 300 \<and>
             he_key e (rp_Body r) = Inr pk \<and> key_ID k = pk_ID pk \<and> key_Secret k = pk_Key pk)))"
  using assms by (rule mint_run)

definition demo_henv :: henv where
  "demo_henv =
     \<lparr>he_newRequest = (\<lambda>_. None), he_http = (\<lambda>_ _. Inr \<lparr>rp_StatusCode = 200, rp_Body = ''{}''\<rparr>),
      he_users = (\<lambda>_. Inr [(''7'', ''swarm'')]),
      he_key = (\<lambda>_. Inr \<lparr>pk_ID = ''9'', pk_Key = ''secret'', pk_Expiration = 0\<rparr>),
      he_rfc3339 = (\<lambda>_. ''2026-01-01T00:00:00Z''), he_now = (\<lambda>_. 0), he_others = (\<lambda>_ c. c)\<rparr>"

definition demo_hstate :: hstate where
  "demo_hstate =
     \<lparr>hs_client = \<lparr>h_BaseURL = ''https://hs/'', h_APIKey = ''api'', h_userIDCache = []\<rparr>, hs_sent = []\<rparr>"

definition demo_keyRequest :: keyRequest where
  "demo_keyRequest =
     \<lparr>kr_User = ''swarm'', kr_Tags = [''tag:a''], kr_Ephemeral = True, kr_Reusable = False, kr_Expiration = 300\<rparr>"

theorem headscale_mints_for_user_witness:
  "map_of (cache_of (snd (run_state (headscale_CreateEphemeralKey demo_henv demo_keyRequest) demo_hstate))) ''swarm''
     = Some ''7'' \<and>
   key_Secret (projr (fst (run_state (headscale_CreateEphemeralKey demo_henv demo_keyRequest) demo_hstate))) \<noteq> []"
proof -
  let ?good = "\<lambda>n u. n = ''swarm'' \<and> u = ''7''"
  let ?run = "run_state (headscale_CreateEphemeralKey demo_henv demo_keyRequest) demo_hstate"
  have h: "truthful ?good demo_henv" "others_sound ?good demo_henv" "sound ?good (cache_of demo_hstate)"
    by (simp_all add: truthful_def others_sound_def sound_def demo_henv_def demo_hstate_def)
  have "map_of (cache_of (snd ?run)) ''swarm'' \<noteq> None" "fst ?run = Inr (projr (fst ?run))"
    by (simp_all add: headscale_CreateEphemeralKey_def resolveUserID_def hruns demo_henv_def demo_hstate_def
        demo_keyRequest_def read_response_def Let_def)
  with headscale_mints_for_user [OF _ h, of demo_keyRequest "fst ?run" "snd ?run"] show ?thesis
    by (auto simp: sound_def)
qed

text \<open>
  How a request can end. When the server answers, a status outside 200 to 299 gives a
  \<^verbatim>\<open>HeadscaleError\<close> with that status, the operation and at most 1024 bytes of the body, and for
  the statuses 400 to 599 exactly one of \<^verbatim>\<open>IsClientError\<close> and \<^verbatim>\<open>IsServerError\<close> holds, request
  timeout and too many requests counting as retryable; any other error is the decoder's. No
  request is sent when it cannot be built.
\<close>

theorem headscale_do_outcome:
  assumes "run_state (headscale_do e m p b decode op) s = (res, t)"
  shows "case he_newRequest e (baseURL (hs_client s) @ p) of
      Some err \<Rightarrow> t = s \<and> isl res
    | None \<Rightarrow> hs_sent t = hs_sent s @ [(request_for (hs_client s) m p b, snd (last (hs_sent t)))] \<and>
       (case snd (last (hs_sent t)) of
          Inl err \<Rightarrow> res = Inl (ErrWrap (''headscale: '' @ op) err)
        | Inr r \<Rightarrow> let st = rp_StatusCode r in
            if 200 \<le> st \<and> st < 300 then isl res \<longleftrightarrow> isl (decode (rp_Body r))
            else \<exists>body. res = Inl (HeadscaleError st op body) \<and> length body \<le> 1024 \<and>
              (IsClientError st \<longleftrightarrow> 400 \<le> st \<and> st < 500 \<and> \<not> IsServerError st) \<and>
              (IsServerError st \<longleftrightarrow> (500 \<le> st \<and> st < 600) \<or> st = 408 \<or> st = 429))"
proof -
  have "length (trim_space (take 1024 x)) \<le> 1024" for x
    using length_trim_space [of "take 1024 x"] by simp
  then show ?thesis
    using assms by (auto simp: hruns read_response_def IsClientError_def IsServerError_def Let_def
        split: option.splits sum.splits if_splits)
qed

theorem headscale_do_outcome_witness:
  "fst (run_state (headscale_do (demo_henv\<lparr>he_http := (\<lambda>_ _. Inr \<lparr>rp_StatusCode = 429, rp_Body = ''slow down''\<rparr>)\<rparr>)
      ''GET'' ''/x'' None (\<lambda>_. Inr ()) ''op'') demo_hstate) \<noteq> Inr () \<and> IsServerError 429 \<and> \<not> IsClientError 429"
proof -
  let ?e = "demo_henv\<lparr>he_http := (\<lambda>_ _. Inr \<lparr>rp_StatusCode = 429, rp_Body = ''slow down''\<rparr>)\<rparr>"
  let ?run = "run_state (headscale_do ?e ''GET'' ''/x'' None (\<lambda>_. Inr ()) ''op'') demo_hstate"
  have "he_newRequest ?e (baseURL (hs_client demo_hstate) @ ''/x'') = None"
    "snd (last (hs_sent (snd ?run))) = Inr \<lparr>rp_StatusCode = 429, rp_Body = ''slow down''\<rparr>"
    by (simp_all add: demo_henv_def hruns)
  with headscale_do_outcome [of ?e "''GET''" "''/x''" None "\<lambda>_. Inr ()" "''op''" demo_hstate "fst ?run" "snd ?run"]
  show ?thesis by (auto simp: Let_def)
qed

text \<open>
  The user lookup is unambiguous. The escaped name contains no byte with a meaning in a
  URL, decoding it gives the name back, and different names give different lookup paths.
\<close>

theorem user_lookup_roundtrip:
  "query_unescape (query_escape name) = name \<and>
   list_all (\<lambda>c. unreserved c \<or> c = CHR ''+'' \<or> c = CHR ''%'') (query_escape name) \<and>
   (user_path name = user_path name' \<longleftrightarrow> name = name')"
proof -
  have digit: "unreserved (upper_hex n)" if "n < 16" for n
  proof -
    have "list_all (\<lambda>n. unreserved (upper_hex n)) [0..<16]" by code_simp
    with that show ?thesis by (simp add: list_all_iff)
  qed
  have "(of_char c :: nat) div 16 < 16" for c :: char by (rule less_mult_imp_div_less) simp
  with digit have "list_all (\<lambda>c. unreserved c \<or> c = CHR ''+'' \<or> c = CHR ''%'') (escape_char c)" for c
    by (auto simp: escape_char_def Let_def)
  then have "list_all (\<lambda>c. unreserved c \<or> c = CHR ''+'' \<or> c = CHR ''%'') (query_escape name)"
    by (induction name) (simp_all add: query_escape_def)
  moreover have "query_escape a = query_escape b \<longleftrightarrow> a = b" for a b
    by (metis query_unescape_escape)
  ultimately show ?thesis by (simp add: query_unescape_escape user_path_def)
qed

end
