(* ===== verification/Egress.thy ===== *)
theory Egress
  imports Proxy Egress_Gateway
begin

text \<open>
  The egress data plane: \<^verbatim>\<open>internal/tailswarm/egress.go\<close> and the entry point of gateway mode,
  \<^verbatim>\<open>internal/tailswarm/gateway_run.go\<close>. A gateway owns a tsnet server like a proxy does, but
  listens on the overlay and dials out to the tailnet. As in theory \<open>Proxy\<close>, the answers of
  the server and of the host's network stack are arguments, and what the code does to them
  is a list of actions.
\<close>

section \<open>Definitions\<close>

record egressConfig =
  ec_Hostname :: string
  ec_AuthKey :: string
  ec_Targets :: "egressTarget list"
  ec_StateDir :: string
  ec_LoginURL :: string
  ec_Tags :: "string list"

text \<open>A \<^verbatim>\<open>*EgressProxy\<close>: pointer identity and configuration.\<close>

record egressProxy =
  ep_ref :: nat
  ep_cfg :: egressConfig

text \<open>\<^verbatim>\<open>listenOverlay\<close> binds the target's port on every address of the container.\<close>

definition listenOverlay :: "(string \<Rightarrow> goerr option) \<Rightarrow> egressTarget \<Rightarrow> goerr option" where
  "listenOverlay net_listen t = net_listen ('':'' @ dec (unat (et_Port t)))"

definition tailnetDialer :: "string \<Rightarrow> dialFunc" where
  "tailnetDialer a = \<lparr>df_via = Tailnet, df_network = ''tcp'', df_addr = a\<rparr>"

text \<open>
  The loop of \<^verbatim>\<open>startEgressProxyWith\<close>, with \<open>listen\<close> for its parameter of that name. Every
  listener gets two goroutines: one that closes it on cancellation, and its accept loop.
\<close>

fun egress_listen_loop ::
  "(egressTarget \<Rightarrow> goerr option) \<Rightarrow> egressTarget list \<Rightarrow> net_action list \<times> goerr option" where
  "egress_listen_loop listen [] = ([], None)"
| "egress_listen_loop listen (t # ts) =
     (let a = '':'' @ dec (unat (et_Port t))
      in case listen t of
           Some e \<Rightarrow> ([ActListen a, ActCancel, ActCloseServer], Some (ErrWrap (''listen overlay '' @ addr t) e))
         | None \<Rightarrow>
             (case egress_listen_loop listen ts of
                (acts, r) \<Rightarrow> (ActListen a # ActCloseOnCancel a # ActAccept (tailnetDialer (addr t)) # acts, r)))"

definition startEgressProxyWith ::
  "(egressTarget \<Rightarrow> goerr option) \<Rightarrow> nat \<Rightarrow> egressConfig \<Rightarrow> net_action list \<times> (goerr + egressProxy)" where
  "startEgressProxyWith listen ref cfg =
     (case egress_listen_loop listen (ec_Targets cfg) of
        (acts, Some e) \<Rightarrow> (acts, Inl e)
      | (acts, None) \<Rightarrow> (acts, Inr \<lparr>ep_ref = ref, ep_cfg = cfg\<rparr>))"

definition startEgressProxyOn ::
  "(string \<Rightarrow> goerr option) \<Rightarrow> nat \<Rightarrow> egressConfig \<Rightarrow> net_action list \<times> (goerr + egressProxy)" where
  "startEgressProxyOn net_listen ref cfg = startEgressProxyWith (listenOverlay net_listen) ref cfg"

definition NewTsnetEgressProxy ::
  "(tsnetServer \<Rightarrow> start_outcome) \<Rightarrow> (string \<Rightarrow> string \<Rightarrow> string) \<Rightarrow> (string \<Rightarrow> goerr option) \<Rightarrow> nat
     \<Rightarrow> egressConfig \<Rightarrow> net_action list \<times> (goerr + egressProxy)" where
  "NewTsnetEgressProxy start join net_listen ref cfg =
     (if ec_Hostname cfg = [] then ([], Inl (ErrNew ''tailswarm: EgressConfig.Hostname is empty''))
      else if ec_Targets cfg = [] then ([], Inl (ErrNew ''tailswarm: EgressConfig.Targets is empty''))
      else if ec_StateDir cfg = [] then ([], Inl (ErrNew ''tailswarm: EgressConfig.StateDir is empty''))
      else
        (let srv = server_for join (ec_Hostname cfg) (ec_AuthKey cfg) (ec_StateDir cfg) (ec_LoginURL cfg)
         in case startTsnetBounded (start srv) (ec_Hostname cfg) of
              (acts, Some e) \<Rightarrow> (acts, Inl e)
            | (acts, None) \<Rightarrow>
                (case startEgressProxyOn net_listen ref cfg of (acts', r) \<Rightarrow> (acts @ acts', r))))"

definition egress_Close :: "goerr option \<Rightarrow> net_action list \<times> goerr option" where
  "egress_Close closeErr = ([ActCancel, ActCloseServer, ActJoin], closeErr)"

text \<open>The configuration \<^verbatim>\<open>RunGateway\<close> reads from its environment, given the parsed targets.\<close>

definition gateway_config :: "(string \<Rightarrow> string) \<Rightarrow> egressTarget list \<Rightarrow> egressConfig" where
  "gateway_config env targets =
     (let tag = env envGatewayTag
      in \<lparr>ec_Hostname = env envGatewayHostname, ec_AuthKey = env envGatewayAuthKey, ec_Targets = targets,
          ec_StateDir = env envStateDir, ec_LoginURL = env envHeadscaleURL,
          ec_Tags = (if tag \<noteq> [] then [tag] else [])\<rparr>)"

text \<open>
  \<^verbatim>\<open>RunGateway\<close>: parse the contract, bring the proxy up, wait for the cancellation and shut
  down. An error of the final close is logged only. The result is what the run did, up to
  its return, and what it returned.
\<close>

definition RunGateway ::
  "(tsnetServer \<Rightarrow> start_outcome) \<Rightarrow> (string \<Rightarrow> string \<Rightarrow> string) \<Rightarrow> (string \<Rightarrow> goerr option) \<Rightarrow> nat
     \<Rightarrow> goerr option \<Rightarrow> (string \<Rightarrow> string) \<Rightarrow> net_action list \<times> goerr option" where
  "RunGateway start join net_listen ref closeErr env =
     (case parseEgressTargets (env envGatewayTargets) of
        Inl e \<Rightarrow> ([], Some (ErrWrap ''gateway'' e))
      | Inr targets \<Rightarrow>
          if targets = [] then ([], Some (ErrNew (''gateway: '' @ envGatewayTargets @ '' is empty'')))
          else
            (case NewTsnetEgressProxy start join net_listen ref (gateway_config env targets) of
               (acts, Inl e) \<Rightarrow> (acts, Some (ErrWrap ''gateway'' e))
             | (acts, Inr _) \<Rightarrow> (acts @ ActAwaitCancel # fst (egress_Close closeErr), None)))"

text \<open>\<^verbatim>\<open>os.Getenv\<close> over a process environment of \<^verbatim>\<open>K=V\<close> entries, where a later entry wins.\<close>

definition getenv :: "string list \<Rightarrow> string \<Rightarrow> string" where
  "getenv es k = get_str (env_map es) k"

section \<open>Bring-up\<close>

definition egress_listener_actions :: "egressTarget \<Rightarrow> net_action list" where
  "egress_listener_actions t =
     (let a = '':'' @ dec (unat (et_Port t)) in [ActListen a, ActCloseOnCancel a, ActAccept (tailnetDialer (addr t))])"

interpretation eg: bring_up "egress_listen_loop listen" egress_listener_actions
  "\<lambda>t. ActListen ('':'' @ dec (unat (et_Port t)))" for listen
  by unfold_locales (auto simp: egress_listener_actions_def Let_def split: option.splits prod.splits)

lemmas bring_up_defs =
  NewTsnetEgressProxy_def startTsnetBounded_def startEgressProxyOn_def startEgressProxyWith_def

lemma NewTsnetEgressProxy_cases:
  assumes "NewTsnetEgressProxy start join net_listen ref cfg = (acts, res)"
  shows "case res of
      Inr p \<Rightarrow> p = \<lparr>ep_ref = ref, ep_cfg = cfg\<rparr> \<and> ec_Hostname cfg \<noteq> [] \<and> ec_StateDir cfg \<noteq> [] \<and>
        start (server_for join (ec_Hostname cfg) (ec_AuthKey cfg) (ec_StateDir cfg) (ec_LoginURL cfg)) = StartDone None \<and>
        acts = ActStart # concat (map egress_listener_actions (ec_Targets cfg)) \<and> ActCloseServer \<notin> set acts
    | Inl _ \<Rightarrow> acts = [] \<or> acts = [ActStart] \<or>
        (hd acts = ActStart \<and> last acts = ActCloseServer \<and> count_list acts ActCloseServer = 1)"
proof -
  obtain acts' r where L: "egress_listen_loop (listenOverlay net_listen) (ec_Targets cfg) = (acts', r)" by fastforce
  show ?thesis
    using assms L eg.all_or_nothing [OF L]
    by (cases r) (auto simp: bring_up_defs Let_def split: if_splits start_outcome.splits option.splits)
qed

section \<open>The environment contract\<close>

lemma env_map_snoc:
  "get_str (env_map (es @ [k @ CHR ''='' # v])) k' =
     (if k' = k then v else get_str (env_map es) k')" if "CHR ''='' \<notin> set k"
  using that by (simp add: env_map_def cut_at_append get_str_def update_conv')

text \<open>What a process started from a gateway spec finds in its environment, on top of whatever
  the image sets.\<close>

lemma getenv_gatewaySpec:
  assumes "ss_ContainerSpec (gatewaySpec eg t app cfg img key) = Some cs"
  shows "getenv (base @ cs_Env cs) envGatewayHostname = gatewayHostname eg t"
    and "getenv (base @ cs_Env cs) envGatewayTag = eg_Tag eg"
    and "getenv (base @ cs_Env cs) envGatewayTargets = addr t"
    and "getenv (base @ cs_Env cs) envStateDir = cfg_StateDir cfg"
    and "getenv (base @ cs_Env cs) envHeadscaleURL = hs_URL (cfg_Headscale cfg)"
    and "key \<noteq> [] \<Longrightarrow> getenv (base @ cs_Env cs) envGatewayAuthKey = key"
  using assms
  by (auto simp: gatewaySpec_def Let_def getenv_def env_map_def env_names get_str_def update_conv')

lemma gatewayHostname_ne: "gatewayHostname eg t \<noteq> []"
  by (simp add: gatewayHostname_def Let_def)

text \<open>
  The control plane and the data plane agree on the environment contract: a process that runs
  the container of \<^verbatim>\<open>gatewaySpec\<close>, whatever else its image sets, brings up the gateway the
  control plane meant.
\<close>

lemma gateway_runs_its_spec:
  assumes "ss_ContainerSpec (gatewaySpec eg t app cfg img key) = Some cs"
    and "wf_target t" and "key \<noteq> []" and "cfg_StateDir cfg \<noteq> []"
    and "start (server_for join (gatewayHostname eg t) key (cfg_StateDir cfg) (hs_URL (cfg_Headscale cfg)))
           = StartDone None"
    and "net_listen ('':'' @ dec (unat (et_Port t))) = None"
  shows "RunGateway start join net_listen ref closeErr (getenv (base @ cs_Env cs)) =
    ([ActStart, ActListen ('':'' @ dec (unat (et_Port t))),
      ActCloseOnCancel ('':'' @ dec (unat (et_Port t))), ActAccept (tailnetDialer (addr t)),
      ActAwaitCancel, ActCancel, ActCloseServer, ActJoin], None)"
  using assms(2-6) getenv_gatewaySpec [OF assms(1), of base] gatewayHostname_ne [of eg t]
  by (simp add: RunGateway_def parse_addr gateway_config_def bring_up_defs listenOverlay_def
      egress_Close_def Let_def)

lemma wf_demo_target: "wf_target demo_target"
proof -
  have "trimmed ''db-mysql''" by code_simp
  then show ?thesis by (simp add: demo_target_def wf_target_def)
qed

definition demo_cs :: containerSpec where
  "demo_cs = the (ss_ContainerSpec (gatewaySpec demo_eg demo_target ''app1'' demo_config ''img'' ''secret''))"

lemma demo_cs:
  "ss_ContainerSpec (gatewaySpec demo_eg demo_target ''app1'' demo_config ''img'' ''secret'') = Some demo_cs"
  by (simp add: demo_cs_def gatewaySpec_def Let_def)

text \<open>
  Gateway mode leaves no server behind. Provided \<^verbatim>\<open>Start\<close> itself reports success, the
  server is closed exactly once if it was started at all, whatever the environment, the
  listeners and the final close do; and \<^verbatim>\<open>RunGateway\<close> returns nil only after waiting for the
  cancellation and for its accept loops.
\<close>

theorem RunGateway_closes_server:
  assumes "RunGateway start join net_listen ref closeErr env = (acts, r)"
    and "\<And>srv. start srv = StartDone None"
  shows "count_list acts ActCloseServer = (if acts = [] then 0 else 1) \<and> (acts = [] \<or> hd acts = ActStart) \<and>
    (r = None \<longrightarrow> (\<exists>opened. acts = opened @ [ActAwaitCancel, ActCancel, ActCloseServer, ActJoin]))"
proof (cases "parseEgressTargets (env envGatewayTargets)")
  case (Inr ts)
  obtain acts' res where N: "NewTsnetEgressProxy start join net_listen ref (gateway_config env ts) = (acts', res)"
    by fastforce
  have ne: "acts' \<noteq> [ActStart]" if "ts \<noteq> []" "isl res"
    using N that assms(2) eg.all_or_nothing [of "listenOverlay net_listen" ts]
    by (fastforce simp: bring_up_defs gateway_config_def Let_def split: if_splits option.splits prod.splits)
  show ?thesis
    using assms(1) N Inr ne NewTsnetEgressProxy_cases [OF N]
    by (cases res) (auto simp: RunGateway_def egress_Close_def split: if_splits)
qed (use assms(1) in \<open>auto simp: RunGateway_def\<close>)

theorem RunGateway_closes_server_witness:
  "count_list (fst (RunGateway (\<lambda>_. StartDone None) (@) (\<lambda>_. Some (ErrVar Canceled)) 0 None
     (getenv (cs_Env demo_cs)))) ActCloseServer = 1"
proof -
  let ?run = "RunGateway (\<lambda>_. StartDone None) (@) (\<lambda>_. Some (ErrVar Canceled)) 0 None (getenv (cs_Env demo_cs))"
  have "cfg_StateDir demo_config \<noteq> []" by code_simp
  then have "fst ?run \<noteq> []"
    using getenv_gatewaySpec [OF demo_cs, of "[]"] gatewayHostname_ne [of demo_eg demo_target]
    by (simp add: RunGateway_def parse_addr [OF wf_demo_target] gateway_config_def bring_up_defs
        listenOverlay_def Let_def)
  then show ?thesis
    using RunGateway_closes_server [of "\<lambda>_. StartDone None" "(@)" "\<lambda>_. Some (ErrVar Canceled)" 0 None
        "getenv (cs_Env demo_cs)" "fst ?run" "snd ?run"]
    by simp
qed

end
