(* ===== verification/Reconciler.thy ===== *)
theory Reconciler
  imports World
begin

text \<open>
  The reconciler, \<^verbatim>\<open>internal/tailswarm/reconciler.go\<close>, operation by operation: the ingress
  proxy lifecycle, the egress gateway set-reconcile with adoption, creation, in-place update
  and removal, teardown and shutdown. Every call of the source is a step of the action and
  every early return a branch. Logging is left out.
\<close>

section \<open>Definitions\<close>

text \<open>
  A \<^verbatim>\<open>rate.Limiter\<close>: its rate and its burst. The burst is \<^verbatim>\<open>int(rps)\<close>, which truncates; for
  values that do not fit an \<^verbatim>\<open>int\<close> Go leaves the result to the implementation, here \<open>None\<close>.
\<close>

record limiter =
  lim_Limit :: float64
  lim_Burst :: "int option"

fun float_to_int :: "float64 \<Rightarrow> int option" where
  "float_to_int (Finite q) =
     (let i = (if q < 0 then - \<lfloor>- q\<rfloor> else \<lfloor>q\<rfloor>)
      in if - (2 ^ 63) \<le> i \<and> i < 2 ^ 63 then Some i else None)"
| "float_to_int _ = None"

definition NewLimiter :: "float64 \<Rightarrow> int option \<Rightarrow> limiter" where
  "NewLimiter rps burst = \<lparr>lim_Limit = rps, lim_Burst = burst\<rparr>"

record reconciler =
  rec_Cfg :: config
  rec_Limiter :: limiter
  rec_GatewayImage :: string
  rec_env :: env

text \<open>\<^verbatim>\<open>NewReconciler\<close> fills in defaults; the gateway image is set by the wiring later.\<close>

definition NewReconciler :: "env \<Rightarrow> config \<Rightarrow> reconciler" where
  "NewReconciler e cfg =
     (let rps0 = rc_RateLimitRPS (cfg_Reconcile cfg);
          rps = (if fle0 rps0 then Finite 5 else rps0);
          h = cfg_Headscale cfg
      in \<lparr>rec_Cfg = cfg\<lparr>cfg_Headscale :=
                          (if hs_KeyExpiration h = 0 then h\<lparr>hs_KeyExpiration := 5 * minute\<rparr> else h),
                        cfg_LabelNamespace :=
                          (if cfg_LabelNamespace cfg = [] then defaultNamespace
                           else cfg_LabelNamespace cfg)\<rparr>,
          rec_Limiter = NewLimiter rps (float_to_int rps),
          rec_GatewayImage = [],
          rec_env = e\<rparr>)"

definition proxyConfigFor :: "target \<Rightarrow> config \<Rightarrow> proxyConfig" where
  "proxyConfigFor t cfg =
     \<lparr>px_Hostname = tgt_Hostname t, px_Target = tgt_ServiceName t, px_AuthKey = [],
      px_Ports = tgt_Ports t, px_StateDir = cfg_StateDir cfg, px_LoginURL = hs_URL (cfg_Headscale cfg),
      px_Tags = [tgt_Tag t]\<rparr>"

text \<open>\<^verbatim>\<open>append([]string(nil), c.Tags...)\<close> is nil, and marshals as \<^verbatim>\<open>null\<close>, when there is no tag.\<close>

definition proxyHash :: "proxyConfig \<Rightarrow> string" where
  "proxyHash c =
     (let ports = sort (map port_Target (px_Ports c));
          tags = sort (px_Tags c)
      in sha256_hex (json_object
           [(''Hostname'', json_string (px_Hostname c)),
            (''Target'', json_string (px_Target c)),
            (''Ports'', json_array (map (\<lambda>p. dec (unat p)) ports)),
            (''StateDir'', json_string (px_StateDir c)),
            (''LoginURL'', json_string (px_LoginURL c)),
            (''Tags'', if tags = [] then ''null'' else json_array (map json_string tags))]))"

text \<open>The request behind every key: ephemeral, single use, one tag.\<close>

definition key_request :: "reconciler \<Rightarrow> string \<Rightarrow> keyRequest" where
  "key_request r tag =
     \<lparr>kr_User = hs_User (cfg_Headscale (rec_Cfg r)), kr_Tags = [tag], kr_Ephemeral = True,
      kr_Reusable = False, kr_Expiration = hs_KeyExpiration (cfg_Headscale (rec_Cfg r))\<rparr>"

definition expireOrLog :: "reconciler \<Rightarrow> string \<Rightarrow> unit act" where
  "expireOrLog r keyID =
     (if keyID = [] then ret () else do { _ \<leftarrow> ExpireKey (rec_env r) keyID; ret () })"

definition teardownIngress :: "reconciler \<Rightarrow> string \<Rightarrow> goerr option act" where
  "teardownIngress r sid = do {
     (prev, ok) \<leftarrow> StoreGet sid;
     if \<not> ok \<or> (en_Proxy prev = None \<and> en_PreAuthKeyID prev = []) then ret None
     else do {
       closeErr \<leftarrow> (case en_Proxy prev of None \<Rightarrow> ret None | Some p \<Rightarrow> ProxyClose (rec_env r) p);
       let prev' = prev\<lparr>en_Proxy := None, en_LastSpecHash := [], en_PreAuthKeyID := []\<rparr>;
       let save = (if en_Gateways prev = [] then StoreDelete sid else StorePut sid prev');
       if en_PreAuthKeyID prev \<noteq> [] then do {
         w \<leftarrow> LimiterWait (rec_env r);
         case w of
           Some e \<Rightarrow> ret (Some e)
         | None \<Rightarrow> do {
             expErr \<leftarrow> ExpireKey (rec_env r) (en_PreAuthKeyID prev);
             save;
             ret (case closeErr of Some e \<Rightarrow> Some e | None \<Rightarrow> expErr)
           }
       } else do {
         save;
         ret closeErr
       }
     }
   }"

definition reconcileIngress :: "reconciler \<Rightarrow> string \<Rightarrow> target \<Rightarrow> goerr option act" where
  "reconcileIngress r sid tgt =
     (if \<not> tgt_Ingress tgt then teardownIngress r sid
      else do {
        let desired = proxyConfigFor tgt (rec_Cfg r);
        let desiredHash = proxyHash desired;
        (prev, hadPrev) \<leftarrow> StoreGet sid;
        if hadPrev \<and> en_LastSpecHash prev = desiredHash \<and> en_Proxy prev \<noteq> None then do {
          t \<leftarrow> Now (rec_env r);
          StorePut sid (prev\<lparr>en_LastReconcileAt := t\<rparr>);
          ret None
        } else do {
          w \<leftarrow> LimiterWait (rec_env r);
          case w of
            Some e \<Rightarrow> ret (Some (ErrWrap ''rate limit'' e))
          | None \<Rightarrow> do {
              k \<leftarrow> CreateEphemeralKey (rec_env r) (key_request r (tgt_Tag tgt));
              case k of
                Inl e \<Rightarrow> ret (Some (ErrWrap ''mint key'' e))
              | Inr key \<Rightarrow> do {
                  p \<leftarrow> NewProxy (rec_env r) (desired\<lparr>px_AuthKey := key_Secret key\<rparr>);
                  case p of
                    Inl e \<Rightarrow> do {
                      expireOrLog r (key_ID key);
                      ret (Some (ErrWrap (''start proxy '' @ px_Hostname desired) e))
                    }
                  | Inr proxy \<Rightarrow> do {
                      t \<leftarrow> Now (rec_env r);
                      StorePut sid (prev\<lparr>en_Proxy := Some proxy, en_LastSpecHash := desiredHash,
                                         en_PreAuthKeyID := key_ID key, en_LastReconcileAt := t\<rparr>);
                      (if hadPrev then
                         (case en_Proxy prev of
                            None \<Rightarrow> ret ()
                          | Some old \<Rightarrow> do {
                              _ \<leftarrow> ProxyClose (rec_env r) old;
                              expireOrLog r (en_PreAuthKeyID prev)
                            })
                       else ret ());
                      ret None
                    }
                }
            }
        }
      })"

definition removeGateway :: "reconciler \<Rightarrow> gatewayRef \<Rightarrow> goerr option act" where
  "removeGateway r ref = do {
     w \<leftarrow> LimiterWait (rec_env r);
     case w of
       Some e \<Rightarrow> ret (Some e)
     | None \<Rightarrow> do {
         d \<leftarrow> RemoveService (rec_env r) (gr_ServiceID ref);
         if (case d of None \<Rightarrow> False | Some e \<Rightarrow> \<not> errors_is e ServiceNotFound)
         then ret (map_option (ErrWrap (''remove gateway '' @ gr_ServiceID ref)) d)
         else if gr_KeyID ref \<noteq> [] then do {
           w2 \<leftarrow> LimiterWait (rec_env r);
           case w2 of
             Some e \<Rightarrow> ret (Some e)
           | None \<Rightarrow> do { expireOrLog r (gr_KeyID ref); ret None }
         }
         else ret None
       }
   }"

text \<open>The loop of \<^verbatim>\<open>teardownEgress\<close>: every gateway is tried, the first error is kept.\<close>

fun removeGateways :: "reconciler \<Rightarrow> goerr option \<Rightarrow> gatewayRef list \<Rightarrow> goerr option act" where
  "removeGateways r firstErr [] = ret firstErr"
| "removeGateways r firstErr (ref # refs) = do {
     e \<leftarrow> removeGateway r ref;
     removeGateways r (case firstErr of None \<Rightarrow> e | Some f \<Rightarrow> Some f) refs
   }"

definition teardownEgress :: "reconciler \<Rightarrow> string \<Rightarrow> goerr option act" where
  "teardownEgress r sid = do {
     (prev, ok) \<leftarrow> StoreGet sid;
     if \<not> ok \<or> en_Gateways prev = [] then ret None
     else do {
       firstErr \<leftarrow> removeGateways r None (en_Gateways prev);
       (if en_Proxy prev = None then StoreDelete sid
        else StorePut sid (prev\<lparr>en_Gateways := [], en_GatewayHash := []\<rparr>));
       ret firstErr
     }
   }"

definition teardown :: "reconciler \<Rightarrow> string \<Rightarrow> goerr option act" where
  "teardown r sid = do {
     ingErr \<leftarrow> teardownIngress r sid;
     egrErr \<leftarrow> teardownEgress r sid;
     StoreDelete sid;
     ret (errors_join [ingErr, egrErr])
   }"

definition findGateways :: "reconciler \<Rightarrow> string \<Rightarrow> (goerr + service list) act" where
  "findGateways r app = do {
     gws \<leftarrow> ListServices (rec_env r) \<lparr>lf_Key = gatewayForLabel, lf_Value = app, lf_Name = []\<rparr>;
     ret (case gws of
            Inl e \<Rightarrow> Inl e
          | Inr xs \<Rightarrow> Inr (filter (\<lambda>gw. get_str (ss_Labels (svc_Spec gw)) gatewayForLabel = app) xs))
   }"

text \<open>The adoption loop: running gateways that no tracked reference names and whose target is
  not tracked yet.\<close>

fun adopt_loop :: "string list \<Rightarrow> (string, gatewayRef) gomap \<Rightarrow> service list \<Rightarrow> (string, gatewayRef) gomap" where
  "adopt_loop bySvc out [] = out"
| "adopt_loop bySvc out (gw # gws) =
     (let a = gatewayTargetAddr gw
      in if svc_ID gw \<in> set bySvc then adopt_loop bySvc out gws
         else if a = [] then adopt_loop bySvc out gws
         else if map_of out a \<noteq> None then adopt_loop bySvc out gws
         else adopt_loop bySvc
                (gm_put a \<lparr>gr_Target = a, gr_ServiceID = svc_ID gw, gr_KeyID = [],
                          gr_Hash = liveGatewayHash gw\<rparr> out) gws)"

definition stored_gateways :: "entry \<Rightarrow> (string, gatewayRef) gomap" where
  "stored_gateways prev = foldl (\<lambda>m ref. gm_put (gr_Target ref) ref m) [] (en_Gateways prev)"

definition trackedGateways ::
  "reconciler \<Rightarrow> string \<Rightarrow> entry \<Rightarrow> (goerr + (string, gatewayRef) gomap) act" where
  "trackedGateways r sid prev = do {
     let out = stored_gateways prev;
     gws \<leftarrow> findGateways r sid;
     ret (case gws of
            Inl e \<Rightarrow> Inl (ErrWrap (''find gateways for '' @ sid) e)
          | Inr xs \<Rightarrow> Inr (adopt_loop (map (\<lambda>(_, ref). gr_ServiceID ref) out) out xs))
   }"

text \<open>The reference recorded for a gateway that now runs the desired spec.\<close>

definition gateway_ref :: "reconciler \<Rightarrow> egressSpec \<Rightarrow> egressTarget \<Rightarrow> string \<Rightarrow> key \<Rightarrow> gatewayRef" where
  "gateway_ref r eg t gwID key =
     \<lparr>gr_Target = addr t, gr_ServiceID = gwID, gr_KeyID = key_ID key,
      gr_Hash = targetGatewayHash eg t (rec_GatewayImage r)\<rparr>"

definition adoptExistingGateway ::
  "reconciler \<Rightarrow> egressSpec \<Rightarrow> egressTarget \<Rightarrow> serviceSpec \<Rightarrow> key \<Rightarrow> (goerr + gatewayRef) act" where
  "adoptExistingGateway r eg t spec key = do {
     l \<leftarrow> ListServices (rec_env r) \<lparr>lf_Key = [], lf_Value = [], lf_Name = ss_Name spec\<rparr>;
     case l of
       Inl e \<Rightarrow> do {
         expireOrLog r (key_ID key);
         ret (Inl (ErrWrap (''adopt gateway '' @ ss_Name spec @ '': lookup'') e))
       }
     | Inr gws \<Rightarrow>
         (case gws of
            [] \<Rightarrow> do {
              expireOrLog r (key_ID key);
              ret (Inl (ErrNew (''adopt gateway '' @ ss_Name spec @
                     '': create reported exists but not found on lookup'')))
            }
          | existing # _ \<Rightarrow> do {
              u \<leftarrow> UpdateService (rec_env r) (svc_ID existing) (svc_Version existing) spec;
              case u of
                Some e \<Rightarrow> do {
                  expireOrLog r (key_ID key);
                  ret (Inl (ErrWrap (''adopt gateway '' @ svc_ID existing @ '': update'') e))
                }
              | None \<Rightarrow> ret (Inr (gateway_ref r eg t (svc_ID existing) key))
            })
   }"

definition createGateway ::
  "reconciler \<Rightarrow> string \<Rightarrow> egressSpec \<Rightarrow> egressTarget \<Rightarrow> (goerr + gatewayRef) act" where
  "createGateway r sid eg t = do {
     w \<leftarrow> LimiterWait (rec_env r);
     case w of
       Some e \<Rightarrow> ret (Inl (ErrWrap ''rate limit'' e))
     | None \<Rightarrow> do {
         k \<leftarrow> CreateEphemeralKey (rec_env r) (key_request r (eg_Tag eg));
         case k of
           Inl e \<Rightarrow> ret (Inl (ErrWrap (''mint egress key for '' @ addr t) e))
         | Inr key \<Rightarrow> do {
             let spec = gatewaySpec eg t sid (rec_Cfg r) (rec_GatewayImage r) (key_Secret key);
             c \<leftarrow> CreateService (rec_env r) spec;
             case c of
               Inl e \<Rightarrow>
                 if errors_is e ServiceExists then adoptExistingGateway r eg t spec key
                 else do {
                   expireOrLog r (key_ID key);
                   ret (Inl (ErrWrap (''create gateway for '' @ sid @ '' target '' @ addr t) e))
                 }
             | Inr gwID \<Rightarrow> ret (Inr (gateway_ref r eg t gwID key))
           }
       }
   }"

text \<open>\<^verbatim>\<open>updateGateway\<close> returns \<^verbatim>\<open>(newRef, found, err)\<close>; the zero \<^verbatim>\<open>GatewayRef{}\<close> of the
  not-found branch is never read.\<close>

definition zeroRef :: gatewayRef where
  "zeroRef = \<lparr>gr_Target = [], gr_ServiceID = [], gr_KeyID = [], gr_Hash = []\<rparr>"

definition updateGateway ::
  "reconciler \<Rightarrow> string \<Rightarrow> egressSpec \<Rightarrow> egressTarget \<Rightarrow> gatewayRef \<Rightarrow> (gatewayRef \<times> bool \<times> goerr option) act" where
  "updateGateway r sid eg t ref = do {
     g \<leftarrow> InspectService (rec_env r) (gr_ServiceID ref);
     case g of
       Inl e \<Rightarrow>
         if errors_is e ServiceNotFound then ret (zeroRef, False, None)
         else ret (ref, True, Some (ErrWrap (''inspect gateway '' @ gr_ServiceID ref) e))
     | Inr gw \<Rightarrow> do {
         w \<leftarrow> LimiterWait (rec_env r);
         case w of
           Some e \<Rightarrow> ret (ref, True, Some (ErrWrap ''rate limit'' e))
         | None \<Rightarrow> do {
             k \<leftarrow> CreateEphemeralKey (rec_env r) (key_request r (eg_Tag eg));
             case k of
               Inl e \<Rightarrow> ret (ref, True, Some (ErrWrap (''mint egress key for '' @ addr t) e))
             | Inr key \<Rightarrow> do {
                 let spec = gatewaySpec eg t sid (rec_Cfg r) (rec_GatewayImage r) (key_Secret key);
                 u \<leftarrow> UpdateService (rec_env r) (gr_ServiceID ref) (svc_Version gw) spec;
                 case u of
                   Some e \<Rightarrow> do {
                     expireOrLog r (key_ID key);
                     ret (ref, True, Some (ErrWrap (''update gateway '' @ gr_ServiceID ref) e))
                   }
                 | None \<Rightarrow> do {
                     (if gr_KeyID ref \<noteq> [] \<and> gr_KeyID ref \<noteq> key_ID key
                      then expireOrLog r (gr_KeyID ref) else ret ());
                     ret (gateway_ref r eg t (gr_ServiceID ref) key, True, None)
                   }
               }
           }
       }
   }"

definition sortedGateways :: "(string, gatewayRef) gomap \<Rightarrow> gatewayRef list" where
  "sortedGateways m = sort_key gr_Target (map snd m)"

definition desired_targets :: "egressSpec \<Rightarrow> (string, egressTarget) gomap" where
  "desired_targets eg = foldl (\<lambda>m t. gm_put (addr t) t m) [] (eg_Targets eg)"

text \<open>
  The two loops of \<^verbatim>\<open>reconcileEgress\<close>, over the keys in visit order. The first removes what
  is no longer desired; the second creates what is missing and updates what drifted. Both
  carry the tracked map and the collected errors.
\<close>

fun remove_loop ::
  "reconciler \<Rightarrow> (string, egressTarget) gomap \<Rightarrow> string list \<Rightarrow> (string, gatewayRef) gomap \<Rightarrow> goerr list
     \<Rightarrow> ((string, gatewayRef) gomap \<times> goerr list) act" where
  "remove_loop r desired [] tracked errs = ret (tracked, errs)"
| "remove_loop r desired (a # as) tracked errs =
     (if map_of desired a \<noteq> None then remove_loop r desired as tracked errs
      else
        (case map_of tracked a of
           None \<Rightarrow> remove_loop r desired as tracked errs
         | Some ref \<Rightarrow> do {
             e \<leftarrow> removeGateway r ref;
             case e of
               Some err \<Rightarrow> remove_loop r desired as tracked (errs @ [err])
             | None \<Rightarrow> remove_loop r desired as (gm_del a tracked) errs
           }))"

text \<open>One iteration of the second loop: the new tracked map and the error, if any.\<close>

definition ensure_gateway ::
  "reconciler \<Rightarrow> string \<Rightarrow> egressSpec \<Rightarrow> string \<Rightarrow> egressTarget \<Rightarrow> (string, gatewayRef) gomap
     \<Rightarrow> ((string, gatewayRef) gomap \<times> goerr list) act" where
  "ensure_gateway r sid eg a t tracked =
     (case map_of tracked a of
        None \<Rightarrow> do {
          c \<leftarrow> createGateway r sid eg t;
          ret (case c of Inl e \<Rightarrow> (tracked, [e]) | Inr ref \<Rightarrow> (gm_put a ref tracked, []))
        }
      | Some ref \<Rightarrow>
          if gr_Hash ref = targetGatewayHash eg t (rec_GatewayImage r) then ret (tracked, [])
          else do {
            (updated, found, err) \<leftarrow> updateGateway r sid eg t ref;
            case err of
              Some e \<Rightarrow> ret (gm_del a tracked, [e])
            | None \<Rightarrow>
                if \<not> found then do {
                  c \<leftarrow> createGateway r sid eg t;
                  ret (case c of
                         Inl e \<Rightarrow> (gm_del a tracked, [e])
                       | Inr ref' \<Rightarrow> (gm_put a ref' (gm_del a tracked), []))
                }
                else ret (gm_put a updated tracked, [])
          })"

fun create_loop ::
  "reconciler \<Rightarrow> string \<Rightarrow> egressSpec \<Rightarrow> (string, egressTarget) gomap \<Rightarrow> string list
     \<Rightarrow> (string, gatewayRef) gomap \<Rightarrow> goerr list \<Rightarrow> ((string, gatewayRef) gomap \<times> goerr list) act" where
  "create_loop r sid eg desired [] tracked errs = ret (tracked, errs)"
| "create_loop r sid eg desired (a # as) tracked errs =
     (case map_of desired a of
        None \<Rightarrow> create_loop r sid eg desired as tracked errs
      | Some t \<Rightarrow> do {
          (tracked', es) \<leftarrow> ensure_gateway r sid eg a t tracked;
          create_loop r sid eg desired as tracked' (errs @ es)
        })"

definition fast_path :: "entry \<Rightarrow> string \<Rightarrow> (string, gatewayRef) gomap \<Rightarrow> (string, egressTarget) gomap \<Rightarrow> bool" where
  "fast_path prev desiredHash tracked desired \<longleftrightarrow>
     en_GatewayHash prev = desiredHash \<and> length tracked = length desired \<and>
     list_all (\<lambda>a. map_of tracked a \<noteq> None) (gm_keys desired)"

definition reconcileEgress :: "reconciler \<Rightarrow> string \<Rightarrow> target \<Rightarrow> goerr option act" where
  "reconcileEgress r sid tgt =
     (case tgt_Egress tgt of
        None \<Rightarrow> teardownEgress r sid
      | Some eg \<Rightarrow>
          if rec_GatewayImage r = [] then ret (Some (ErrVar GatewayImageUnset))
          else do {
            let desiredHash = gatewayHash eg (rec_GatewayImage r);
            (prev, _) \<leftarrow> StoreGet sid;
            tg \<leftarrow> trackedGateways r sid prev;
            case tg of
              Inl e \<Rightarrow> ret (Some e)
            | Inr tracked \<Rightarrow> do {
                let desired = desired_targets eg;
                if fast_path prev desiredHash tracked desired then do {
                  t \<leftarrow> Now (rec_env r);
                  StorePut sid (prev\<lparr>en_LastReconcileAt := t\<rparr>);
                  ret None
                } else do {
                  rks \<leftarrow> RangeKeys (rec_env r) tracked;
                  (tracked1, errs1) \<leftarrow> remove_loop r desired rks tracked [];
                  cks \<leftarrow> RangeKeys (rec_env r) desired;
                  (tracked2, errs2) \<leftarrow> create_loop r sid eg desired cks tracked1 errs1;
                  t \<leftarrow> Now (rec_env r);
                  StorePut sid (prev\<lparr>en_Gateways := sortedGateways tracked2,
                                     en_GatewayHash := desiredHash, en_LastReconcileAt := t\<rparr>);
                  ret (errors_join (map Some errs2))
                }
              }
          })"

text \<open>The label parser as the reconciler configures it.\<close>

definition parser_of :: "reconciler \<Rightarrow> labels" where
  "parser_of r =
     \<lparr>l_Namespace = cfg_LabelNamespace (rec_Cfg r), l_AllowedTags = allowedTags (rec_Cfg r),
      l_DefaultNetwork = cfg_Network (rec_Cfg r)\<rparr>"

text \<open>\<^verbatim>\<open>Reconcile\<close> in two parts: what follows once the service was found, and the whole.\<close>

definition reconcile_found :: "reconciler \<Rightarrow> string \<Rightarrow> service \<Rightarrow> goerr option act" where
  "reconcile_found r sid svc =
     (if map_of (ss_Labels (svc_Spec svc)) gatewayForLabel \<noteq> None then ret None
      else do {
        n \<leftarrow> ListNetworks (rec_env r);
        case n of
          Inl e \<Rightarrow> ret (Some (ErrWrap ''list networks'' e))
        | Inr networks \<Rightarrow>
            (case Parse (parser_of r) svc networks of
               (tgt, enabled, perr) \<Rightarrow>
                 (case perr of
                    Some e \<Rightarrow> do {
                      td \<leftarrow> teardown r sid;
                      ret (case td of Some tdErr \<Rightarrow> Some tdErr | None \<Rightarrow> Some e)
                    }
                  | None \<Rightarrow>
                      if \<not> enabled then teardown r sid
                      else do {
                        ingErr \<leftarrow> reconcileIngress r sid tgt;
                        egrErr \<leftarrow> reconcileEgress r sid tgt;
                        ret (errors_join [ingErr, egrErr])
                      }))
      })"

definition Reconcile :: "reconciler \<Rightarrow> string \<Rightarrow> goerr option act" where
  "Reconcile r sid = do {
     i \<leftarrow> InspectService (rec_env r) sid;
     case i of
       Inl e \<Rightarrow>
         if errors_is e ServiceNotFound then teardown r sid
         else ret (Some (ErrWrap (''inspect service '' @ sid) e))
     | Inr svc \<Rightarrow> reconcile_found r sid svc
   }"

text \<open>\<^verbatim>\<open>CloseAll\<close>: the loop over a snapshot of the store.\<close>

fun close_loop :: "reconciler \<Rightarrow> store \<Rightarrow> string list \<Rightarrow> unit act" where
  "close_loop r snap [] = ret ()"
| "close_loop r snap (sid # sids) = do {
     (case map_of snap sid of
        None \<Rightarrow> ret ()
      | Some e \<Rightarrow>
          (case en_Proxy e of
             None \<Rightarrow> ret ()
           | Some p \<Rightarrow> do { _ \<leftarrow> ProxyClose (rec_env r) p; ret () }));
     StoreDelete sid;
     close_loop r snap sids
   }"

definition CloseAll :: "reconciler \<Rightarrow> unit act" where
  "CloseAll r = do {
     snap \<leftarrow> StoreSnapshot;
     ks \<leftarrow> RangeKeys (rec_env r) snap;
     close_loop r snap ks
   }"

end
