(* ===== verification/Reconciler_Frame.thy ===== *)
theory Reconciler_Frame
  imports Reconciler
begin

text \<open>
  What a reconcile can touch. The locale \<open>ingress_contract\<close> is the interface the ingress
  lifecycle needs from its environment: a relation kept by the calls it makes, where a key is
  only ever asked for right after the rate limiter let the caller pass. The locale
  \<open>egress_contract\<close> extends it with the Docker calls of the egress lifecycle. Inside them
  the relation is shown once for every operation of the reconciler; the interpretations
  instantiate it with the growth of the trace by events of a given kind.
\<close>

section \<open>Contracts\<close>

locale ingress_contract = act_rel R for R +
  fixes r :: reconciler
    and sid :: string
    and ok_tag :: "string \<Rightarrow> bool"
  assumes wait: "keeps (LimiterWait (rec_env r))"
    and mint: "ok_tag tag \<Longrightarrow> env_wait (rec_env r) (rs_trace s) = None \<Longrightarrow>
      R s (s\<lparr>rs_trace := rs_trace s @ [EvWait None, EvMint (key_request r tag) res]\<rparr>)"
    and expire: "keeps (ExpireKey (rec_env r) k)"
    and start: "keeps (NewProxy (rec_env r) c)"
    and close: "keeps (ProxyClose (rec_env r) p)"
    and put: "keeps (StorePut sid en)"
    and del: "keeps (StoreDelete sid)"
begin

lemmas calls = wait expire start close put del

lemma waited_mint:
  assumes "ok_tag tag" and "\<And>k. keeps (f k)"
  shows "keeps (LimiterWait (rec_env r) \<bind> (\<lambda>w. case w of None \<Rightarrow>
    CreateEphemeralKey (rec_env r) (key_request r tag) \<bind> f | Some e \<Rightarrow> ret (g e)))"
  unfolding keeps_def
proof
  fix s
  show "R s (snd (run_state (LimiterWait (rec_env r) \<bind> (\<lambda>w. case w of None \<Rightarrow>
    CreateEphemeralKey (rec_env r) (key_request r tag) \<bind> f | Some e \<Rightarrow> ret (g e))) s))"
  proof (cases "env_wait (rec_env r) (rs_trace s)")
    case None
    let ?k = "env_mint (rec_env r) (rs_trace s @ [EvWait None]) (key_request r tag)"
    let ?s1 = "s\<lparr>rs_trace := rs_trace s @ [EvWait None, EvMint (key_request r tag) ?k]\<rparr>"
    have "R s ?s1" by (rule mint [OF assms(1) None])
    moreover have "R ?s1 (snd (run_state (f ?k) ?s1))" using assms(2) by (simp add: keeps_def)
    ultimately have "R s (snd (run_state (f ?k) ?s1))" by (rule rel_trans)
    with None show ?thesis by (simp add: runs)
  next
    case (Some x)
    have "R s (snd (run_state (LimiterWait (rec_env r)) s))" using wait by (simp add: keeps_def)
    with Some show ?thesis by (simp add: runs)
  qed
qed

lemma expireOrLog: "keeps (expireOrLog r k)"
  unfolding expireOrLog_def by (intro keeps_intros calls)

lemma teardownIngress: "keeps (teardownIngress r sid)"
  unfolding teardownIngress_def Let_def by (intro keeps_intros calls)

lemma reconcileIngress:
  "(tgt_Ingress tgt \<Longrightarrow> ok_tag (tgt_Tag tgt)) \<Longrightarrow> keeps (reconcileIngress r sid tgt)"
  unfolding reconcileIngress_def Let_def
  by (intro keeps_intros calls expireOrLog teardownIngress waited_mint) simp

end

locale egress_contract = ingress_contract +
  assumes inspect: "keeps (InspectService (rec_env r) i)"
    and list: "keeps (ListServices (rec_env r) f)"
    and networks: "keeps (ListNetworks (rec_env r))"
    and create: "keeps (CreateService (rec_env r) spec)"
    and update: "keeps (UpdateService (rec_env r) i v spec)"
    and remove: "keeps (RemoveService (rec_env r) i)"
begin

lemmas docker_calls = inspect list networks create update remove

lemma removeGateway: "keeps (removeGateway r ref)"
  unfolding removeGateway_def by (intro keeps_intros calls docker_calls expireOrLog)

lemma removeGateways: "keeps (removeGateways r e refs)"
  by (induction refs arbitrary: e) (auto intro!: keeps_intros removeGateway)

lemma teardownEgress: "keeps (teardownEgress r sid)"
  unfolding teardownEgress_def by (intro keeps_intros calls removeGateways)

lemma teardown: "keeps (teardown r sid)"
  unfolding teardown_def by (intro keeps_intros calls teardownIngress teardownEgress)

lemma findGateways: "keeps (findGateways r app)"
  unfolding findGateways_def by (intro keeps_intros docker_calls)

lemma trackedGateways: "keeps (trackedGateways r app prev)"
  unfolding trackedGateways_def Let_def by (intro keeps_intros findGateways)

lemma adoptExistingGateway: "keeps (adoptExistingGateway r eg t spec key)"
  unfolding adoptExistingGateway_def by (intro keeps_intros docker_calls expireOrLog)

lemma createGateway: "ok_tag (eg_Tag eg) \<Longrightarrow> keeps (createGateway r app eg t)"
  unfolding createGateway_def Let_def
  by (intro keeps_intros calls docker_calls expireOrLog adoptExistingGateway waited_mint)

lemma updateGateway: "ok_tag (eg_Tag eg) \<Longrightarrow> keeps (updateGateway r app eg t ref)"
  unfolding updateGateway_def Let_def by (intro keeps_intros calls docker_calls expireOrLog waited_mint)

lemma remove_loop: "keeps (remove_loop r desired as tracked errs)"
  by (induction as arbitrary: tracked errs) (auto intro!: keeps_intros removeGateway)

lemma ensure_gateway: "ok_tag (eg_Tag eg) \<Longrightarrow> keeps (ensure_gateway r app eg a t tracked)"
  unfolding ensure_gateway_def by (intro keeps_intros createGateway updateGateway)

lemma create_loop: "ok_tag (eg_Tag eg) \<Longrightarrow> keeps (create_loop r app eg desired as tracked errs)"
  by (induction as arbitrary: tracked errs) (auto intro!: keeps_intros ensure_gateway)

lemma reconcileEgress:
  "(\<And>eg. tgt_Egress tgt = Some eg \<Longrightarrow> ok_tag (eg_Tag eg)) \<Longrightarrow> keeps (reconcileEgress r sid tgt)"
  unfolding reconcileEgress_def Let_def
  by (intro keeps_intros calls teardownEgress trackedGateways remove_loop create_loop) simp

lemma reconcile_found:
  assumes "\<And>networks tgt. Parse (parser_of r) svc networks = (tgt, True, None) \<Longrightarrow>
      (tgt_Ingress tgt \<longrightarrow> ok_tag (tgt_Tag tgt)) \<and>
      (\<forall>eg. tgt_Egress tgt = Some eg \<longrightarrow> ok_tag (eg_Tag eg))"
  shows "keeps (reconcile_found r sid svc)"
  unfolding reconcile_found_def
  by (intro keeps_intros docker_calls teardown reconcileIngress reconcileEgress) (use assms in auto)

lemma Reconcile: "(\<And>tag. ok_tag tag) \<Longrightarrow> keeps (Reconcile r sid)"
  unfolding Reconcile_def by (intro keeps_intros docker_calls teardown reconcile_found) auto

end

section \<open>Instances\<close>

lemma keeps_call: "(\<And>x. Q (ev x)) \<Longrightarrow> gr.keeps Q sid (call ask ev)"
  by (auto simp: gr.keeps_def grows_def run_call)

lemma keeps_StorePut: "gr.keeps Q sid (StorePut sid en)"
  by (simp add: gr.keeps_def grows_def runs)

lemma keeps_StoreDelete: "gr.keeps Q sid (StoreDelete sid)"
  by (simp add: gr.keeps_def grows_def runs)

lemmas keeps_prims =
  LimiterWait_def CreateEphemeralKey_def ExpireKey_def NewProxy_def ProxyClose_def InspectService_def
  ListServices_def ListNetworks_def CreateService_def UpdateService_def RemoveService_def

text \<open>Any events, one service's entry.\<close>

interpretation own: egress_contract "grows (\<lambda>_. True) sid" r sid "\<lambda>_. True" for r sid
  by unfold_locales
    (simp_all add: keeps_prims keeps_call keeps_StorePut keeps_StoreDelete grows_def)

text \<open>The calls that change a Docker service.\<close>

fun docker_write :: "event \<Rightarrow> bool" where
  "docker_write (EvCreate _ _) = True"
| "docker_write (EvUpdate _ _ _ _) = True"
| "docker_write (EvRemove _ _) = True"
| "docker_write _ = False"

interpretation readonly: ingress_contract "grows (\<lambda>e. \<not> docker_write e) sid" r sid "\<lambda>_. True" for r sid
  by unfold_locales
    (simp_all add: keeps_prims keeps_call keeps_StorePut keeps_StoreDelete grows_def)

text \<open>Keys are asked for with the reconciler's own request under an allowed tag.\<close>

fun mint_ok :: "reconciler \<Rightarrow> (string \<Rightarrow> bool) \<Rightarrow> event \<Rightarrow> bool" where
  "mint_ok r ok (EvMint req _) = (\<exists>tag. ok tag \<and> req = key_request r tag)"
| "mint_ok r ok _ = True"

interpretation minted: egress_contract "grows (mint_ok r ok) sid" r sid ok for r ok sid
  by unfold_locales
    (auto simp: keeps_prims grows_def intro!: keeps_call keeps_StorePut keeps_StoreDelete)

text \<open>Every request for a key directly follows a wait that succeeded.\<close>

definition paced :: "trace \<Rightarrow> bool" where
  "paced es \<longleftrightarrow> (\<forall>xs q x ys. es = xs @ EvMint q x # ys \<longrightarrow> (\<exists>zs. xs = zs @ [EvWait None]))"

definition pacing :: "rstate \<Rightarrow> rstate \<Rightarrow> bool" where
  "pacing s t \<longleftrightarrow> (\<exists>es. rs_trace t = rs_trace s @ es \<and> paced es)"

lemma paced_append: "paced as \<Longrightarrow> paced bs \<Longrightarrow> paced (as @ bs)"
  unfolding paced_def
proof (intro allI impI)
  fix xs q x ys
  assume a: "\<forall>xs q x ys. as = xs @ EvMint q x # ys \<longrightarrow> (\<exists>zs. xs = zs @ [EvWait None])"
    and b: "\<forall>xs q x ys. bs = xs @ EvMint q x # ys \<longrightarrow> (\<exists>zs. xs = zs @ [EvWait None])"
    and "as @ bs = xs @ EvMint q x # ys"
  then consider us where "as = xs @ EvMint q x # us" | us where "xs = as @ us" "bs = us @ EvMint q x # ys"
    by (auto simp: append_eq_append_conv2 append_eq_Cons_conv)
  then show "\<exists>zs. xs = zs @ [EvWait None]"
    by cases (use a b in fastforce)+
qed

lemma paced_single: "(\<And>q x. e \<noteq> EvMint q x) \<Longrightarrow> paced [e]"
  by (auto simp: paced_def Cons_eq_append_conv)

lemma paced_pair: "paced [EvWait None, EvMint q x]"
  by (auto simp: paced_def Cons_eq_append_conv)

interpretation pc: act_rel pacing
proof
  show "pacing s s" for s by (simp add: pacing_def paced_def)
  show "pacing s u" if "pacing s t" "pacing t u" for s t u
    using that paced_append by (fastforce simp: pacing_def)
qed

lemma pacing_call: "(\<And>q y x. ev x \<noteq> EvMint q y) \<Longrightarrow> pc.keeps (call ask ev)"
  by (auto simp: pc.keeps_def pacing_def run_call intro!: paced_single)

interpretation pacer: egress_contract pacing r sid "\<lambda>_. True" for r sid
  by unfold_locales
    (simp_all add: keeps_prims pacing_call, simp_all add: pc.keeps_def pacing_def paced_pair runs, simp_all add: paced_def)

text \<open>Under a limiter that never lets a caller pass, no key is asked for.\<close>

fun is_mint :: "event \<Rightarrow> bool" where
  "is_mint (EvMint _ _) = True"
| "is_mint _ = False"

definition stalled :: "reconciler \<Rightarrow> string \<Rightarrow> rstate \<Rightarrow> rstate \<Rightarrow> bool" where
  "stalled r sid s t \<longleftrightarrow>
     ((\<forall>tr. env_wait (rec_env r) tr \<noteq> None) \<longrightarrow> grows (\<lambda>e. \<not> is_mint e) sid s t)"

interpretation stl: act_rel "stalled r sid" for r sid
  by unfold_locales (auto simp: stalled_def intro: grows_refl grows_trans)

lemma stalled_keeps: "gr.keeps (\<lambda>e. \<not> is_mint e) sid m \<Longrightarrow> stl.keeps r sid m"
  by (simp add: stl.keeps_def gr.keeps_def stalled_def)

interpretation stall: egress_contract "stalled r sid" r sid "\<lambda>_. True" for r sid
  by unfold_locales
    (auto simp: keeps_prims stalled_def intro!: stalled_keeps keeps_call keeps_StorePut keeps_StoreDelete,
     metis option.distinct(1))

section \<open>Examples\<close>

text \<open>A reconciler, a store and a Docker that knows the example service; for the witnesses.\<close>

definition demo_env2 :: env where
  "demo_env2 = calm_env\<lparr>env_inspect := (\<lambda>_ i. if i = ''app1'' then Inr demo_svc else Inl (ErrVar ServiceNotFound))\<rparr>"

definition demo_rec :: reconciler where
  "demo_rec = (NewReconciler demo_env2 (demo_config\<lparr>cfg_AllowedTags := Some [''tag:team-*'']\<rparr>))
     \<lparr>rec_GatewayImage := ''img''\<rparr>"

definition demo_entry :: entry where
  "demo_entry = zeroEntry\<lparr>en_Proxy := Some \<lparr>proxy_ref = 7, proxy_cfg =
       \<lparr>px_Hostname = ''h'', px_Target = ''t'', px_AuthKey = ''k'', px_Ports = [], px_StateDir = ''d'',
        px_LoginURL = ''u'', px_Tags = []\<rparr>\<rparr>, en_PreAuthKeyID := ''key-7''\<rparr>"

definition demo_state :: rstate where
  "demo_state = \<lparr>rs_store = [(''a'', demo_entry), (''b'', demo_entry)], rs_trace = []\<rparr>"

lemma demo_rec_sel [simp]: "rec_env demo_rec = demo_env2" "parser_of demo_rec = demo_labels"
    "rec_GatewayImage demo_rec = ''img''"
  by (simp_all add: demo_rec_def NewReconciler_def Let_def parser_of_def demo_labels_def demo_config_def
      defaultConfig_def defaultNamespace_def defaultOverlay_def allowedTags_def)

lemma demo_env2_sel [simp]:
  "env_inspect demo_env2 tr ''app1'' = Inr demo_svc"
  "env_list demo_env2 = (\<lambda>_ _. Inr [])" "env_networks demo_env2 = (\<lambda>_. Inr [])"
  "env_create demo_env2 = (\<lambda>_ _. Inr ''gw-1'')" "env_mint demo_env2 = (\<lambda>_ _. Inr calm_key)"
  "env_expire demo_env2 = (\<lambda>_ _. None)" "env_wait demo_env2 = (\<lambda>_. None)"
  "env_start demo_env2 = (\<lambda>_ c. Inr \<lparr>proxy_ref = 1, proxy_cfg = c\<rparr>)"
  "env_close demo_env2 = (\<lambda>_ _. None)" "env_now demo_env2 = (\<lambda>tr. int (length tr))"
  "env_remove demo_env2 = (\<lambda>_ _. None)" "env_update demo_env2 = (\<lambda>_ _ _ _. None)"
  "env_range demo_env2 = (\<lambda>_ _. 0)"
  by (simp_all add: demo_env2_def calm_env_def)

lemma demo_svc_no_marker [simp]: "map_of (ss_Labels (svc_Spec demo_svc)) gatewayForLabel = None"
  by code_simp

text \<open>The first calls of a reconcile of the example service with an empty store.\<close>

definition demo_start :: trace where
  "demo_start =
     [EvInspect ''app1'' (Inr demo_svc), EvNetworks (Inr []), EvWait None,
      EvMint (key_request demo_rec ''tag:team-web'') (Inr calm_key)]"

lemma demo_ingress:
  "\<exists>s1. run_state (reconcileIngress demo_rec ''app1'' demo_tgt)
     \<lparr>rs_store = [], rs_trace = [EvInspect ''app1'' (Inr demo_svc), EvNetworks (Inr [])]\<rparr> = (None, s1) \<and>
     (\<exists>es. rs_trace s1 = demo_start @ es)"
  by (simp add: reconcileIngress_def demo_tgt_def Let_def runs store_Get_def zeroEntry_def demo_start_def)

lemma demo_Reconcile_trace:
  "\<exists>es. rs_trace (snd (run_state (Reconcile demo_rec ''app1'') \<lparr>rs_store = [], rs_trace = []\<rparr>)) = demo_start @ es"
proof -
  obtain s1 es where s1: "run_state (reconcileIngress demo_rec ''app1'' demo_tgt)
     \<lparr>rs_store = [], rs_trace = [EvInspect ''app1'' (Inr demo_svc), EvNetworks (Inr [])]\<rparr> = (None, s1)"
     "rs_trace s1 = demo_start @ es" using demo_ingress by blast
  obtain e2 s2 where s2: "run_state (reconcileEgress demo_rec ''app1'' demo_tgt) s1 = (e2, s2)" by fastforce
  have "grows (\<lambda>_. True) ''app1'' s1 s2" using gr.keepsD [OF own.reconcileEgress s2] by simp
  with s1 s2 show ?thesis
    by (auto simp: Reconcile_def reconcile_found_def runs demo_parse grows_def)
qed

section \<open>Properties\<close>

text \<open>A pass asks for keys only with an allowed tag of the service it inspected.\<close>

lemma Reconcile_mint_ok:
  assumes "run_state (Reconcile r sid) s = (err, s')"
  shows "\<exists>es. rs_trace s' = rs_trace s @ es \<and>
    (list_all (mint_ok r (\<lambda>_. False)) es \<or>
     (\<exists>svc. EvInspect sid (Inr svc) \<in> set es \<and> list_all (mint_ok r (tag_permitted (parser_of r) svc)) es))"
proof (cases "env_inspect (rec_env r) (rs_trace s) sid")
  case (Inl e)
  let ?s1 = "s\<lparr>rs_trace := rs_trace s @ [EvInspect sid (Inl e)]\<rparr>"
  have "grows (mint_ok r (\<lambda>_. False)) sid s s'"
    using assms Inl gr.keepsD [OF minted.teardown, of r sid ?s1 err s' "\<lambda>_. False"]
    by (auto simp: Reconcile_def runs grows_def split: if_splits)
  then show ?thesis by (auto simp: grows_def)
next
  case (Inr svc)
  let ?s1 = "s\<lparr>rs_trace := rs_trace s @ [EvInspect sid (Inr svc)]\<rparr>"
  from assms Inr have found: "run_state (reconcile_found r sid svc) ?s1 = (err, s')"
    by (simp add: Reconcile_def runs)
  have "gr.keeps (mint_ok r (tag_permitted (parser_of r) svc)) sid (reconcile_found r sid svc)"
    by (rule minted.reconcile_found) (rule Parse_tag)
  from gr.keepsD [OF this found] show ?thesis by (fastforce simp: grows_def)
qed

text \<open>
  Every pre-auth key a reconcile asks for is ephemeral, single use, owned by the
  configured user, lives for the configured time, and carries one ACL tag that the
  allowlist permits for the very service that was inspected.
\<close>

theorem Reconcile_mints_permitted_tags:
  assumes "run_state (Reconcile r sid) s = (err, s')" and "rs_trace s' = rs_trace s @ es"
    and "EvMint req res \<in> set es"
  shows "kr_Ephemeral req \<and> \<not> kr_Reusable req \<and> kr_User req = hs_User (cfg_Headscale (rec_Cfg r)) \<and>
    kr_Expiration req = hs_KeyExpiration (cfg_Headscale (rec_Cfg r)) \<and>
    (\<exists>svc tag. EvInspect sid (Inr svc) \<in> set es \<and> kr_Tags req = [tag] \<and>
       tag_permitted (parser_of r) svc tag)"
proof -
  have mint: "mint_ok r ok (EvMint req res)" if "list_all (mint_ok r ok) es" for ok
    using that assms(3) by (simp only: list_all_iff)
  from Reconcile_mint_ok [OF assms(1)] assms(2) obtain svc where
    "EvInspect sid (Inr svc) \<in> set es" "list_all (mint_ok r (tag_permitted (parser_of r) svc)) es"
    using mint [of "\<lambda>_. False"] by auto
  then show ?thesis using mint by (fastforce simp: key_request_def)
qed

theorem Reconcile_mints_permitted_tags_witness:
  "\<exists>req res. EvMint req res \<in> set (rs_trace (snd (run_state (Reconcile demo_rec ''app1'') \<lparr>rs_store = [], rs_trace = []\<rparr>)))
     \<and> kr_Ephemeral req \<and> \<not> kr_Reusable req"
proof -
  obtain err s' where run: "run_state (Reconcile demo_rec ''app1'') \<lparr>rs_store = [], rs_trace = []\<rparr> = (err, s')"
    by fastforce
  moreover from run have "\<exists>es. rs_trace s' = demo_start @ es"
    using demo_Reconcile_trace by simp
  ultimately obtain es where "rs_trace s' = demo_start @ es" by blast
  with Reconcile_mints_permitted_tags [OF run, of "demo_start @ es" "key_request demo_rec ''tag:team-web''" "Inr calm_key"] run
  show ?thesis by (auto simp: demo_start_def)
qed

text \<open>
  C28: key creation is rate limited. Every request for a key in a reconcile comes directly
  after a wait on the limiter that succeeded.
\<close>

theorem Reconcile_paces_mints:
  assumes "run_state (Reconcile r sid) s = (err, s')" and "rs_trace s' = rs_trace s @ xs @ EvMint q x # ys"
  shows "\<exists>zs. xs = zs @ [EvWait None]"
  using pc.keepsD [OF pacer.Reconcile assms(1)] assms(2) by (auto simp: pacing_def paced_def)

theorem Reconcile_paces_mints_witness:
  "\<exists>err s' xs zs q x ys. run_state (Reconcile demo_rec ''app1'') \<lparr>rs_store = [], rs_trace = []\<rparr> = (err, s') \<and>
     rs_trace s' = xs @ EvMint q x # ys \<and> xs = zs @ [EvWait None]"
proof -
  obtain err s' where run: "run_state (Reconcile demo_rec ''app1'') \<lparr>rs_store = [], rs_trace = []\<rparr> = (err, s')"
    by fastforce
  then obtain es where "rs_trace s' = demo_start @ es" using demo_Reconcile_trace by auto
  then have tr: "rs_trace s' = [EvInspect ''app1'' (Inr demo_svc), EvNetworks (Inr []), EvWait None] @
      EvMint (key_request demo_rec ''tag:team-web'') (Inr calm_key) # es"
    by (simp add: demo_start_def)
  then have "\<exists>zs. [EvInspect ''app1'' (Inr demo_svc), EvNetworks (Inr []), EvWait None] = zs @ [EvWait None]"
    by (intro Reconcile_paces_mints [OF run]) simp
  with run tr show ?thesis by blast
qed

text \<open>
  The ingress lifecycle never creates, updates or removes a Docker service, so an
  ingress-only deployment needs no write access to the Docker API.
\<close>

theorem reconcileIngress_reads_only:
  assumes "run_state (reconcileIngress r sid tgt) s = (err, s')"
  shows "\<exists>es. rs_trace s' = rs_trace s @ es \<and> (\<forall>e \<in> set es. \<not> docker_write e)"
  using gr.keepsD [OF readonly.reconcileIngress assms] by (auto simp: grows_def list_all_iff)

theorem reconcileIngress_reads_only_witness:
  "\<exists>es. rs_trace (snd (run_state (reconcileIngress demo_rec ''a'' zeroTarget) demo_state)) = es \<and>
     es \<noteq> [] \<and> (\<forall>e \<in> set es. \<not> docker_write e)"
proof -
  obtain err s' where run: "run_state (reconcileIngress demo_rec ''a'' zeroTarget) demo_state = (err, s')"
    by fastforce
  then have "rs_trace s' \<noteq> []"
    by (auto simp: reconcileIngress_def teardownIngress_def zeroTarget_def demo_state_def demo_entry_def
        zeroEntry_def store_Get_def runs demo_rec_def NewReconciler_def Let_def calm_env_def split: if_splits)
  then show ?thesis
    using reconcileIngress_reads_only [OF run] run by (auto simp: demo_state_def)
qed

end
