(* ===== verification/Reconciler_Steps.thy ===== *)
theory Reconciler_Steps
  imports Reconciler_Frame
begin

text \<open>
  What one operation on one gateway does, in the form the properties of the reconciler use:
  the store is untouched, the trace grows, the keys minted meanwhile are accounted for, and
  the returned reference is the right one. The lemmas for the two loops of the egress
  reconcile follow by induction.
\<close>

section \<open>Keys in a trace\<close>

fun mint_of :: "event \<Rightarrow> string set" where
  "mint_of (EvMint _ (Inr k)) = {key_ID k}"
| "mint_of _ = {}"

fun expire_of :: "event \<Rightarrow> string set" where
  "expire_of (EvExpire k _) = {k}"
| "expire_of _ = {}"

definition minted :: "trace \<Rightarrow> string set" where
  "minted es = (\<Union>e \<in> set es. mint_of e)"

definition expired :: "trace \<Rightarrow> string set" where
  "expired es = (\<Union>e \<in> set es. expire_of e)"

lemma minted_simps [simp]:
  "minted [] = {}" "minted (e # es) = mint_of e \<union> minted es" "minted (xs @ ys) = minted xs \<union> minted ys"
  by (auto simp: minted_def)

lemma expired_simps [simp]:
  "expired [] = {}" "expired (e # es) = expire_of e \<union> expired es"
  "expired (xs @ ys) = expired xs \<union> expired ys"
  by (auto simp: expired_def)

text \<open>Every key minted in a trace was expired in it, is held, or has no ID to expire it by.\<close>

definition accounted :: "string set \<Rightarrow> trace \<Rightarrow> bool" where
  "accounted held es \<longleftrightarrow> minted es \<subseteq> expired es \<union> held \<union> {[]}"

lemma accounted_Nil [simp]: "accounted held []"
  by (simp add: accounted_def)

lemma accounted_append: "accounted a xs \<Longrightarrow> accounted b ys \<Longrightarrow> accounted (a \<union> b) (xs @ ys)"
  by (auto simp: accounted_def)

lemma accounted_mono: "accounted a es \<Longrightarrow> a \<subseteq> b \<Longrightarrow> accounted b es"
  by (auto simp: accounted_def)

abbreviation extend :: "rstate \<Rightarrow> trace \<Rightarrow> rstate" where
  "extend s es \<equiv> s\<lparr>rs_trace := rs_trace s @ es\<rparr>"

text \<open>The events between two states, and that nothing but the trace changed.\<close>

definition since :: "rstate \<Rightarrow> rstate \<Rightarrow> trace" where
  "since s s' = drop (length (rs_trace s)) (rs_trace s')"

definition silent :: "rstate \<Rightarrow> rstate \<Rightarrow> bool" where
  "silent s s' \<longleftrightarrow> (\<exists>es. s' = extend s es)"

lemma since_extend [simp]: "since s (extend s es) = es" "since s s = []" "since s (s\<lparr>rs_store := st\<rparr>) = []"
    "since s (s\<lparr>rs_trace := rs_trace s @ es, rs_store := st\<rparr>) = es"
  by (simp_all add: since_def)

lemma silent_extend [simp]: "silent s (extend s es)" "silent s s"
  by (auto simp: silent_def) (metis append_Nil2 rstate.surjective rstate.update_convs(2))

lemma silentE: "silent s s' \<Longrightarrow> (s' = extend s (since s s') \<Longrightarrow> P) \<Longrightarrow> P"
  by (auto simp: silent_def)

lemma silent_trans [trans]: "silent s t \<Longrightarrow> silent t u \<Longrightarrow> silent s u"
  by (auto simp: silent_def)

lemma since_silent: "silent s t \<Longrightarrow> silent t u \<Longrightarrow> since s u = since s t @ since t u"
  by (auto simp: silent_def since_def)

lemma silent_store: "silent s t \<Longrightarrow> rs_store t = rs_store s"
  by (auto simp: silent_def)

text \<open>For operations that also write the store: the trace only grows.\<close>

definition later :: "rstate \<Rightarrow> rstate \<Rightarrow> bool" where
  "later s s' \<longleftrightarrow> (\<exists>es. rs_trace s' = rs_trace s @ es)"

lemma later_trace: "later s s' \<Longrightarrow> rs_trace s' = rs_trace s @ since s s'"
  by (auto simp: later_def since_def)

lemma since_later: "later s t \<Longrightarrow> later t u \<Longrightarrow> since s u = since s t @ since t u"
  by (auto simp: later_def since_def)

lemma silent_later: "silent s t \<Longrightarrow> later s t"
  by (auto simp: silent_def later_def)

lemma grows_later: "grows Q sid s t \<Longrightarrow> later s t"
  by (auto simp: grows_def later_def)

abbreviation entry_of :: "rstate \<Rightarrow> string \<Rightarrow> entry" where
  "entry_of s sid \<equiv> fst (store_Get (rs_store s) sid)"

lemma accounted_since:
  "silent s t \<Longrightarrow> silent t u \<Longrightarrow> accounted a (since s t) \<Longrightarrow> accounted b (since t u) \<Longrightarrow>
     accounted (a \<union> b) (since s u)"
  using since_silent [of s t u] accounted_append [of a "since s t" b "since t u"] by simp

section \<open>One gateway\<close>

lemma run_expireOrLog [runs]:
  "run_state (expireOrLog r k) s =
     ((), extend s (if k = [] then [] else [EvExpire k (env_expire (rec_env r) (rs_trace s) k)]))"
  by (simp add: expireOrLog_def runs)

definition ref_keys :: "goerr + gatewayRef \<Rightarrow> string set" where
  "ref_keys x = (case x of Inl _ \<Rightarrow> {} | Inr ref \<Rightarrow> {gr_KeyID ref})"

text \<open>The reference names a gateway that runs the desired spec for the target.\<close>

definition current_ref :: "reconciler \<Rightarrow> egressSpec \<Rightarrow> egressTarget \<Rightarrow> gatewayRef \<Rightarrow> bool" where
  "current_ref r eg t ref \<longleftrightarrow>
     gr_Target ref = addr t \<and> gr_Hash ref = targetGatewayHash eg t (rec_GatewayImage r)"

lemma current_gateway_ref [simp]: "current_ref r eg t (gateway_ref r eg t gwID key)"
  by (simp add: current_ref_def gateway_ref_def)

lemma gateway_ref_KeyID [simp]: "gr_KeyID (gateway_ref r eg t gwID key) = key_ID key"
  by (simp add: gateway_ref_def)

lemma adoptExistingGateway_run:
  assumes "run_state (adoptExistingGateway r eg t spec key) s = (x, s')"
  shows "silent s s' \<and> minted (since s s') = {} \<and>
    (case x of Inl _ \<Rightarrow> key_ID key \<in> expired (since s s') \<union> {[]}
             | Inr ref \<Rightarrow> current_ref r eg t ref \<and> gr_KeyID ref = key_ID key)"
  using assms by (auto simp: adoptExistingGateway_def runs split: sum.splits list.splits option.splits if_splits)

lemma createGateway_run:
  assumes "run_state (createGateway r sid eg t) s = (x, s')"
  shows "silent s s' \<and> accounted (ref_keys x) (since s s') \<and>
    (\<forall>ref. x = Inr ref \<longrightarrow> current_ref r eg t ref)"
proof -
  let ?e = "rec_env r"
  let ?wait = "env_wait ?e (rs_trace s)"
  let ?s1 = "extend s [EvWait ?wait]"
  let ?mint = "env_mint ?e (rs_trace ?s1) (key_request r (eg_Tag eg))"
  let ?s2 = "extend s [EvWait ?wait, EvMint (key_request r (eg_Tag eg)) ?mint]"
  show ?thesis
  proof (cases "?wait = None \<and> \<not> isl ?mint")
    case False
    with assms show ?thesis
      by (auto simp: createGateway_def runs isl_def accounted_def split: sum.splits option.splits)
  next
    case True
    then obtain key where key: "?mint = Inr key" by (cases ?mint) auto
    let ?spec = "gatewaySpec eg t sid (rec_Cfg r) (rec_GatewayImage r) (key_Secret key)"
    let ?c = "env_create ?e (rs_trace ?s2) ?spec"
    let ?s3 = "extend ?s2 [EvCreate ?spec ?c]"
    have run: "run_state (createGateway r sid eg t) s =
      (case ?c of
         Inl e \<Rightarrow> if errors_is e ServiceExists then run_state (adoptExistingGateway r eg t ?spec key) ?s3
                  else (Inl (ErrWrap (''create gateway for '' @ sid @ '' target '' @ addr t) e),
                        snd (run_state (expireOrLog r (key_ID key)) ?s3))
       | Inr gwID \<Rightarrow> (Inr (gateway_ref r eg t gwID key), ?s3))"
      using True key by (simp add: createGateway_def Let_def runs split: sum.splits option.splits)
    show ?thesis
    proof (cases "\<exists>e. ?c = Inl e \<and> errors_is e ServiceExists")
      case True
      with assms run have a: "run_state (adoptExistingGateway r eg t ?spec key) ?s3 = (x, s')" by auto
      have sil: "silent s ?s3" by simp
      from adoptExistingGateway_run [OF a] since_silent [OF sil, of s'] silent_trans [OF sil, of s'] key
      show ?thesis by (auto simp: accounted_def ref_keys_def split: sum.splits)
    next
      case False
      with assms run key show ?thesis
        by (auto simp: runs accounted_def ref_keys_def split: sum.splits if_splits)
    qed
  qed
qed

lemma updateGateway_run:
  assumes "run_state (updateGateway r sid eg t ref) s = ((ref', found, err), s')"
  shows "silent s s' \<and>
    accounted (if found \<and> err = None then {gr_KeyID ref'} else {}) (since s s') \<and>
    (found \<and> err = None \<longrightarrow> current_ref r eg t ref' \<and> gr_ServiceID ref' = gr_ServiceID ref \<and>
       gr_KeyID ref \<in> expired (since s s') \<union> {[], gr_KeyID ref'}) \<and>
    (\<not> found \<longrightarrow> err = None)"
  using assms by (auto simp: updateGateway_def Let_def runs accounted_def gateway_ref_def current_ref_def
      split: sum.splits option.splits if_splits)

lemma removeGateway_run:
  assumes "run_state (removeGateway r ref) s = (err, s')"
  shows "silent s s' \<and> minted (since s s') = {} \<and>
    (err = None \<longrightarrow> gr_KeyID ref \<in> expired (since s s') \<union> {[]} \<and>
       (\<exists>d. EvRemove (gr_ServiceID ref) d \<in> set (since s s')))"
  using assms by (auto simp: removeGateway_def runs split: option.splits if_splits)

section \<open>The tracked map\<close>

text \<open>Every reference sits under its own target.\<close>

definition keyed :: "(string, gatewayRef) gomap \<Rightarrow> bool" where
  "keyed m \<longleftrightarrow> distinct (gm_keys m) \<and> (\<forall>a ref. map_of m a = Some ref \<longrightarrow> gr_Target ref = a)"

definition keys_on :: "string set \<Rightarrow> (string, gatewayRef) gomap \<Rightarrow> string set" where
  "keys_on A m = {gr_KeyID ref | a ref. a \<in> A \<and> map_of m a = Some ref}"

lemma keyed_Nil [simp]: "keyed []"
  by (simp add: keyed_def)

lemma keyed_put [simp]: "keyed m \<Longrightarrow> gr_Target ref = a \<Longrightarrow> keyed (gm_put a ref m)"
  by (simp add: keyed_def)

lemma keyed_del [simp]: "keyed m \<Longrightarrow> keyed (gm_del a m)"
  by (simp add: keyed_def)

lemma keyed_stored [simp]: "keyed (stored_gateways prev)"
proof -
  have "keyed m \<Longrightarrow> keyed (foldl (\<lambda>m ref. gm_put (gr_Target ref) ref m) m refs)" for m refs
    by (induction refs arbitrary: m) auto
  then show ?thesis by (simp add: stored_gateways_def)
qed

lemma keyed_adopt: "keyed out \<Longrightarrow> keyed (adopt_loop bySvc out gws)"
  by (induction bySvc out gws rule: adopt_loop.induct) (auto simp: Let_def)

text \<open>Adoption keeps what is stored and adds references without a key.\<close>

lemma map_of_adopt:
  "map_of out a = Some ref \<Longrightarrow> map_of (adopt_loop bySvc out gws) a = Some ref"
proof (induction bySvc out gws rule: adopt_loop.induct)
  case (2 bySvc out gw gws)
  then show ?case by (cases "gatewayTargetAddr gw = a") (auto simp: Let_def)
qed simp

lemma adopt_new:
  "map_of (adopt_loop bySvc out gws) a = Some ref \<Longrightarrow> map_of out a = Some ref \<or> gr_KeyID ref = []"
  by (induction bySvc out gws rule: adopt_loop.induct) (auto simp: Let_def split: if_splits)

lemma map_of_stored:
  "map_of (stored_gateways prev) = map_of (rev (map (\<lambda>ref. (gr_Target ref, ref)) (en_Gateways prev)))"
proof -
  have "map_of (foldl (\<lambda>m ref. gm_put (gr_Target ref) ref m) m refs) =
      map_of m ++ map_of (rev (map (\<lambda>ref. (gr_Target ref, ref)) refs))" for m refs
    by (induction refs arbitrary: m) (auto simp: map_add_upd_left)
  from this [of "[]"] show ?thesis by (simp add: stored_gateways_def)
qed

text \<open>Flattening the map for the store and indexing it again gives the same map.\<close>

lemma sortedGateways_set: "set (sortedGateways m) = snd ` set m"
  by (simp add: sortedGateways_def)

lemma keyed_pairs: "keyed m \<Longrightarrow> map (\<lambda>ref. (gr_Target ref, ref)) (map snd m) = m"
  by (auto simp: keyed_def comp_def intro!: map_idI)

lemma sortedGateways_targets:
  assumes "keyed m"
  shows "sorted (map gr_Target (sortedGateways m))"
    and "distinct (map gr_Target (sortedGateways m))"
    and "set (map gr_Target (sortedGateways m)) = dom (map_of m)"
proof -
  have ks: "map gr_Target (map snd m) = gm_keys m"
    using arg_cong [OF keyed_pairs [OF assms], of "map fst"] by (simp add: comp_def)
  have "mset (map gr_Target (sortedGateways m)) = image_mset gr_Target (mset (map snd m))"
    by (simp only: sortedGateways_def mset_map mset_sort)
  also have "\<dots> = mset (gm_keys m)"
    by (simp only: ks [symmetric] mset_map)
  finally have perm: "mset (map gr_Target (sortedGateways m)) = mset (gm_keys m)" .
  show "distinct (map gr_Target (sortedGateways m))"
    using mset_eq_imp_distinct_iff [OF perm] assms by (simp add: keyed_def)
  show "set (map gr_Target (sortedGateways m)) = dom (map_of m)"
    using mset_eq_setD [OF perm] set_gm_keys by metis
qed (simp add: sortedGateways_def)

lemma stored_sorted:
  assumes "keyed m" and "en_Gateways e = sortedGateways m"
  shows "map_of (stored_gateways e) = map_of m"
proof -
  let ?pairs = "map (\<lambda>ref. (gr_Target ref, ref)) (sortedGateways m)"
  have "set (rev ?pairs) = set m"
    using arg_cong [OF keyed_pairs [OF assms(1)], of set] by (simp add: sortedGateways_set image_image)
  moreover have "distinct (map fst (rev ?pairs))"
    using sortedGateways_targets(2) [OF assms(1)] by (simp add: comp_def rev_map [symmetric])
  ultimately have "map_of (rev ?pairs) = map_of m"
    using assms(1) by (subst map_of_inject_set) (auto simp: keyed_def)
  then show ?thesis by (simp add: map_of_stored assms(2))
qed

section \<open>The loops of the egress reconcile\<close>

text \<open>What an iteration of the second loop does to the tracked map, and what it leaves for its target.\<close>

definition ensured ::
  "reconciler \<Rightarrow> egressSpec \<Rightarrow> string \<Rightarrow> egressTarget \<Rightarrow> rstate \<Rightarrow> (string, gatewayRef) gomap \<Rightarrow>
     goerr list \<Rightarrow> rstate \<Rightarrow> (string, gatewayRef) gomap \<Rightarrow> bool" where
  "ensured r eg a t s m errs s' m' \<longleftrightarrow>
     silent s s' \<and> keyed m' \<and> accounted (keys_on {a} m') (since s s') \<and>
     (\<forall>a'. a' \<noteq> a \<longrightarrow> map_of m' a' = map_of m a') \<and>
     (if errs = [] then \<exists>ref. map_of m' a = Some ref \<and> current_ref r eg t ref else map_of m' a = None)"

text \<open>The tracked gateway drifted: it is updated in place, or created again when it is gone.\<close>

lemma ensure_drifted:
  assumes run: "run_state (ensure_gateway r sid eg a t m) s = ((m', errs), s')"
    and keyed: "keyed m" and a: "addr t = a" and ref: "map_of m a = Some ref"
    and drift: "gr_Hash ref \<noteq> targetGatewayHash eg t (rec_GatewayImage r)"
  shows "ensured r eg a t s m errs s' m'"
proof -
  have tgt: "gr_Target ref = a" using keyed ref by (simp add: keyed_def)
  obtain u found err s1 where u: "run_state (updateGateway r sid eg t ref) s = ((u, found, err), s1)"
    by (metis prod_cases3 surj_pair)
  note ur = updateGateway_run [OF u]
  show ?thesis
  proof (cases "err = None \<and> \<not> found")
    case True
    obtain x where c: "run_state (createGateway r sid eg t) s1 = (x, s')"
      and x: "(m', errs) = (case x of Inl e \<Rightarrow> (gm_del a m, [e]) | Inr ref' \<Rightarrow> (gm_put a ref' (gm_del a m), []))"
      using run ref drift u True by (auto simp: ensure_gateway_def runs split: prod.splits)
    note cr = createGateway_run [OF c]
    have "silent s s'" using ur cr silent_trans by blast
    moreover have "accounted (ref_keys x) (since s s')"
      using accounted_since [of s s1 s' "{}" "ref_keys x"] ur cr True by simp
    ultimately show ?thesis
      using cr x keyed a
      by (cases x) (auto simp: ensured_def keys_on_def ref_keys_def current_ref_def)
  next
    case no: False
    with run ref drift u have "s' = s1"
      and "(m', errs) = (case err of Some e \<Rightarrow> (gm_del a m, [e]) | None \<Rightarrow> (gm_put a u m, []))"
      by (auto simp: ensure_gateway_def split: option.splits if_splits)
    with ur no keyed a tgt show ?thesis
      by (cases err) (auto simp: ensured_def keys_on_def current_ref_def accounted_def)
  qed
qed

lemma ensure_missing:
  assumes run: "run_state (ensure_gateway r sid eg a t m) s = ((m', errs), s')"
    and keyed: "keyed m" and a: "addr t = a" and none: "map_of m a = None"
  shows "ensured r eg a t s m errs s' m'"
proof -
  obtain x where c: "run_state (createGateway r sid eg t) s = (x, s')"
    and x: "(m', errs) = (case x of Inl e \<Rightarrow> (m, [e]) | Inr ref \<Rightarrow> (gm_put a ref m, []))"
    using run none by (auto simp: ensure_gateway_def runs split: prod.splits)
  from createGateway_run [OF c] x none keyed a show ?thesis
    by (cases x) (auto simp: ensured_def keys_on_def ref_keys_def current_ref_def accounted_def)
qed

lemma ensure_gateway_run:
  assumes run: "run_state (ensure_gateway r sid eg a t m) s = ((m', errs), s')"
    and keyed: "keyed m" and a: "addr t = a"
  shows "ensured r eg a t s m errs s' m' \<and> (\<forall>ref. map_of m a = Some ref \<and> current_ref r eg t ref \<longrightarrow> m' = m)"
proof (cases "map_of m a")
  case None
  with ensure_missing [OF assms] show ?thesis by simp
next
  case (Some ref)
  show ?thesis
  proof (cases "gr_Hash ref = targetGatewayHash eg t (rec_GatewayImage r)")
    case True
    with run Some keyed a show ?thesis by (auto simp: ensure_gateway_def ensured_def current_ref_def keyed_def)
  next
    case False
    with ensure_drifted [OF assms Some] Some show ?thesis by (auto simp: current_ref_def)
  qed
qed

lemma keys_on_Un: "keys_on (A \<union> B) m = keys_on A m \<union> keys_on B m"
  by (auto simp: keys_on_def)

lemma keys_on_cong: "(\<And>a. a \<in> A \<Longrightarrow> map_of m a = map_of m' a) \<Longrightarrow> keys_on A m = keys_on A m'"
  unfolding keys_on_def by (intro Collect_cong) (metis (full_types))

text \<open>After the second loop every desired target has an up-to-date gateway, or an error was
  collected and the target is not tracked.\<close>

definition settled ::
  "reconciler \<Rightarrow> egressSpec \<Rightarrow> (string, egressTarget) gomap \<Rightarrow> (string, gatewayRef) gomap \<Rightarrow> string \<Rightarrow> bool" where
  "settled r eg desired m a \<longleftrightarrow>
     (\<forall>t. map_of desired a = Some t \<longrightarrow> (\<exists>ref. map_of m a = Some ref \<and> current_ref r eg t ref))"

text \<open>What a part of the second loop that visits the targets \<open>A\<close> does to the tracked map.\<close>

definition ensures ::
  "reconciler \<Rightarrow> egressSpec \<Rightarrow> (string, egressTarget) gomap \<Rightarrow> string set \<Rightarrow>
     rstate \<Rightarrow> (string, gatewayRef) gomap \<Rightarrow> rstate \<Rightarrow> (string, gatewayRef) gomap \<Rightarrow> bool" where
  "ensures r eg desired A s m s' m' \<longleftrightarrow>
     silent s s' \<and> keyed m' \<and> accounted (keys_on A m') (since s s') \<and>
     (\<forall>a. a \<notin> A \<or> map_of desired a = None \<longrightarrow> map_of m' a = map_of m a) \<and>
     (\<forall>a t ref. map_of desired a = Some t \<and> map_of m a = Some ref \<and> current_ref r eg t ref \<longrightarrow> map_of m' a = Some ref)"

lemma ensures_one:
  assumes "run_state (ensure_gateway r sid eg a t m) s = ((m', es), s')"
    and "keyed m" and "addr t = a" and "map_of desired a = Some t"
  shows "ensures r eg desired {a} s m s' m'" and "es = [] \<Longrightarrow> settled r eg desired m' a"
proof -
  note en = ensure_gateway_run [OF assms(1-3)]
  have "map_of m' b = Some ref"
    if "map_of desired b = Some u" "map_of m b = Some ref" "current_ref r eg u ref" for b u ref
    using that en assms(4) by (cases "b = a") (auto simp: ensured_def)
  then show "ensures r eg desired {a} s m s' m'" using en assms(4) by (auto simp: ensures_def ensured_def)
  show "settled r eg desired m' a" if "es = []" using that en assms(4) by (simp add: settled_def ensured_def)
qed

lemma ensures_skip:
  assumes "ensures r eg desired A s m s' m'" and "map_of desired a = None"
  shows "ensures r eg desired (insert a A) s m s' m'"
proof -
  have "keys_on A m' \<subseteq> keys_on (insert a A) m'" by (auto simp: keys_on_def)
  with assms accounted_mono show ?thesis unfolding ensures_def by blast
qed

lemma ensures_then:
  assumes "ensures r eg desired {a} s m s1 m1" and "ensures r eg desired A s1 m1 s' m'" and "a \<notin> A"
  shows "ensures r eg desired (insert a A) s m s' m'"
proof -
  have same: "map_of m' a = map_of m1 a" using assms(2,3) by (simp add: ensures_def)
  have "accounted (keys_on {a} m1 \<union> keys_on A m') (since s s')"
    using accounted_since assms(1,2) unfolding ensures_def by blast
  then have "accounted (keys_on (insert a A) m') (since s s')"
    using keys_on_Un [of "{a}" A m'] keys_on_cong [of "{a}" m1 m'] same by simp
  moreover have "silent s s'" using silent_trans assms(1,2) unfolding ensures_def by blast
  ultimately show ?thesis using assms(1,2) unfolding ensures_def by (metis insert_iff singletonD)
qed

lemma create_loop_ensures:
  assumes "run_state (create_loop r sid eg desired as tracked errs) s = ((tracked', errs'), s')"
    and "keyed tracked" and "distinct as" and "\<And>a t. map_of desired a = Some t \<Longrightarrow> addr t = a"
  shows "ensures r eg desired (set as) s tracked s' tracked' \<and>
    (\<exists>es. errs' = errs @ es \<and> (es = [] \<longrightarrow> (\<forall>a \<in> set as. settled r eg desired tracked' a)))"
  using assms(1-3)
proof (induction as arbitrary: tracked errs s)
  case Nil
  then show ?case by (simp add: keys_on_def ensures_def)
next
  case (Cons a as)
  show ?case
  proof (cases "map_of desired a")
    case None
    with Cons.prems Cons.IH [of tracked errs s] ensures_skip [of r eg desired "set as"] show ?thesis
      by (auto simp: settled_def)
  next
    case (Some t)
    obtain m es1 s1 where e: "run_state (ensure_gateway r sid eg a t tracked) s = ((m, es1), s1)"
      by (metis surj_pair)
    note one = ensures_one [OF e Cons.prems(2) assms(4) [OF Some] Some]
    have "run_state (create_loop r sid eg desired as m (errs @ es1)) s1 = ((tracked', errs'), s')"
      using Cons.prems(1) Some e by simp
    from Cons.IH [OF this] one(1) Cons.prems(3) obtain es where
      rest: "ensures r eg desired (set as) s1 m s' tracked'" and es: "errs' = errs @ es1 @ es"
        "es = [] \<longrightarrow> (\<forall>a \<in> set as. settled r eg desired tracked' a)"
      by (auto simp: ensures_def)
    have "map_of tracked' a = map_of m a" using rest Cons.prems(3) by (simp add: ensures_def)
    then have "settled r eg desired tracked' a" if "es1 = []" using one(2) [OF that] by (simp add: settled_def)
    with es ensures_then [OF one(1) rest] Cons.prems(3) show ?thesis by auto
  qed
qed

lemma create_loop_run:
  assumes "run_state (create_loop r sid eg desired as tracked errs) s = ((tracked', errs'), s')"
    and "keyed tracked" and "distinct as" and "\<And>a t. map_of desired a = Some t \<Longrightarrow> addr t = a"
  shows "silent s s' \<and> keyed tracked' \<and> accounted (keys_on (set as) tracked') (since s s') \<and>
    (\<forall>a. a \<notin> set as \<or> map_of desired a = None \<longrightarrow> map_of tracked' a = map_of tracked a) \<and>
    (\<forall>a t ref. map_of desired a = Some t \<and> map_of tracked a = Some ref \<and> current_ref r eg t ref
       \<longrightarrow> map_of tracked' a = Some ref) \<and>
    (\<exists>es. errs' = errs @ es \<and> (es = [] \<longrightarrow> (\<forall>a \<in> set as. settled r eg desired tracked' a)))"
  using create_loop_ensures [OF assms] unfolding ensures_def by blast

text \<open>What a part of the first loop does: a gateway that is no longer tracked has been removed.\<close>

definition dropped :: "rstate \<Rightarrow> rstate \<Rightarrow> gatewayRef \<Rightarrow> bool" where
  "dropped s s' ref \<longleftrightarrow>
     gr_KeyID ref \<in> expired (since s s') \<union> {[]} \<and> (\<exists>d. EvRemove (gr_ServiceID ref) d \<in> set (since s s'))"

definition removes ::
  "(string, egressTarget) gomap \<Rightarrow> rstate \<Rightarrow> (string, gatewayRef) gomap \<Rightarrow> rstate \<Rightarrow> (string, gatewayRef) gomap \<Rightarrow> bool" where
  "removes desired s m s' m' \<longleftrightarrow>
     silent s s' \<and> keyed m' \<and> minted (since s s') = {} \<and>
     (\<forall>a. map_of desired a \<noteq> None \<longrightarrow> map_of m' a = map_of m a) \<and>
     (\<forall>a ref. map_of m a = Some ref \<longrightarrow> map_of m' a = Some ref \<or> map_of m' a = None \<and> dropped s s' ref) \<and>
     dom (map_of m') \<subseteq> dom (map_of m)"

lemma removes_refl: "keyed m \<Longrightarrow> removes desired s m s m"
  by (simp add: removes_def)

lemma removes_one:
  assumes "run_state (removeGateway r ref) s = (e, s')" and "keyed m" and "map_of m a = Some ref" and "map_of desired a = None"
  shows "removes desired s m s' (if e = None then gm_del a m else m)"
  using removeGateway_run [OF assms(1)] assms(2-4) by (auto simp: removes_def dropped_def)

lemma removes_trans:
  assumes "removes desired s m s1 m1" and "removes desired s1 m1 s' m'"
  shows "removes desired s m s' m'"
proof -
  have sil: "silent s s'" "since s s' = since s s1 @ since s1 s'"
    using assms silent_trans since_silent unfolding removes_def by blast+
  have "map_of m' a = Some ref \<or> map_of m' a = None \<and> dropped s s' ref" if "map_of m a = Some ref" for a ref
  proof (cases "map_of m1 a")
    case None
    then have "dropped s s1 ref" using assms(1) that unfolding removes_def by (metis option.distinct(1))
    moreover have "map_of m' a = None" using assms(2) None by (auto simp: removes_def dom_def)
    ultimately have "dropped s s1 ref" "map_of m' a = None" by blast+
    then show ?thesis using sil(2) by (auto simp: dropped_def)
  next
    case (Some ref1)
    then have "ref1 = ref" using assms(1) that unfolding removes_def by (metis option.distinct(1) option.inject)
    with Some have "map_of m' a = Some ref \<or> map_of m' a = None \<and> dropped s1 s' ref"
      using assms(2) unfolding removes_def by blast
    then show ?thesis using sil(2) by (auto simp: dropped_def)
  qed
  moreover have "minted (since s s') = {}" using assms sil(2) by (simp add: removes_def)
  moreover have "\<forall>a. map_of desired a \<noteq> None \<longrightarrow> map_of m' a = map_of m a" "dom (map_of m') \<subseteq> dom (map_of m)"
    using assms unfolding removes_def by (metis, blast)
  ultimately show ?thesis using assms(2) sil(1) unfolding removes_def by blast
qed

lemma remove_loop_removes:
  assumes "run_state (remove_loop r desired as tracked errs) s = ((tracked', errs'), s')" and "keyed tracked"
  shows "removes desired s tracked s' tracked' \<and>
    (\<exists>es. errs' = errs @ es \<and>
       (es = [] \<longrightarrow> (\<forall>a \<in> set as. map_of desired a = None \<longrightarrow> map_of tracked' a = None)))"
  using assms
proof (induction as arbitrary: tracked errs s)
  case Nil
  then show ?case by (simp add: removes_refl)
next
  case (Cons a as)
  show ?case
  proof (cases "map_of desired a = None \<and> map_of tracked a \<noteq> None")
    case False
    with Cons.prems have rest: "run_state (remove_loop r desired as tracked errs) s = ((tracked', errs'), s')"
      by (auto split: if_splits option.splits)
    note IH = Cons.IH [OF this Cons.prems(2)]
    have "map_of tracked' a = None" if "map_of desired a = None"
      using that False IH by (auto simp: removes_def dom_def)
    with IH show ?thesis by auto
  next
    case True
    then obtain ref where ref: "map_of tracked a = Some ref" by auto
    obtain e s1 where e: "run_state (removeGateway r ref) s = (e, s1)" by fastforce
    let ?m = "if e = None then gm_del a tracked else tracked"
    have one: "removes desired s tracked s1 ?m" using removes_one [OF e Cons.prems(2) ref] True by simp
    have "run_state (remove_loop r desired as ?m (errs @ (case e of None \<Rightarrow> [] | Some x \<Rightarrow> [x]))) s1 = ((tracked', errs'), s')"
      using Cons.prems(1) True ref e by (auto split: option.splits)
    from Cons.IH [OF this] one obtain es where
      rest: "removes desired s1 ?m s' tracked'" and es: "errs' = errs @ (case e of None \<Rightarrow> [] | Some x \<Rightarrow> [x]) @ es"
        "es = [] \<longrightarrow> (\<forall>a \<in> set as. map_of desired a = None \<longrightarrow> map_of tracked' a = None)"
      by (auto simp: removes_def)
    have "map_of tracked' a = None" if "e = None" using that rest by (auto simp: removes_def)
    with es removes_trans [OF one rest] show ?thesis by (cases e) auto
  qed
qed

lemma remove_loop_run:
  assumes "run_state (remove_loop r desired as tracked errs) s = ((tracked', errs'), s')"
    and "keyed tracked"
  shows "silent s s' \<and> keyed tracked' \<and> minted (since s s') = {} \<and>
    (\<forall>a. map_of desired a \<noteq> None \<longrightarrow> map_of tracked' a = map_of tracked a) \<and>
    (\<forall>a ref. map_of tracked a = Some ref \<longrightarrow> map_of tracked' a = Some ref \<or>
       (map_of tracked' a = None \<and> gr_KeyID ref \<in> expired (since s s') \<union> {[]} \<and>
        (\<exists>d. EvRemove (gr_ServiceID ref) d \<in> set (since s s')))) \<and>
    dom (map_of tracked') \<subseteq> dom (map_of tracked) \<and>
    (\<exists>es. errs' = errs @ es \<and>
       (es = [] \<longrightarrow> (\<forall>a \<in> set as. map_of desired a = None \<longrightarrow> map_of tracked' a = None)))"
  using remove_loop_removes [OF assms] unfolding removes_def dropped_def by blast

end
