(* ===== verification/Reconciler_Ingress.thy ===== *)
theory Reconciler_Ingress
  imports Reconciler_Steps
begin

text \<open>
  The ingress proxy lifecycle: the three outcomes of \<^verbatim>\<open>reconcileIngress\<close> for a service that
  opts in, what \<^verbatim>\<open>teardownIngress\<close> leaves behind, and from them convergence, the order of
  the proxy swap, and what a failed attempt keeps.
\<close>

section \<open>Outcomes\<close>

text \<open>The calls of a start that worked, and those that retire the previous proxy.\<close>

definition start_calls :: "reconciler \<Rightarrow> target \<Rightarrow> key \<Rightarrow> proxy \<Rightarrow> trace" where
  "start_calls r tgt key p =
     [EvWait None, EvMint (key_request r (tgt_Tag tgt)) (Inr key),
      EvStart ((proxyConfigFor tgt (rec_Cfg r))\<lparr>px_AuthKey := key_Secret key\<rparr>) (Inr p)]"

fun retire_calls :: "entry \<Rightarrow> trace \<Rightarrow> bool" where
  "retire_calls e es =
     (case en_Proxy e of
        None \<Rightarrow> es = []
      | Some old \<Rightarrow> (\<exists>c x. es = EvClose old c #
          (if en_PreAuthKeyID e = [] then [] else [EvExpire (en_PreAuthKeyID e) x])))"

lemma zeroEntry_sel [simp]:
  "en_Proxy zeroEntry = None" "en_PreAuthKeyID zeroEntry = []" "en_LastSpecHash zeroEntry = []"
  "en_Gateways zeroEntry = []" "en_GatewayHash zeroEntry = []"
  by (simp_all add: zeroEntry_def)

lemma store_Get_False: "store_Get st sid = (e, False) \<Longrightarrow> e = zeroEntry"
  by (auto simp: store_Get_def split: option.splits)

text \<open>The new proxy runs: it is recorded, and the old one is closed and its key expired.\<close>

lemma reconcileIngress_started:
  assumes run: "run_state (reconcileIngress r sid tgt) s = (err, s')" and "tgt_Ingress tgt"
    and get: "store_Get (rs_store s) sid = (prev, had)"
    and stale: "\<not> (had \<and> en_LastSpecHash prev = proxyHash (proxyConfigFor tgt (rec_Cfg r)) \<and> en_Proxy prev \<noteq> None)"
    and wait: "env_wait (rec_env r) (rs_trace s) = None"
    and key: "env_mint (rec_env r) (rs_trace s @ [EvWait None]) (key_request r (tgt_Tag tgt)) = Inr key"
    and p: "env_start (rec_env r) (rs_trace s @ [EvWait None, EvMint (key_request r (tgt_Tag tgt)) (Inr key)])
      ((proxyConfigFor tgt (rec_Cfg r))\<lparr>px_AuthKey := key_Secret key\<rparr>) = Inr p"
  obtains es tm where "err = None" "rs_trace s' = rs_trace s @ start_calls r tgt key p @ es" "retire_calls prev es"
    "rs_store s' = store_Put sid (prev\<lparr>en_Proxy := Some p, en_LastSpecHash := proxyHash (proxyConfigFor tgt (rec_Cfg r)),
       en_PreAuthKeyID := key_ID key, en_LastReconcileAt := tm\<rparr>) (rs_store s)"
proof -
  have had: "had \<or> prev = zeroEntry" using get store_Get_False by (cases had) auto
  let ?e = "rec_env r" and ?t = "rs_trace s @ start_calls r tgt key p"
  define es where "es = (case en_Proxy prev of None \<Rightarrow> [] | Some old \<Rightarrow>
    (let c = EvClose old (env_close ?e ?t old) in c # (if en_PreAuthKeyID prev = [] then []
       else [EvExpire (en_PreAuthKeyID prev) (env_expire ?e (?t @ [c]) (en_PreAuthKeyID prev))])))"
  have "err = None \<and> rs_trace s' = ?t @ es \<and> rs_store s' = store_Put sid (prev\<lparr>en_Proxy := Some p,
      en_LastSpecHash := proxyHash (proxyConfigFor tgt (rec_Cfg r)), en_PreAuthKeyID := key_ID key,
      en_LastReconcileAt := env_now ?e ?t\<rparr>) (rs_store s)"
    using assms had
    by (auto simp: reconcileIngress_def runs es_def Let_def start_calls_def split: option.splits if_splits)
  moreover have "retire_calls prev es" by (auto simp: es_def Let_def split: option.splits)
  ultimately show thesis using that by simp
qed

lemma reconcileIngress_cases:
  assumes run: "run_state (reconcileIngress r sid tgt) s = (err, s')" and "tgt_Ingress tgt"
  obtains (current) tm where "err = None" "en_Proxy (entry_of s sid) \<noteq> None"
      "en_LastSpecHash (entry_of s sid) = proxyHash (proxyConfigFor tgt (rec_Cfg r))"
      "s' = s\<lparr>rs_store := store_Put sid ((entry_of s sid)\<lparr>en_LastReconcileAt := tm\<rparr>) (rs_store s)\<rparr>"
    | (failed) e where "err = Some e" "silent s s'" "accounted {} (since s s')"
        "expired (since s s') \<subseteq> minted (since s s')" "\<forall>p c. EvClose p c \<notin> set (since s s')"
    | (started) key p tm es where "err = None" "since s s' = start_calls r tgt key p @ es"
        "retire_calls (entry_of s sid) es" "later s s'"
        "rs_store s' = store_Put sid ((entry_of s sid)\<lparr>en_Proxy := Some p,
           en_LastSpecHash := proxyHash (proxyConfigFor tgt (rec_Cfg r)),
           en_PreAuthKeyID := key_ID key, en_LastReconcileAt := tm\<rparr>) (rs_store s)"
proof -
  obtain prev had where get: "store_Get (rs_store s) sid = (prev, had)" by fastforce
  let ?h = "proxyHash (proxyConfigFor tgt (rec_Cfg r))"
  show thesis
  proof (cases "had \<and> en_LastSpecHash prev = ?h \<and> en_Proxy prev \<noteq> None")
    case True
    with run assms(2) get show thesis
      by (intro current [of "env_now (rec_env r) (rs_trace s)"]) (auto simp: reconcileIngress_def Let_def runs)
  next
    case False
    let ?e = "rec_env r"
    let ?w = "env_wait ?e (rs_trace s)"
    let ?req = "key_request r (tgt_Tag tgt)"
    let ?mint = "env_mint ?e (rs_trace s @ [EvWait ?w]) ?req"
    show thesis
    proof (cases "?w = None \<and> \<not> isl ?mint")
      case no: False
      show thesis
      proof (rule failed)
        show "err = Some (the err)" "silent s s'" "accounted {} (since s s')"
          "expired (since s s') \<subseteq> minted (since s s')" "\<forall>p c. EvClose p c \<notin> set (since s s')"
          using run assms(2) get False no
          by (auto simp: reconcileIngress_def Let_def runs accounted_def isl_def split: option.splits sum.splits)
      qed
    next
      case True
      then obtain key where key: "?mint = Inr key" by (cases ?mint) auto
      let ?cfg = "(proxyConfigFor tgt (rec_Cfg r))\<lparr>px_AuthKey := key_Secret key\<rparr>"
      let ?p = "env_start ?e (rs_trace s @ [EvWait None, EvMint ?req (Inr key)]) ?cfg"
      show thesis
      proof (cases ?p)
        case (Inl e)
        show thesis
        proof (rule failed)
          show "err = Some (the err)" "silent s s'" "accounted {} (since s s')"
            "expired (since s s') \<subseteq> minted (since s s')" "\<forall>p c. EvClose p c \<notin> set (since s s')"
            using run assms(2) get False True key Inl
            by (auto simp: reconcileIngress_def Let_def runs accounted_def split: if_splits)
        qed
      next
        case (Inr p)
        have "?w = None" using True by simp
        from reconcileIngress_started [OF run assms(2) get False this key [unfolded \<open>?w = None\<close>] Inr]
        obtain es tm where "err = None" "rs_trace s' = rs_trace s @ start_calls r tgt key p @ es" "retire_calls prev es"
          "rs_store s' = store_Put sid (prev\<lparr>en_Proxy := Some p, en_LastSpecHash := ?h,
             en_PreAuthKeyID := key_ID key, en_LastReconcileAt := tm\<rparr>) (rs_store s)" .
        with get show thesis by (intro started [of key p es]) (auto simp: later_def since_def)
      qed
    qed
  qed
qed

text \<open>The entry once the ingress side is gone.\<close>

definition without_ingress :: "entry \<Rightarrow> entry" where
  "without_ingress e =
     (if en_Gateways e = [] then zeroEntry
      else e\<lparr>en_Proxy := None, en_LastSpecHash := [], en_PreAuthKeyID := []\<rparr>)"

lemma teardownIngress_cases:
  assumes "run_state (teardownIngress r sid) s = (err, s')"
  obtains (idle) "err = None" "s' = s" "en_Proxy (entry_of s sid) = None" "en_PreAuthKeyID (entry_of s sid) = []"
    | (limited) e where "err = Some e" "silent s s'" "minted (since s s') = {}" "en_PreAuthKeyID (entry_of s sid) \<noteq> []"
        "EvWait (Some e) \<in> set (since s s')"
        "\<forall>p. en_Proxy (entry_of s sid) = Some p \<longrightarrow> (\<exists>c. EvClose p c \<in> set (since s s'))"
    | (cleared) "later s s'" "minted (since s s') = {}" "entry_of s' sid = without_ingress (entry_of s sid)"
        "en_PreAuthKeyID (entry_of s sid) \<in> expired (since s s') \<union> {[]}"
        "\<forall>p. en_Proxy (entry_of s sid) = Some p \<longrightarrow> (\<exists>c. EvClose p c \<in> set (since s s'))"
proof -
  obtain e ok where get: "store_Get (rs_store s) sid = (e, ok)" by fastforce
  let ?env = "rec_env r"
  show thesis
  proof (cases "en_Proxy e = None \<and> en_PreAuthKeyID e = []")
    case True
    with assms get idle show thesis by (auto simp: teardownIngress_def runs)
  next
    case False
    then have ok using get store_Get_False [of "rs_store s" sid e] by (cases ok) auto
    define cs where "cs = (case en_Proxy e of None \<Rightarrow> []
       | Some p \<Rightarrow> [EvClose p (env_close ?env (rs_trace s) p)])"
    define w where "w = env_wait ?env (rs_trace s @ cs)"
    have closed: "\<forall>p. en_Proxy e = Some p \<longrightarrow> (\<exists>c. EvClose p c \<in> set cs)" "minted cs = {}"
      by (auto simp: cs_def split: option.splits)
    show thesis
    proof (cases "en_PreAuthKeyID e \<noteq> [] \<and> w \<noteq> None")
      case True
      then obtain x where x: "w = Some x" by auto
      have "err = Some x \<and> s' = extend s (cs @ [EvWait (Some x)])"
        using assms get False \<open>ok\<close> True x
        by (auto simp: teardownIngress_def Let_def runs cs_def w_def split: option.splits if_splits)
      with closed True get show thesis by (intro limited [of x]) auto
    next
      case no: False
      define es where "es = (if en_PreAuthKeyID e = [] then []
        else [EvWait None, EvExpire (en_PreAuthKeyID e) (env_expire ?env (rs_trace s @ cs @ [EvWait None]) (en_PreAuthKeyID e))])"
      have "rs_trace s' = rs_trace s @ cs @ es \<and> entry_of s' sid = without_ingress e"
        using assms get False \<open>ok\<close> no
        by (auto simp: teardownIngress_def Let_def runs cs_def w_def es_def without_ingress_def
            split: option.splits if_splits)
      with closed get show thesis
        by (intro cleared) (auto simp: later_def since_def es_def)
    qed
  qed
qed

text \<open>A proxy with the desired hash is left alone.\<close>

lemma ingress_idle:
  assumes "tgt_Ingress tgt" and "en_Proxy (entry_of s sid) \<noteq> None"
    and "en_LastSpecHash (entry_of s sid) = proxyHash (proxyConfigFor tgt (rec_Cfg r))"
  shows "\<exists>tm. run_state (reconcileIngress r sid tgt) s =
    (None, s\<lparr>rs_store := store_Put sid ((entry_of s sid)\<lparr>en_LastReconcileAt := tm\<rparr>) (rs_store s)\<rparr>)"
proof -
  obtain e ok where get: "store_Get (rs_store s) sid = (e, ok)" by fastforce
  with assms(2) have ok using store_Get_False [of "rs_store s" sid e] by (cases ok) auto
  with get assms show ?thesis by (auto simp: reconcileIngress_def Let_def runs)
qed

section \<open>Properties\<close>

text \<open>
  C4: convergence of the ingress side. When the reconcile of an opted-in service returns no
  error, the store records a proxy with the hash of the desired configuration; and a further
  reconcile with the same labels, from any state with this store, makes no call at all,
  mints no key and changes nothing but the time stamp.
\<close>

theorem ingress_converges:
  assumes "tgt_Ingress tgt" and "run_state (reconcileIngress r sid tgt) s = (None, s')"
  shows "en_Proxy (entry_of s' sid) \<noteq> None \<and>
    en_LastSpecHash (entry_of s' sid) = proxyHash (proxyConfigFor tgt (rec_Cfg r)) \<and>
    (\<forall>s1. rs_store s1 = rs_store s' \<longrightarrow>
       (\<exists>tm. run_state (reconcileIngress r sid tgt) s1 =
          (None, s1\<lparr>rs_store := store_Put sid ((entry_of s' sid)\<lparr>en_LastReconcileAt := tm\<rparr>) (rs_store s1)\<rparr>)))"
proof -
  have cur: "en_Proxy (entry_of s' sid) \<noteq> None"
    "en_LastSpecHash (entry_of s' sid) = proxyHash (proxyConfigFor tgt (rec_Cfg r))"
    using assms(2,1) by (cases rule: reconcileIngress_cases; auto)+
  moreover have "\<exists>tm. run_state (reconcileIngress r sid tgt) s1 =
      (None, s1\<lparr>rs_store := store_Put sid ((entry_of s' sid)\<lparr>en_LastReconcileAt := tm\<rparr>) (rs_store s1)\<rparr>)"
    if "rs_store s1 = rs_store s'" for s1
    using ingress_idle [OF assms(1), of s1 sid r] cur that by simp
  ultimately show ?thesis by blast
qed

definition empty_state :: rstate where
  "empty_state = \<lparr>rs_store = [], rs_trace = []\<rparr>"

lemma demo_ingress_run: "\<exists>s'. run_state (reconcileIngress demo_rec ''app1'' demo_tgt) empty_state = (None, s')"
  by (simp add: reconcileIngress_def demo_tgt_def Let_def runs store_Get_def empty_state_def)

theorem ingress_converges_witness:
  "\<exists>s' tm. fst (run_state (reconcileIngress demo_rec ''app1'' demo_tgt) empty_state) = None \<and>
     run_state (reconcileIngress demo_rec ''app1'' demo_tgt) s' =
       (None, s'\<lparr>rs_store := store_Put ''app1'' ((entry_of s' ''app1'')\<lparr>en_LastReconcileAt := tm\<rparr>) (rs_store s')\<rparr>)"
proof -
  obtain s' where run: "run_state (reconcileIngress demo_rec ''app1'' demo_tgt) empty_state = (None, s')"
    using demo_ingress_run by blast
  have "tgt_Ingress demo_tgt" by (simp add: demo_tgt_def)
  from ingress_converges [OF this run] run show ?thesis by (metis fst_conv)
qed

text \<open>
  C16: a failed attempt is harmless. When the reconcile of an opted-in service returns an
  error (rate limiter, key creation or proxy start), the store is as before, so the running
  proxy stays in service; no proxy was closed; and the only keys expired are the ones the
  attempt itself minted.
\<close>

theorem ingress_failure_keeps_old:
  assumes "tgt_Ingress tgt" and "run_state (reconcileIngress r sid tgt) s = (Some e, s')"
  shows "rs_store s' = rs_store s \<and> (\<forall>p c. EvClose p c \<notin> set (since s s')) \<and>
    expired (since s s') \<subseteq> minted (since s s') \<and> minted (since s s') \<subseteq> expired (since s s') \<union> {[]}"
  using assms(2,1)
  by (cases rule: reconcileIngress_cases) (auto simp: silent_store accounted_def)

definition failing_rec :: reconciler where
  "failing_rec = demo_rec\<lparr>rec_env := demo_env2\<lparr>env_start := (\<lambda>_ _. Inl (ErrNew ''no login''))\<rparr>\<rparr>"

theorem ingress_failure_keeps_old_witness:
  "rs_store (snd (run_state (reconcileIngress failing_rec ''a'' demo_tgt) demo_state)) = rs_store demo_state \<and>
   minted (since demo_state (snd (run_state (reconcileIngress failing_rec ''a'' demo_tgt) demo_state))) = {''key-1''}"
proof -
  have hash: "proxyHash c \<noteq> []" for c
    using length_sha256_hex by (metis proxyHash_def length_0_conv zero_neq_numeral)
  have m: "minted (since demo_state (snd (run_state (reconcileIngress failing_rec ''a'' demo_tgt) demo_state))) = {''key-1''}"
    using hash [symmetric]
    by (simp add: reconcileIngress_def demo_tgt_def Let_def runs store_Get_def failing_rec_def
        demo_state_def demo_entry_def zeroEntry_def calm_key_def since_def)
  have "\<exists>e s'. run_state (reconcileIngress failing_rec ''a'' demo_tgt) demo_state = (Some e, s')"
    using hash [symmetric]
    by (simp add: reconcileIngress_def demo_tgt_def Let_def runs store_Get_def failing_rec_def
        demo_state_def demo_entry_def zeroEntry_def calm_key_def)
  then obtain e s' where run: "run_state (reconcileIngress failing_rec ''a'' demo_tgt) demo_state = (Some e, s')"
    by blast
  have "tgt_Ingress demo_tgt" by (simp add: demo_tgt_def)
  from ingress_failure_keeps_old [OF this run] m run show ?thesis by simp
qed

text \<open>
  C15: the order of a swap. When the configuration changed and the reconcile succeeds, its
  calls are exactly: wait for the rate limiter, mint a key, start the new proxy with it, and
  only then close the previous proxy, if there was one, and expire its key. The egress side
  of the entry is carried over.
\<close>

theorem ingress_replaces_after_start:
  assumes "tgt_Ingress tgt" and "run_state (reconcileIngress r sid tgt) s = (None, s')"
    and "en_LastSpecHash (entry_of s sid) \<noteq> proxyHash (proxyConfigFor tgt (rec_Cfg r))"
  shows "\<exists>key p es. rs_trace s' = rs_trace s @ start_calls r tgt key p @ es \<and>
    retire_calls (entry_of s sid) es \<and> en_Proxy (entry_of s' sid) = Some p \<and>
    en_PreAuthKeyID (entry_of s' sid) = key_ID key \<and>
    en_Gateways (entry_of s' sid) = en_Gateways (entry_of s sid) \<and>
    en_GatewayHash (entry_of s' sid) = en_GatewayHash (entry_of s sid)"
  using assms(2,1)
proof (cases rule: reconcileIngress_cases)
  case (started key p tm es)
  then show ?thesis using later_trace [of s s'] by (intro exI [of _ key] exI [of _ p] exI [of _ es]) simp
qed (use assms(3) in auto)

theorem ingress_replaces_after_start_witness:
  "\<exists>key p c x. rs_trace (snd (run_state (reconcileIngress demo_rec ''a'' demo_tgt) demo_state)) =
     start_calls demo_rec demo_tgt key p @ [EvClose (the (en_Proxy demo_entry)) c, EvExpire ''key-7'' x]"
proof -
  have hash: "[] \<noteq> proxyHash c" for c
    using length_sha256_hex by (metis proxyHash_def length_0_conv zero_neq_numeral)
  have "\<exists>s'. run_state (reconcileIngress demo_rec ''a'' demo_tgt) demo_state = (None, s')"
    using hash by (simp add: reconcileIngress_def demo_tgt_def Let_def runs store_Get_def
        demo_state_def demo_entry_def zeroEntry_def)
  then obtain s' where run: "run_state (reconcileIngress demo_rec ''a'' demo_tgt) demo_state = (None, s')"
    by blast
  have "tgt_Ingress demo_tgt" by (simp add: demo_tgt_def)
  from ingress_replaces_after_start [OF this run] run hash show ?thesis
    by (auto simp: demo_state_def store_Get_def demo_entry_def zeroEntry_def)
qed

text \<open>
  C38: a proxy can be recorded although it is closed. When the ingress label is removed and
  the rate limiter fails while the key is to be expired, the teardown has already closed the
  proxy but leaves the entry as it was. If the label then comes back, the next reconcile
  takes the closed proxy for current: it returns no error, makes no call and starts nothing.
\<close>

theorem closed_proxy_taken_for_current:
  assumes "en_Proxy (entry_of s sid) = Some p" and "en_PreAuthKeyID (entry_of s sid) \<noteq> []"
    and "en_LastSpecHash (entry_of s sid) = proxyHash (proxyConfigFor tgt (rec_Cfg r))" and "tgt_Ingress tgt"
    and "\<And>tr. env_wait (rec_env r) tr \<noteq> None"
  shows "\<exists>e s' tm c. run_state (reconcileIngress r sid (tgt\<lparr>tgt_Ingress := False\<rparr>)) s = (Some e, s') \<and>
    EvClose p c \<in> set (since s s') \<and> en_Proxy (entry_of s' sid) = Some p \<and>
    run_state (reconcileIngress r sid tgt) s' =
      (None, s'\<lparr>rs_store := store_Put sid ((entry_of s' sid)\<lparr>en_LastReconcileAt := tm\<rparr>) (rs_store s')\<rparr>)"
proof -
  obtain e ok where get: "store_Get (rs_store s) sid = (e, ok)" by fastforce
  then have ok using assms(2) store_Get_False [of "rs_store s" sid e] by (cases ok) auto
  define f where "f tr = the (env_wait (rec_env r) tr)" for tr
  have w: "env_wait (rec_env r) tr = Some (f tr)" for tr using assms(5) by (auto simp: f_def)
  let ?c = "env_close (rec_env r) (rs_trace s) p"
  have "run_state (reconcileIngress r sid (tgt\<lparr>tgt_Ingress := False\<rparr>)) s =
      (Some (f (rs_trace s @ [EvClose p ?c])),
       extend s [EvClose p ?c, EvWait (Some (f (rs_trace s @ [EvClose p ?c])))])"
    using assms(1,2) get \<open>ok\<close> by (simp add: reconcileIngress_def teardownIngress_def runs w)
  then show ?thesis
    using assms(1,3,4) get \<open>ok\<close> by (auto simp: reconcileIngress_def Let_def runs)
qed

theorem closed_proxy_taken_for_current_witness:
  "\<exists>s e s' c. en_Proxy (entry_of s ''app1'') \<noteq> None \<and>
     run_state (reconcileIngress (demo_rec\<lparr>rec_env := demo_env2\<lparr>env_wait := (\<lambda>_. Some (ErrNew ''deadline''))\<rparr>\<rparr>)
       ''app1'' (demo_tgt\<lparr>tgt_Ingress := False\<rparr>)) s = (Some e, s') \<and>
     EvClose (the (en_Proxy demo_entry)) c \<in> set (since s s')"
proof -
  let ?r = "demo_rec\<lparr>rec_env := demo_env2\<lparr>env_wait := (\<lambda>_. Some (ErrNew ''deadline''))\<rparr>\<rparr>"
  let ?e = "demo_entry\<lparr>en_LastSpecHash := proxyHash (proxyConfigFor demo_tgt (rec_Cfg ?r))\<rparr>"
  let ?s = "\<lparr>rs_store = [(''app1'', ?e)], rs_trace = []\<rparr>"
  have p: "en_Proxy (entry_of ?s ''app1'') = Some (the (en_Proxy demo_entry))"
    and k: "en_PreAuthKeyID (entry_of ?s ''app1'') \<noteq> []"
    and h: "en_LastSpecHash (entry_of ?s ''app1'') = proxyHash (proxyConfigFor demo_tgt (rec_Cfg ?r))"
    by (simp_all add: store_Get_def demo_entry_def zeroEntry_def)
  have "tgt_Ingress demo_tgt" and "env_wait (rec_env ?r) tr \<noteq> None" for tr
    by (simp_all add: demo_tgt_def)
  from closed_proxy_taken_for_current [where r = ?r, OF p k h this] obtain e s' c where
    "run_state (reconcileIngress ?r ''app1'' (demo_tgt\<lparr>tgt_Ingress := False\<rparr>)) ?s = (Some e, s')"
    "EvClose (the (en_Proxy demo_entry)) c \<in> set (since ?s s')" by blast
  with p show ?thesis by (intro exI [of _ ?s] exI [of _ e] exI [of _ s'] exI [of _ c]) simp
qed

text \<open>
  The hash that decides whether a proxy must be replaced ignores the auth key, which
  rotates, and the order in which ports and tags are listed.
\<close>

theorem proxyHash_insensitive:
  assumes "mset ports = mset (px_Ports c)" and "mset tags = mset (px_Tags c)"
  shows "proxyHash (c\<lparr>px_AuthKey := k, px_Ports := ports, px_Tags := tags\<rparr>) = proxyHash c"
proof -
  have "sort (map port_Target ports) = sort (map port_Target (px_Ports c))"
    using assms(1) by (metis mset_map mset_sort properties_for_sort sorted_sort)
  moreover have "sort tags = sort (px_Tags c)"
    using assms(2) by (metis mset_sort properties_for_sort sorted_sort)
  ultimately show ?thesis by (simp add: proxyHash_def)
qed

theorem proxyHash_insensitive_witness:
  "proxyHash ((proxyConfigFor demo_tgt defaultConfig)\<lparr>px_AuthKey := ''a'', px_Ports := [\<lparr>port_Target = 1\<rparr>, \<lparr>port_Target = 2\<rparr>], px_Tags := [''x'', ''y'']\<rparr>)
   = proxyHash ((proxyConfigFor demo_tgt defaultConfig)\<lparr>px_AuthKey := ''b'', px_Ports := [\<lparr>port_Target = 2\<rparr>, \<lparr>port_Target = 1\<rparr>], px_Tags := [''y'', ''x'']\<rparr>)"
  using proxyHash_insensitive [of "[\<lparr>port_Target = 1\<rparr>, \<lparr>port_Target = 2\<rparr>]"
      "(proxyConfigFor demo_tgt defaultConfig)\<lparr>px_AuthKey := ''b'', px_Ports := [\<lparr>port_Target = 2\<rparr>, \<lparr>port_Target = 1\<rparr>], px_Tags := [''y'', ''x'']\<rparr>"
      "[''x'', ''y'']" "''a''"]
  by (simp add: add_mset_commute)

end
