(* ===== verification/Reconciler_Egress.thy ===== *)
theory Reconciler_Egress
  imports Reconciler_Ingress
begin

text \<open>
  The egress gateway lifecycle: the outcomes of \<^verbatim>\<open>reconcileEgress\<close> for a service that opts
  in and of \<^verbatim>\<open>teardownEgress\<close>, and from them convergence of the gateway set, the idempotent
  fast path, and what the fast path misses.
\<close>

section \<open>Outcomes\<close>

lemma desired_targets_dom:
  "map_of (desired_targets eg) a = Some t \<Longrightarrow> addr t = a"
  "dom (map_of (desired_targets eg)) = addr ` set (eg_Targets eg)"
  "distinct (gm_keys (desired_targets eg))"
proof -
  have 1: "\<forall>a t. map_of m a = Some t \<longrightarrow> addr t = a \<Longrightarrow>
      map_of (foldl (\<lambda>m t. gm_put (addr t) t m) m ts) a = Some t \<Longrightarrow> addr t = a" for m ts a t
  proof (induction ts arbitrary: m)
    case (Cons x ts)
    have "\<forall>b u. map_of (gm_put (addr x) x m) b = Some u \<longrightarrow> addr u = b"
      using Cons.prems(1) by auto
    from Cons.IH [OF this] Cons.prems(2) show ?case by simp
  qed simp
  have 2: "dom (map_of (foldl (\<lambda>m t. gm_put (addr t) t m) m ts)) = dom (map_of m) \<union> addr ` set ts" for m ts
    by (induction ts arbitrary: m) auto
  have 3: "distinct (gm_keys m) \<Longrightarrow> distinct (gm_keys (foldl (\<lambda>m t. gm_put (addr t) t m) m ts))" for m ts
    by (induction ts arbitrary: m) auto
  show "map_of (desired_targets eg) a = Some t \<Longrightarrow> addr t = a"
    unfolding desired_targets_def by (rule 1 [of "[]"]) simp_all
  show "dom (map_of (desired_targets eg)) = addr ` set (eg_Targets eg)"
    using 2 [of "[]"] by (simp add: desired_targets_def)
  show "distinct (gm_keys (desired_targets eg))"
    using 3 [of "[]"] by (simp add: desired_targets_def)
qed

definition marker_filter :: "string \<Rightarrow> labelFilter" where
  "marker_filter sid = \<lparr>lf_Key = gatewayForLabel, lf_Value = sid, lf_Name = []\<rparr>"

text \<open>The tracked map of a pass, from the entry and the gateways that were listed.\<close>

definition tracked_from :: "entry \<Rightarrow> string \<Rightarrow> service list \<Rightarrow> (string, gatewayRef) gomap" where
  "tracked_from e sid gws =
     adopt_loop (map (\<lambda>(_, ref). gr_ServiceID ref) (stored_gateways e)) (stored_gateways e)
       (filter (\<lambda>gw. get_str (ss_Labels (svc_Spec gw)) gatewayForLabel = sid) gws)"

lemma keyed_tracked [simp]: "keyed (tracked_from e sid gws)"
  by (simp add: tracked_from_def keyed_adopt)

lemma run_trackedGateways [runs]:
  "run_state (trackedGateways r sid e) s =
     (let res = env_list (rec_env r) (rs_trace s) (marker_filter sid)
      in (case res of Inl x \<Rightarrow> Inl (ErrWrap (''find gateways for '' @ sid) x)
            | Inr gws \<Rightarrow> Inr (tracked_from e sid gws),
          extend s [EvList (marker_filter sid) res]))"
  by (simp add: trackedGateways_def findGateways_def runs tracked_from_def marker_filter_def Let_def
      split: sum.splits)

lemma fast_path_iff:
  assumes "keyed tracked"
  shows "fast_path e h tracked (desired_targets eg) \<longleftrightarrow>
     en_GatewayHash e = h \<and> dom (map_of tracked) = addr ` set (eg_Targets eg)"
proof -
  have "finite (dom (map_of tracked))" by (rule finite_dom_map_of)
  moreover have "length tracked = card (dom (map_of tracked))"
    using assms length_gomap by (auto simp: keyed_def)
  moreover have "length (desired_targets eg) = card (addr ` set (eg_Targets eg))"
    using length_gomap [OF desired_targets_dom(3)] desired_targets_dom(2) by simp
  moreover have "list_all (\<lambda>a. map_of tracked a \<noteq> None) (gm_keys (desired_targets eg)) \<longleftrightarrow>
      addr ` set (eg_Targets eg) \<subseteq> dom (map_of tracked)"
    unfolding list_all_iff set_gm_keys desired_targets_dom(2) by auto
  ultimately show ?thesis
    using card_subset_eq [of "dom (map_of tracked)" "addr ` set (eg_Targets eg)"]
    by (auto simp: fast_path_def)
qed

text \<open>The removal loop followed by the creation loop, on tracked gateways \<open>tr\<close>.\<close>

lemma egress_loops:
  assumes rl: "run_state (remove_loop r (desired_targets eg) rks tr []) s0 = ((m1, errs1), s1)"
    and cl: "run_state (create_loop r sid eg (desired_targets eg) cks m1 errs1) s1 = ((m, errs), s2)"
    and tr: "keyed tr" and rks: "set rks = dom (map_of tr)"
    and cks: "distinct cks" "set cks = dom (map_of (desired_targets eg))"
  shows "silent s0 s2" and "keyed m" and "accounted (keys_on UNIV m) (since s0 s2)"
    and "errs = [] \<Longrightarrow> settled r eg (desired_targets eg) m a"
    and "errs = [] \<Longrightarrow> map_of (desired_targets eg) a = None \<Longrightarrow> map_of m a = None"
    and "map_of (desired_targets eg) a = Some t \<Longrightarrow> map_of tr a = Some ref \<Longrightarrow> current_ref r eg t ref \<Longrightarrow>
      map_of m a = Some ref"
    and "map_of (desired_targets eg) a = None \<Longrightarrow> map_of tr a = Some ref \<Longrightarrow>
      map_of m a = Some ref \<or> map_of m a = None \<and> gr_KeyID ref \<in> expired (since s0 s2) \<union> {[]} \<and>
        (\<exists>d. EvRemove (gr_ServiceID ref) d \<in> set (since s0 s2))"
proof -
  let ?des = "desired_targets eg"
  note R = remove_loop_run [OF rl tr]
  then have "keyed m1" by blast
  note C = create_loop_run [OF cl this cks(1) desired_targets_dom(1) [of eg]]
  have sil: "silent s0 s1" "silent s1 s2" using R C by simp_all
  then show "silent s0 s2" by (rule silent_trans)
  show "keyed m" using C by blast
  have sin: "since s0 s2 = since s0 s1 @ since s1 s2" using sil by (rule since_silent)
  have "keys_on (set cks) m \<subseteq> keys_on UNIV m" by (auto simp: keys_on_def)
  then have "accounted (keys_on UNIV m) (since s1 s2)" using C accounted_mono by blast
  with R show "accounted (keys_on UNIV m) (since s0 s2)" unfolding sin accounted_def by auto
  obtain es2 where errs: "errs = errs1 @ es2"
    and es1: "errs1 = [] \<longrightarrow> (\<forall>a \<in> set rks. map_of ?des a = None \<longrightarrow> map_of m1 a = None)"
    and es2: "es2 = [] \<longrightarrow> (\<forall>a \<in> set cks. settled r eg ?des m a)"
    using R C by auto
  show "settled r eg ?des m a" if "errs = []"
    using es2 that errs cks(2) by (cases "map_of ?des a") (auto simp: settled_def)
  have m_off: "map_of m a = map_of m1 a" if "map_of ?des a = None" using that C by blast
  show "map_of m a = None" if "errs = []" "map_of ?des a = None"
    using that R es1 errs m_off rks by (cases "a \<in> dom (map_of tr)") auto
  show "map_of m a = Some ref" if "map_of ?des a = Some t" "map_of tr a = Some ref" "current_ref r eg t ref"
    using that R C by auto
  show "map_of m a = Some ref \<or> map_of m a = None \<and> gr_KeyID ref \<in> expired (since s0 s2) \<union> {[]} \<and>
      (\<exists>d. EvRemove (gr_ServiceID ref) d \<in> set (since s0 s2))" if d: "map_of ?des a = None" "map_of tr a = Some ref"
  proof -
    have "map_of m1 a = Some ref \<or> map_of m1 a = None \<and> gr_KeyID ref \<in> expired (since s0 s1) \<union> {[]} \<and>
        (\<exists>d. EvRemove (gr_ServiceID ref) d \<in> set (since s0 s1))" using R d(2) by blast
    then show ?thesis unfolding m_off [OF d(1)] sin by auto
  qed
qed

text \<open>Off the fast path, both loops run and their result is recorded.\<close>

lemma reconcileEgress_slow:
  assumes run: "run_state (reconcileEgress r sid tgt) s = (err, s')" and eg: "tgt_Egress tgt = Some eg"
    and get: "store_Get (rs_store s) sid = (e, ok)"
    and gws: "env_list (rec_env r) (rs_trace s) (marker_filter sid) = Inr gws" "rec_GatewayImage r \<noteq> []"
    and slow: "\<not> fast_path e (gatewayHash eg (rec_GatewayImage r)) (tracked_from e sid gws) (desired_targets eg)"
  obtains rks m1 errs1 s1 cks m errs s2 where
    "run_state (remove_loop r (desired_targets eg) rks (tracked_from e sid gws) [])
       (extend s [EvList (marker_filter sid) (Inr gws)]) = ((m1, errs1), s1)"
    "run_state (create_loop r sid eg (desired_targets eg) cks m1 errs1) s1 = ((m, errs), s2)"
    "set rks = dom (map_of (tracked_from e sid gws))" "distinct cks" "set cks = dom (map_of (desired_targets eg))"
    "err = errors_join (map Some errs)"
    "s' = s2\<lparr>rs_store := store_Put sid (e\<lparr>en_Gateways := sortedGateways m,
        en_GatewayHash := gatewayHash eg (rec_GatewayImage r),
        en_LastReconcileAt := env_now (rec_env r) (rs_trace s2)\<rparr>) (rs_store s2)\<rparr>"
proof -
  let ?tr = "tracked_from e sid gws" and ?s0 = "extend s [EvList (marker_filter sid) (Inr gws)]"
  let ?des = "desired_targets eg"
  let ?rks = "sort_key (env_range (rec_env r) (rs_trace ?s0)) (gm_keys ?tr)"
  obtain m1 errs1 s1 where rl: "run_state (remove_loop r ?des ?rks ?tr []) ?s0 = ((m1, errs1), s1)" by (metis surj_pair)
  let ?cks = "sort_key (env_range (rec_env r) (rs_trace s1)) (gm_keys ?des)"
  obtain m errs s2 where cl: "run_state (create_loop r sid eg ?des ?cks m1 errs1) s1 = ((m, errs), s2)"
    by (metis surj_pair)
  have "set ?rks = dom (map_of ?tr)" "distinct ?cks" "set ?cks = dom (map_of ?des)"
    using desired_targets_dom(3) set_gm_keys [of ?tr] set_gm_keys [of ?des] by (simp_all add: distinct_sort)
  moreover have "err = errors_join (map Some errs)"
    "s' = s2\<lparr>rs_store := store_Put sid (e\<lparr>en_Gateways := sortedGateways m, en_GatewayHash := gatewayHash eg (rec_GatewayImage r),
        en_LastReconcileAt := env_now (rec_env r) (rs_trace s2)\<rparr>) (rs_store s2)\<rparr>"
    using run eg get gws slow rl cl by (simp_all add: reconcileEgress_def runs Let_def)
  ultimately show thesis by (rule that [OF rl cl])
qed

lemma reconcileEgress_cases:
  assumes run: "run_state (reconcileEgress r sid tgt) s = (err, s')" and eg: "tgt_Egress tgt = Some eg"
  obtains (refused) e where "err = Some e" "silent s s'" "minted (since s s') = {}"
    | (fast) gws tm where "err = None" "rec_GatewayImage r \<noteq> []"
        "en_GatewayHash (entry_of s sid) = gatewayHash eg (rec_GatewayImage r)"
        "dom (map_of (tracked_from (entry_of s sid) sid gws)) = addr ` set (eg_Targets eg)"
        "s' = s\<lparr>rs_trace := rs_trace s @ [EvList (marker_filter sid) (Inr gws)],
           rs_store := store_Put sid ((entry_of s sid)\<lparr>en_LastReconcileAt := tm\<rparr>) (rs_store s)\<rparr>"
    | (diffed) gws m errs tm where "err = errors_join (map Some errs)" "later s s'" "keyed m"
        "accounted (keys_on UNIV m) (since s s')"
        "rs_store s' = store_Put sid ((entry_of s sid)\<lparr>en_Gateways := sortedGateways m,
           en_GatewayHash := gatewayHash eg (rec_GatewayImage r), en_LastReconcileAt := tm\<rparr>) (rs_store s)"
        "errs = [] \<Longrightarrow> dom (map_of m) = addr ` set (eg_Targets eg)"
        "\<And>a. errs = [] \<Longrightarrow> settled r eg (desired_targets eg) m a"
        "\<And>a t ref. map_of (desired_targets eg) a = Some t \<Longrightarrow>
           map_of (tracked_from (entry_of s sid) sid gws) a = Some ref \<Longrightarrow> current_ref r eg t ref \<Longrightarrow>
           map_of m a = Some ref"
        "\<And>a ref. map_of (desired_targets eg) a = None \<Longrightarrow>
           map_of (tracked_from (entry_of s sid) sid gws) a = Some ref \<Longrightarrow>
           map_of m a = Some ref \<or> map_of m a = None \<and> gr_KeyID ref \<in> expired (since s s') \<union> {[]} \<and>
             (\<exists>d. EvRemove (gr_ServiceID ref) d \<in> set (since s s'))"
proof -
  obtain e ok where get: "store_Get (rs_store s) sid = (e, ok)" by fastforce
  then have e: "entry_of s sid = e" by simp
  let ?res = "env_list (rec_env r) (rs_trace s) (marker_filter sid)"
  let ?h = "gatewayHash eg (rec_GatewayImage r)" and ?des = "desired_targets eg"
  consider "rec_GatewayImage r = [] \<or> isl ?res"
    | gws where "?res = Inr gws" "rec_GatewayImage r \<noteq> []" by (cases ?res) auto
  then show thesis
  proof cases
    case 1
    with run eg get show thesis
      by (intro refused [of "the err"])
        (auto simp: reconcileEgress_def runs Let_def isl_def split: if_splits)
  next
    case gws: (2 gws)
    let ?tr = "tracked_from e sid gws" and ?s0 = "extend s [EvList (marker_filter sid) (Inr gws)]"
    show thesis
    proof (cases "fast_path e ?h ?tr ?des")
      case True
      with run eg get gws show thesis
        by (intro fast [of gws "env_now (rec_env r) (rs_trace ?s0)"])
          (auto simp: reconcileEgress_def runs Let_def fast_path_iff)
    next
      case slow: False
      from reconcileEgress_slow [OF run eg get gws slow]
      obtain rks m1 errs1 s1 cks m errs s2 where rl: "run_state (remove_loop r ?des rks ?tr []) ?s0 = ((m1, errs1), s1)"
        and cl: "run_state (create_loop r sid eg ?des cks m1 errs1) s1 = ((m, errs), s2)"
        and ks: "set rks = dom (map_of ?tr)" "distinct cks" "set cks = dom (map_of ?des)"
        and out: "err = errors_join (map Some errs)"
          "s' = s2\<lparr>rs_store := store_Put sid (e\<lparr>en_Gateways := sortedGateways m, en_GatewayHash := ?h,
              en_LastReconcileAt := env_now (rec_env r) (rs_trace s2)\<rparr>) (rs_store s2)\<rparr>" .
      note L = egress_loops [OF rl cl keyed_tracked ks]
      have sil: "silent s s2" by (rule silent_trans [OF _ L(1)]) simp
      have sin: "since s s' = EvList (marker_filter sid) (Inr gws) # since ?s0 s2"
        using since_silent [OF _ L(1), of s] by (simp add: out(2) since_def)
      show thesis
      proof (rule diffed [of errs m "env_now (rec_env r) (rs_trace s2)" gws], unfold e)
        show "later s s'" using silent_later [OF sil] by (simp add: out(2) later_def)
        show "accounted (keys_on UNIV m) (since s s')" using L(3) unfolding sin accounted_def by auto
        show "dom (map_of m) = addr ` set (eg_Targets eg)" if "errs = []"
          using L(4,5) [OF that] unfolding desired_targets_dom(2) [symmetric] by (fastforce simp: settled_def)
        show "map_of m a = Some ref \<or> map_of m a = None \<and> gr_KeyID ref \<in> expired (since s s') \<union> {[]} \<and>
            (\<exists>d. EvRemove (gr_ServiceID ref) d \<in> set (since s s'))"
          if "map_of ?des a = None" "map_of ?tr a = Some ref" for a ref
          using L(7) [OF that] unfolding sin by auto
      qed (use L out silent_store [OF sil] in \<open>simp_all\<close>)
    qed
  qed
qed

lemma removeGateways_run:
  assumes "run_state (removeGateways r f refs) s = (err, s')"
  shows "silent s s' \<and> minted (since s s') = {} \<and>
    (err = None \<longrightarrow> f = None \<and> (\<forall>ref \<in> set refs. gr_KeyID ref \<in> expired (since s s') \<union> {[]} \<and>
       (\<exists>d. EvRemove (gr_ServiceID ref) d \<in> set (since s s'))))"
  using assms
proof (induction refs arbitrary: f s)
  case (Cons ref refs)
  obtain e s1 where e: "run_state (removeGateway r ref) s = (e, s1)" by fastforce
  note rm = removeGateway_run [OF e]
  let ?f = "case f of None \<Rightarrow> e | Some x \<Rightarrow> Some x"
  have rest: "run_state (removeGateways r ?f refs) s1 = (err, s')"
    using Cons.prems e by simp
  note IH = Cons.IH [OF rest]
  have "silent s s'" and sin: "since s s' = since s s1 @ since s1 s'"
    using rm IH silent_trans since_silent by blast+
  then show ?case using rm IH by (auto split: option.splits)
qed simp

text \<open>The entry once the egress side is gone.\<close>

definition without_egress :: "entry \<Rightarrow> entry" where
  "without_egress e = (if en_Proxy e = None then zeroEntry else e\<lparr>en_Gateways := [], en_GatewayHash := []\<rparr>)"

lemma teardownEgress_run:
  assumes "run_state (teardownEgress r sid) s = (err, s')"
  shows "later s s' \<and> minted (since s s') = {} \<and>
    (if en_Gateways (entry_of s sid) = [] then s' = s \<and> err = None
     else entry_of s' sid = without_egress (entry_of s sid)) \<and>
    (err = None \<longrightarrow> (\<forall>ref \<in> set (en_Gateways (entry_of s sid)). gr_KeyID ref \<in> expired (since s s') \<union> {[]} \<and>
       (\<exists>d. EvRemove (gr_ServiceID ref) d \<in> set (since s s'))))"
proof -
  obtain e ok where get: "store_Get (rs_store s) sid = (e, ok)" by fastforce
  show ?thesis
  proof (cases "en_Gateways e = []")
    case True
    with assms get show ?thesis by (auto simp: teardownEgress_def runs later_def)
  next
    case False
    then have ok using get store_Get_False [of "rs_store s" sid e] by (cases ok) auto
    obtain s1 where r: "run_state (removeGateways r None (en_Gateways e)) s = (err, s1)"
      and s': "s' = s1\<lparr>rs_store := (if en_Proxy e = None then store_Delete sid (rs_store s1)
         else store_Put sid (e\<lparr>en_Gateways := [], en_GatewayHash := []\<rparr>) (rs_store s1))\<rparr>"
      using assms get False \<open>ok\<close>
      by (cases "en_Proxy e = None") (auto simp: teardownEgress_def runs split: prod.splits)
    note rm = removeGateways_run [OF r]
    have "since s s' = since s s1" "later s s'"
      using silent_later [of s s1] rm by (simp_all add: s' since_def later_def)
    with rm False get show ?thesis by (auto simp: s' without_egress_def)
  qed
qed

end
