(* ===== verification/Reconciler_Egress_Props.thy ===== *)
theory Reconciler_Egress_Props
  imports Reconciler_Egress
begin

text \<open>
  Properties of the egress side: convergence of the gateway set, the idle second pass,
  gateways that stay untouched, and a drift that is never repaired.
\<close>

section \<open>Lemmas\<close>

text \<open>The gateway set of an entry is the desired one, and every gateway is up to date.\<close>

definition gateways_converged :: "reconciler \<Rightarrow> egressSpec \<Rightarrow> entry \<Rightarrow> bool" where
  "gateways_converged r eg e \<longleftrightarrow>
     set (map gr_Target (en_Gateways e)) = addr ` set (eg_Targets eg) \<and>
     distinct (map gr_Target (en_Gateways e)) \<and> sorted (map gr_Target (en_Gateways e)) \<and>
     (\<forall>ref \<in> set (en_Gateways e). \<exists>t \<in> set (eg_Targets eg). current_ref r eg t ref) \<and>
     en_GatewayHash e = gatewayHash eg (rec_GatewayImage r)"

lemma desired_in: "map_of (desired_targets eg) a = Some t \<Longrightarrow> t \<in> set (eg_Targets eg)"
proof -
  have "set (map snd m) \<subseteq> A \<Longrightarrow> set ts \<subseteq> A \<Longrightarrow>
      map_of (foldl (\<lambda>m t. gm_put (addr t) t m) m ts) a = Some t \<Longrightarrow> t \<in> A" for m ts A
  proof (induction ts arbitrary: m)
    case Nil
    then show ?case using map_of_SomeD [of m a t] by force
  next
    case (Cons x ts)
    have "set (map snd (gm_put (addr x) x m)) \<subseteq> A"
      using Cons.prems(1,2) by (induction m) auto
    with Cons show ?case by simp
  qed
  from this [of "[]" "set (eg_Targets eg)" "eg_Targets eg"] show "map_of (desired_targets eg) a = Some t \<Longrightarrow> t \<in> set (eg_Targets eg)"
    by (simp add: desired_targets_def)
qed

lemma sortedGateways_converged:
  assumes "keyed m" and "dom (map_of m) = addr ` set (eg_Targets eg)"
    and "\<And>a. settled r eg (desired_targets eg) m a"
  shows "gateways_converged r eg (e\<lparr>en_Gateways := sortedGateways m,
           en_GatewayHash := gatewayHash eg (rec_GatewayImage r), en_LastReconcileAt := tm\<rparr>)"
proof -
  have "\<exists>t \<in> set (eg_Targets eg). current_ref r eg t ref" if ref: "ref \<in> set (sortedGateways m)" for ref
  proof -
    obtain a where "(a, ref) \<in> set m" using ref unfolding sortedGateways_set by force
    then have a: "map_of m a = Some ref" using assms(1) by (simp add: keyed_def)
    then obtain t where t: "map_of (desired_targets eg) a = Some t"
      using assms(2) desired_targets_dom(2) by (metis domD domI)
    with assms(3) a have "current_ref r eg t ref" by (fastforce simp: settled_def)
    with desired_in [OF t] show ?thesis by blast
  qed
  with sortedGateways_targets [OF assms(1)] assms(2) show ?thesis
    by (simp add: gateways_converged_def)
qed

text \<open>A listing that shows only gateways already tracked adopts nothing.\<close>

lemma adopt_known:
  "\<forall>gw \<in> set gws. svc_ID gw \<in> set bySvc \<Longrightarrow> adopt_loop bySvc out gws = out"
  by (induction bySvc out gws rule: adopt_loop.induct) (auto simp: Let_def)

definition only_known :: "entry \<Rightarrow> string \<Rightarrow> service list \<Rightarrow> bool" where
  "only_known e sid gws \<longleftrightarrow>
     (\<forall>gw \<in> set gws. get_str (ss_Labels (svc_Spec gw)) gatewayForLabel = sid \<longrightarrow>
        svc_ID gw \<in> gr_ServiceID ` set (en_Gateways e))"

lemma ran_stored:
  assumes "distinct (map gr_Target (en_Gateways e))"
  shows "set (map snd (stored_gateways e)) = set (en_Gateways e)"
proof -
  have d: "distinct (map fst (rev (map (\<lambda>ref. (gr_Target ref, ref)) (en_Gateways e))))"
    using assms by (simp add: comp_def rev_map [symmetric])
  have "set (stored_gateways e) = set (rev (map (\<lambda>ref. (gr_Target ref, ref)) (en_Gateways e)))"
    using map_of_stored [of e] d keyed_stored [of e]
      map_of_inject_set [of "stored_gateways e" "rev (map (\<lambda>ref. (gr_Target ref, ref)) (en_Gateways e))"]
    by (simp only: keyed_def simp_thms)
  then show ?thesis by (simp add: image_image)
qed

lemma dom_stored: "dom (map_of (stored_gateways e)) = set (map gr_Target (en_Gateways e))"
  by (simp add: map_of_stored dom_map_of_conv_image_fst image_image)

lemma tracked_known:
  assumes "distinct (map gr_Target (en_Gateways e))" and "only_known e sid gws"
  shows "tracked_from e sid gws = stored_gateways e"
proof -
  have "gr_ServiceID ` set (en_Gateways e) = set (map (\<lambda>(_, ref). gr_ServiceID ref) (stored_gateways e))"
    using ran_stored [OF assms(1)] by (force simp: image_iff)
  with assms(2) show ?thesis
    unfolding tracked_from_def by (intro adopt_known) (auto simp: only_known_def)
qed

lemma fast_path_run:
  assumes "tgt_Egress tgt = Some eg" and "rec_GatewayImage r \<noteq> []"
    and "env_list (rec_env r) (rs_trace s) (marker_filter sid) = Inr gws"
    and "en_GatewayHash (entry_of s sid) = gatewayHash eg (rec_GatewayImage r)"
    and "dom (map_of (tracked_from (entry_of s sid) sid gws)) = addr ` set (eg_Targets eg)"
  shows "\<exists>tm. run_state (reconcileEgress r sid tgt) s =
    (None, s\<lparr>rs_trace := rs_trace s @ [EvList (marker_filter sid) (Inr gws)],
       rs_store := store_Put sid ((entry_of s sid)\<lparr>en_LastReconcileAt := tm\<rparr>) (rs_store s)\<rparr>)"
  using assms by (cases "store_Get (rs_store s) sid") (auto simp: reconcileEgress_def runs Let_def fast_path_iff)

section \<open>Properties\<close>

text \<open>
  C3: convergence of the gateway set. When the desired spec changed and a pass returns no
  error, the entry tracks exactly one gateway per desired target, in target order, every one
  created or updated to the desired spec, and records the hash of the spec.
\<close>

theorem egress_converges:
  assumes "tgt_Egress tgt = Some eg" and "run_state (reconcileEgress r sid tgt) s = (None, s')"
    and "en_GatewayHash (entry_of s sid) \<noteq> gatewayHash eg (rec_GatewayImage r)"
  shows "gateways_converged r eg (entry_of s' sid)"
  using assms(2,1)
proof (cases rule: reconcileEgress_cases)
  case (diffed gws m errs tm)
  then have "errs = []" by (cases errs) (auto dest: sym)
  with diffed sortedGateways_converged show ?thesis by simp
qed (use assms(3) in auto)

definition demo_egress :: egressSpec where
  "demo_egress = the (tgt_Egress demo_tgt)"

lemma demo_egress_sel [simp]:
  "tgt_Egress demo_tgt = Some demo_egress" "eg_Targets demo_egress = [\<lparr>et_Host = ''db'', et_Port = 5432\<rparr>]"
  by (simp_all add: demo_egress_def demo_tgt_def)

lemma gatewayHash_not_Nil: "[] \<noteq> gatewayHash eg img"
  using length_sha256_hex by (metis gatewayHash_def list.size(3) zero_neq_numeral)

lemma demo_egress_run: "\<exists>s'. run_state (reconcileEgress demo_rec ''app1'' demo_tgt) empty_state = (None, s')"
  by (simp add: reconcileEgress_def runs Let_def empty_state_def store_Get_def tracked_from_def
      stored_gateways_def fast_path_def desired_targets_def ensure_gateway_def createGateway_def errors_join_def
      List.map_filter_simps)

theorem egress_converges_witness:
  "gateways_converged demo_rec demo_egress
     (entry_of (snd (run_state (reconcileEgress demo_rec ''app1'' demo_tgt) empty_state)) ''app1'')"
proof -
  obtain s' where run: "run_state (reconcileEgress demo_rec ''app1'' demo_tgt) empty_state = (None, s')"
    using demo_egress_run by blast
  from egress_converges [OF demo_egress_sel(1) run] run show ?thesis
    by (simp add: empty_state_def store_Get_def gatewayHash_not_Nil)
qed

text \<open>
  The second pass is idle. Once the gateway set has converged, a further pass with the
  same spec makes a single read-only listing, mints no key, writes no service, returns no
  error and changes nothing but the time stamp, as long as Docker lists no gateway of this
  service that the entry does not know.
\<close>

theorem egress_second_pass_idle:
  assumes "tgt_Egress tgt = Some eg" and "rec_GatewayImage r \<noteq> []"
    and "gateways_converged r eg (entry_of s sid)"
    and "env_list (rec_env r) (rs_trace s) (marker_filter sid) = Inr gws"
    and "only_known (entry_of s sid) sid gws"
  shows "\<exists>tm. run_state (reconcileEgress r sid tgt) s =
    (None, s\<lparr>rs_trace := rs_trace s @ [EvList (marker_filter sid) (Inr gws)],
       rs_store := store_Put sid ((entry_of s sid)\<lparr>en_LastReconcileAt := tm\<rparr>) (rs_store s)\<rparr>)"
proof (rule fast_path_run [OF assms(1,2,4)])
  have "tracked_from (entry_of s sid) sid gws = stored_gateways (entry_of s sid)"
    using assms(3,5) by (intro tracked_known) (simp_all add: gateways_converged_def)
  then show "dom (map_of (tracked_from (entry_of s sid) sid gws)) = addr ` set (eg_Targets eg)"
    using assms(3) by (simp add: gateways_converged_def dom_stored)
  show "en_GatewayHash (entry_of s sid) = gatewayHash eg (rec_GatewayImage r)"
    using assms(3) by (simp add: gateways_converged_def)
qed

definition demo_ref :: gatewayRef where
  "demo_ref = \<lparr>gr_Target = addr \<lparr>et_Host = ''db'', et_Port = 5432\<rparr>, gr_ServiceID = ''gw-1'', gr_KeyID = ''key-1'',
     gr_Hash = targetGatewayHash demo_egress \<lparr>et_Host = ''db'', et_Port = 5432\<rparr> ''img''\<rparr>"

definition demo_converged :: rstate where
  "demo_converged = \<lparr>rs_store = [(''app1'', zeroEntry\<lparr>en_Gateways := [demo_ref],
     en_GatewayHash := gatewayHash demo_egress ''img''\<rparr>)], rs_trace = []\<rparr>"

lemma demo_converged_entry [simp]:
  "entry_of demo_converged ''app1'' =
     zeroEntry\<lparr>en_Gateways := [demo_ref], en_GatewayHash := gatewayHash demo_egress ''img''\<rparr>"
  by (simp add: demo_converged_def store_Get_def)

lemma demo_ref_current [simp]: "current_ref demo_rec demo_egress \<lparr>et_Host = ''db'', et_Port = 5432\<rparr> demo_ref"
  by (simp add: current_ref_def demo_ref_def)

theorem egress_second_pass_idle_witness:
  "rs_trace (snd (run_state (reconcileEgress demo_rec ''app1'' demo_tgt) demo_converged)) =
     [EvList (marker_filter ''app1'') (Inr [])]"
proof -
  have "gateways_converged demo_rec demo_egress (entry_of demo_converged ''app1'')"
    by (simp add: gateways_converged_def) (simp add: demo_ref_def)
  from egress_second_pass_idle [OF demo_egress_sel(1) _ this, of "[]"] show ?thesis
    by (auto simp: only_known_def demo_converged_def)
qed

text \<open>
  C17: no churn on unrelated targets. A tracked gateway whose target is still desired and
  whose spec is up to date is recorded after the pass exactly as before, with the same
  service, key and hash, whatever happens to the other targets and even if the pass fails.
\<close>

theorem egress_survivors_untouched:
  assumes "tgt_Egress tgt = Some eg" and "run_state (reconcileEgress r sid tgt) s = (err, s')"
    and "ref \<in> set (en_Gateways (entry_of s sid))" and "distinct (map gr_Target (en_Gateways (entry_of s sid)))"
    and "map_of (desired_targets eg) (gr_Target ref) = Some t" and "current_ref r eg t ref"
  shows "ref \<in> set (en_Gateways (entry_of s' sid))"
  using assms(2,1)
proof (cases rule: reconcileEgress_cases)
  case (diffed gws m errs tm)
  have "ref \<in> set (map snd (stored_gateways (entry_of s sid)))"
    using ran_stored assms(3,4) by blast
  then obtain a where a: "map_of (stored_gateways (entry_of s sid)) a = Some ref"
    using keyed_stored [of "entry_of s sid"] by (force simp: keyed_def)
  then have "a = gr_Target ref" using keyed_stored [of "entry_of s sid"] by (simp add: keyed_def)
  with a have "map_of (tracked_from (entry_of s sid) sid gws) (gr_Target ref) = Some ref"
    by (simp add: tracked_from_def map_of_adopt)
  then have "map_of m (gr_Target ref) = Some ref" using diffed(8) assms(5,6) by blast
  then have "ref \<in> snd ` set m" using map_of_SomeD by force
  then show ?thesis by (simp add: diffed(5) sortedGateways_set)
qed (use assms(3) silent_store in auto)

theorem egress_survivors_untouched_witness:
  "demo_ref \<in> set (en_Gateways (entry_of (snd (run_state (reconcileEgress demo_rec ''app1'' demo_tgt)
     demo_converged)) ''app1''))"
proof -
  obtain err s' where run: "run_state (reconcileEgress demo_rec ''app1'' demo_tgt) demo_converged = (err, s')"
    by fastforce
  have "map_of (desired_targets demo_egress) (gr_Target demo_ref) = Some \<lparr>et_Host = ''db'', et_Port = 5432\<rparr>"
    by (simp add: desired_targets_def demo_ref_def)
  from egress_survivors_untouched [OF demo_egress_sel(1) run _ _ this demo_ref_current] run
  show ?thesis by simp
qed

text \<open>
  C36: a drifted gateway whose update fails is never updated again. The image changed, and
  the in-place update of the service's only gateway fails. The pass reports the error and
  drops the gateway from the entry, but records the new hash; on the next pass the gateway
  is listed and adopted, so the counts agree again and the fast path ends the pass without
  an error, although the running gateway still has the old spec.
\<close>

theorem failed_update_never_retried:
  assumes "tgt_Egress tgt = Some eg" and "eg_Targets eg = [t]" and "rec_GatewayImage r \<noteq> []"
    and "en_Gateways (entry_of s sid) = [ref]" and "gr_Target ref = addr t"
    and "gr_Hash ref \<noteq> targetGatewayHash eg t (rec_GatewayImage r)"
    and "en_GatewayHash (entry_of s sid) \<noteq> gatewayHash eg (rec_GatewayImage r)"
    and listed: "\<And>tr. env_list (rec_env r) tr (marker_filter sid) = Inr [gw]"
    and "svc_ID gw = gr_ServiceID ref" and "get_str (ss_Labels (svc_Spec gw)) gatewayForLabel = sid"
    and "gatewayTargetAddr gw = addr t"
    and "\<And>tr. env_inspect (rec_env r) tr (gr_ServiceID ref) = Inr gw"
    and "\<And>tr. env_wait (rec_env r) tr = None" and "\<And>tr req. env_mint (rec_env r) tr req = Inr key"
    and "\<And>tr v spec. env_update (rec_env r) tr (gr_ServiceID ref) v spec = Some e"
  shows "\<exists>err s1 tm. run_state (reconcileEgress r sid tgt) s = (Some err, s1) \<and>
    en_Gateways (entry_of s1 sid) = [] \<and>
    run_state (reconcileEgress r sid tgt) s1 =
      (None, s1\<lparr>rs_trace := rs_trace s1 @ [EvList (marker_filter sid) (Inr [gw])],
         rs_store := store_Put sid ((entry_of s1 sid)\<lparr>en_LastReconcileAt := tm\<rparr>) (rs_store s1)\<rparr>)"
proof -
  obtain en ok where get: "store_Get (rs_store s) sid = (en, ok)" by fastforce
  have known: "only_known en sid [gw]" using assms(4,9) get by (simp add: only_known_def)
  have stored: "stored_gateways en = [(addr t, ref)]"
    using assms(4,5) get by (simp add: stored_gateways_def)
  have tr: "tracked_from en sid [gw] = [(addr t, ref)]"
    using tracked_known [OF _ known] assms(4) get by (simp add: stored)
  have des: "desired_targets eg = [(addr t, t)]" using assms(2) by (simp add: desired_targets_def)
  obtain err s1 where pass1: "run_state (reconcileEgress r sid tgt) s = (Some err, s1)"
    and e1: "en_Gateways (entry_of s1 sid) = []" "en_GatewayHash (entry_of s1 sid) = gatewayHash eg (rec_GatewayImage r)"
    using assms(1,3,6,7,8,12-15) get
    by (auto simp: reconcileEgress_def runs Let_def tr des fast_path_def ensure_gateway_def updateGateway_def
        sortedGateways_def errors_join_def List.map_filter_simps)
  have "dom (map_of (tracked_from (entry_of s1 sid) sid [gw])) = addr ` set (eg_Targets eg)"
    using assms(2,10,11) e1(1) by (simp add: tracked_from_def stored_gateways_def Let_def)
  from fast_path_run [OF assms(1,3) listed e1(2) this] pass1 e1(1) show ?thesis by blast
qed

definition stale_gw :: service where
  "stale_gw =
     \<lparr>svc_ID = ''gw-1'', svc_Version = 9, svc_Spec =
       \<lparr>ss_Name = ''gw'', ss_Labels = [(gatewayForLabel, ''app1'')],
        ss_ContainerSpec = Some \<lparr>cs_Image = ''old'', cs_Command = [], cs_Args = [],
          cs_Env = [''TAILSWARM_GATEWAY_TARGETS=db:5432'']\<rparr>,
        ss_TaskNetworks = [], ss_Networks = [], ss_EndpointPorts = None\<rparr>\<rparr>"

definition stuck_rec :: reconciler where
  "stuck_rec = demo_rec\<lparr>rec_env := demo_env2\<lparr>env_inspect := (\<lambda>_ _. Inr stale_gw), env_list := (\<lambda>_ _. Inr [stale_gw]),
     env_update := (\<lambda>_ _ _ _. Some (ErrNew ''out of sequence''))\<rparr>\<rparr>"

theorem failed_update_never_retried_witness:
  "\<exists>s err s1. run_state (reconcileEgress stuck_rec ''app1'' demo_tgt) s = (Some err, s1) \<and>
     fst (run_state (reconcileEgress stuck_rec ''app1'' demo_tgt) s1) = None"
proof -
  let ?ref = "demo_ref\<lparr>gr_Hash := []\<rparr>"
  let ?s = "\<lparr>rs_store = [(''app1'', zeroEntry\<lparr>en_Gateways := [?ref]\<rparr>)], rs_trace = []\<rparr>"
  let ?t = "\<lparr>et_Host = ''db'', et_Port = 5432\<rparr>"
  have en: "entry_of ?s ''app1'' = zeroEntry\<lparr>en_Gateways := [?ref]\<rparr>" by (simp add: store_Get_def)
  have h: "[] \<noteq> targetGatewayHash eg t img" for eg t img
    using length_sha256_hex by (metis targetGatewayHash_def list.size(3) zero_neq_numeral)
  have a: "gatewayTargetAddr stale_gw = addr ?t"
    by (simp add: gatewayTargetAddr_def stale_gw_def addr_def dec.simps envGatewayTargets_def trim_prefix_def)
  have "\<exists>err s1 tm. run_state (reconcileEgress stuck_rec ''app1'' demo_tgt) ?s = (Some err, s1) \<and>
    en_Gateways (entry_of s1 ''app1'') = [] \<and>
    run_state (reconcileEgress stuck_rec ''app1'' demo_tgt) s1 =
      (None, s1\<lparr>rs_trace := rs_trace s1 @ [EvList (marker_filter ''app1'') (Inr [stale_gw])],
         rs_store := store_Put ''app1'' ((entry_of s1 ''app1'')\<lparr>en_LastReconcileAt := tm\<rparr>) (rs_store s1)\<rparr>)"
    by (rule failed_update_never_retried [where eg = demo_egress and t = ?t and ref = ?ref])
      (simp_all add: en a h gatewayHash_not_Nil stuck_rec_def store_Get_def, simp_all add: demo_ref_def stale_gw_def get_str_def)
  then show ?thesis by fastforce
qed

end
