(* ===== verification/Reconciler_Pass.thy ===== *)
theory Reconciler_Pass
  imports Reconciler_Egress_Props
begin

text \<open>
  Properties of a whole pass over one service, and of sequences of passes: keys are not
  lost, the two directions do not disturb each other, the store stays well formed, and what
  teardown and shutdown leave behind.
\<close>

section \<open>The two directions\<close>

text \<open>What an entry of the store always satisfies: no key or hash without a proxy, and the
  gateways sorted by target without duplicates.\<close>

definition wf_entry :: "entry \<Rightarrow> bool" where
  "wf_entry e \<longleftrightarrow> (en_Proxy e = None \<longrightarrow> en_PreAuthKeyID e = [] \<and> en_LastSpecHash e = []) \<and>
     sorted (map gr_Target (en_Gateways e)) \<and> distinct (map gr_Target (en_Gateways e))"

definition held :: "entry \<Rightarrow> string set" where
  "held e = insert (en_PreAuthKeyID e) (gr_KeyID ` set (en_Gateways e))"

lemma wf_zeroEntry [simp]: "wf_entry zeroEntry"
  by (simp add: wf_entry_def)

lemma reconcileIngress_effect:
  assumes run: "run_state (reconcileIngress r sid tgt) s = (err, s')" and wf: "wf_entry (entry_of s sid)"
  shows "en_Gateways (entry_of s' sid) = en_Gateways (entry_of s sid)"
    and "en_Gateways (entry_of s sid) \<noteq> [] \<Longrightarrow> en_GatewayHash (entry_of s' sid) = en_GatewayHash (entry_of s sid)"
    and "wf_entry (entry_of s' sid)"
    and "accounted (if en_Proxy (entry_of s' sid) = None then {} else {en_PreAuthKeyID (entry_of s' sid)}) (since s s')"
    and "later s s'"
proof -
  have "en_Gateways (entry_of s' sid) = en_Gateways (entry_of s sid) \<and>
    (en_Gateways (entry_of s sid) \<noteq> [] \<longrightarrow> en_GatewayHash (entry_of s' sid) = en_GatewayHash (entry_of s sid)) \<and>
    wf_entry (entry_of s' sid) \<and>
    accounted (if en_Proxy (entry_of s' sid) = None then {} else {en_PreAuthKeyID (entry_of s' sid)}) (since s s') \<and>
    later s s'"
  proof (cases "tgt_Ingress tgt")
    case True
    with run show ?thesis
    proof (cases rule: reconcileIngress_cases)
      case (failed e)
      then show ?thesis using wf by (auto simp: silent_store silent_later accounted_def)
    next
      case (started key p tm es)
      have "minted es = {}" using started(3) by (auto split: option.splits if_splits)
      with started wf show ?thesis by (auto simp: wf_entry_def accounted_def start_calls_def)
    qed (use wf in \<open>auto simp: wf_entry_def later_def\<close>)
  next
    case False
    with run have "run_state (teardownIngress r sid) s = (err, s')" by (simp add: reconcileIngress_def)
    then show ?thesis
    proof (cases rule: teardownIngress_cases)
      case (limited e)
      then show ?thesis using wf by (auto simp: silent_store silent_later accounted_def)
    qed (use wf in \<open>auto simp: wf_entry_def without_ingress_def accounted_def later_def\<close>)
  qed
  then show "en_Gateways (entry_of s' sid) = en_Gateways (entry_of s sid)"
    and "en_Gateways (entry_of s sid) \<noteq> [] \<Longrightarrow> en_GatewayHash (entry_of s' sid) = en_GatewayHash (entry_of s sid)"
    and "wf_entry (entry_of s' sid)"
    and "accounted (if en_Proxy (entry_of s' sid) = None then {} else {en_PreAuthKeyID (entry_of s' sid)}) (since s s')"
    and "later s s'" by simp_all
qed

lemma keys_on_UNIV: "keyed m \<Longrightarrow> keys_on UNIV m = gr_KeyID ` set (sortedGateways m)"
  unfolding keys_on_def sortedGateways_set keyed_def by (force dest: map_of_SomeD)

lemma reconcileEgress_effect:
  assumes run: "run_state (reconcileEgress r sid tgt) s = (err, s')" and wf: "wf_entry (entry_of s sid)"
  shows "en_Proxy (entry_of s' sid) = en_Proxy (entry_of s sid)"
    and "en_PreAuthKeyID (entry_of s' sid) = en_PreAuthKeyID (entry_of s sid)"
    and "en_LastSpecHash (entry_of s' sid) = en_LastSpecHash (entry_of s sid)"
    and "wf_entry (entry_of s' sid)"
    and "accounted (gr_KeyID ` set (en_Gateways (entry_of s' sid))) (since s s')"
    and "later s s'"
proof -
  let ?P = "en_Proxy (entry_of s' sid) = en_Proxy (entry_of s sid) \<and>
    en_PreAuthKeyID (entry_of s' sid) = en_PreAuthKeyID (entry_of s sid) \<and>
    en_LastSpecHash (entry_of s' sid) = en_LastSpecHash (entry_of s sid) \<and>
    wf_entry (entry_of s' sid) \<and>
    accounted (gr_KeyID ` set (en_Gateways (entry_of s' sid))) (since s s') \<and> later s s'"
  have ?P
  proof (cases "tgt_Egress tgt")
    case None
    with run have "run_state (teardownEgress r sid) s = (err, s')" by (simp add: reconcileEgress_def)
    from teardownEgress_run [OF this] wf show ?thesis
      by (auto simp: wf_entry_def without_egress_def accounted_def split: if_splits)
  next
    case (Some eg)
    with run show ?thesis
    proof (cases rule: reconcileEgress_cases)
      case (refused e)
      then show ?thesis using wf by (auto simp: silent_store silent_later accounted_def)
    next
      case (fast gws tm)
      then show ?thesis using wf by (auto simp: wf_entry_def accounted_def later_def)
    next
      case (diffed gws m errs tm)
      then show ?thesis using wf sortedGateways_targets [OF diffed(3)]
        by (simp add: wf_entry_def keys_on_UNIV)
    qed
  qed
  then show "en_Proxy (entry_of s' sid) = en_Proxy (entry_of s sid)"
    and "en_PreAuthKeyID (entry_of s' sid) = en_PreAuthKeyID (entry_of s sid)"
    and "en_LastSpecHash (entry_of s' sid) = en_LastSpecHash (entry_of s sid)"
    and "wf_entry (entry_of s' sid)"
    and "accounted (gr_KeyID ` set (en_Gateways (entry_of s' sid))) (since s s')"
    and "later s s'" by simp_all
qed

section \<open>Teardown\<close>

text \<open>Everything an entry stands for was taken down: the proxy closed, the gateways removed, the
  keys expired.\<close>

definition taken_down :: "entry \<Rightarrow> trace \<Rightarrow> bool" where
  "taken_down e es \<longleftrightarrow>
     held e \<subseteq> expired es \<union> {[]} \<and>
     (\<forall>p. en_Proxy e = Some p \<longrightarrow> (\<exists>c. EvClose p c \<in> set es)) \<and>
     (\<forall>ref \<in> set (en_Gateways e). \<exists>d. EvRemove (gr_ServiceID ref) d \<in> set es)"

lemma taken_down_Cons: "taken_down e es \<Longrightarrow> taken_down e (x # es)"
  unfolding taken_down_def by auto

lemma teardown_run:
  assumes "run_state (teardown r sid) s = (err, s')"
  shows "later s s' \<and> minted (since s s') = {} \<and> store_Get (rs_store s') sid = (zeroEntry, False) \<and>
    (err = None \<longrightarrow> taken_down (entry_of s sid) (since s s'))"
proof -
  obtain e1 s1 where i: "run_state (teardownIngress r sid) s = (e1, s1)" by fastforce
  obtain e2 s2 where g: "run_state (teardownEgress r sid) s1 = (e2, s2)" by fastforce
  have s': "s' = s2\<lparr>rs_store := store_Delete sid (rs_store s2)\<rparr>" and err: "err = errors_join [e1, e2]"
    using assms i g by (simp_all add: teardown_def runs)
  note G = teardownEgress_run [OF g]
  have I: "later s s1 \<and> minted (since s s1) = {} \<and> (e1 = None \<longrightarrow>
     en_PreAuthKeyID (entry_of s sid) \<in> expired (since s s1) \<union> {[]} \<and>
     (\<forall>p. en_Proxy (entry_of s sid) = Some p \<longrightarrow> (\<exists>c. EvClose p c \<in> set (since s s1))) \<and>
     en_Gateways (entry_of s1 sid) = en_Gateways (entry_of s sid))"
    using i by (cases rule: teardownIngress_cases)
      (auto simp: silent_later without_ingress_def later_def [of s s] split: if_splits)
  have "later s s2" using I G unfolding later_def by fastforce
  then have "later s s'" and sin: "since s s' = since s s1 @ since s1 s2"
    using since_later [of s s1 s2] I G by (simp_all add: s' later_def since_def)
  moreover have "err = None \<longrightarrow> taken_down (entry_of s sid) (since s s')"
  proof
    assume "err = None"
    then have "e1 = None" "e2 = None" by (simp_all add: err)
    with I G show "taken_down (entry_of s sid) (since s s')"
      unfolding sin taken_down_def held_def by fastforce
  qed
  ultimately show ?thesis using I G by (simp add: s')
qed

section \<open>A whole pass\<close>

definition good_pass :: "string \<Rightarrow> rstate \<Rightarrow> rstate \<Rightarrow> bool" where
  "good_pass sid s s' \<longleftrightarrow> later s s' \<and> wf_entry (entry_of s' sid) \<and>
     accounted (held (entry_of s' sid)) (since s s')"

lemma good_pass_extend:
  assumes "good_pass sid (extend s es) s'" and "minted es = {}"
  shows "good_pass sid s s'"
proof -
  have l: "later s (extend s es)" by (simp add: later_def)
  have "later (extend s es) s'" using assms(1) by (simp add: good_pass_def)
  then have "since s s' = es @ since (extend s es) s'" "later s s'"
    using since_later [OF l] by (auto simp: later_def)
  with assms show ?thesis by (auto simp: good_pass_def accounted_def)
qed

lemma teardown_good: "run_state (teardown r sid) s = (err, s') \<Longrightarrow> good_pass sid s s'"
  by (drule teardown_run) (simp add: good_pass_def accounted_def)

lemma directions_good:
  assumes "run_state (reconcileIngress r sid tgt) s = (e1, s1)" and "run_state (reconcileEgress r sid tgt) s1 = (e2, s2)"
    and "wf_entry (entry_of s sid)"
  shows "good_pass sid s s2"
proof -
  note I = reconcileIngress_effect [OF assms(1,3)]
  note E = reconcileEgress_effect [OF assms(2) I(3)]
  have "accounted (held (entry_of s2 sid)) (since s s1)"
    by (rule accounted_mono [OF I(4)]) (simp add: held_def E(2))
  moreover have "accounted (held (entry_of s2 sid)) (since s1 s2)"
    by (rule accounted_mono [OF E(5)]) (auto simp: held_def)
  ultimately show ?thesis
    using accounted_append since_later [OF I(5) E(6)] I(5) E(4,6)
    by (fastforce simp: good_pass_def later_def)
qed

lemma idle_good: "wf_entry (entry_of s sid) \<Longrightarrow> minted es = {} \<Longrightarrow> good_pass sid s (extend s es)"
  by (simp add: good_pass_def later_def accounted_def)

lemma reconcile_found_good:
  assumes "run_state (reconcile_found r sid svc) s = (err, s')" and "wf_entry (entry_of s sid)"
  shows "good_pass sid s s'"
proof (cases "map_of (ss_Labels (svc_Spec svc)) gatewayForLabel")
  case (Some v)
  with assms idle_good [of s sid "[]"] show ?thesis by (simp add: reconcile_found_def)
next
  case None
  let ?n = "env_networks (rec_env r) (rs_trace s)"
  let ?s1 = "extend s [EvNetworks ?n]"
  have wf1: "wf_entry (entry_of ?s1 sid)" using assms(2) by simp
  show ?thesis
  proof (cases ?n)
    case (Inl e)
    with None assms idle_good [of s sid "[EvNetworks ?n]"] show ?thesis
      by (simp add: reconcile_found_def runs)
  next
    case (Inr networks)
    obtain tgt en perr where P: "Parse (parser_of r) svc networks = (tgt, en, perr)" by (metis prod_cases3)
    have "good_pass sid ?s1 s'"
    proof (cases "perr = None \<and> en")
      case True
      obtain e1 s1 where 1: "run_state (reconcileIngress r sid tgt) ?s1 = (e1, s1)" by fastforce
      obtain e2 s2 where 2: "run_state (reconcileEgress r sid tgt) s1 = (e2, s2)" by fastforce
      have "s' = s2" using assms(1) None Inr P True 1 2 by (simp add: reconcile_found_def runs)
      with directions_good [OF 1 2 wf1] show ?thesis by simp
    next
      case False
      obtain e s2 where t: "run_state (teardown r sid) ?s1 = (e, s2)" by fastforce
      have "s' = s2" using assms(1) None Inr P False t
        by (auto simp: reconcile_found_def runs split: option.splits if_splits)
      with teardown_good [OF t] show ?thesis by simp
    qed
    then show ?thesis by (rule good_pass_extend) simp
  qed
qed

lemma Reconcile_good:
  assumes "run_state (Reconcile r sid) s = (err, s')" and "wf_entry (entry_of s sid)"
  shows "good_pass sid s s'"
proof -
  let ?i = "env_inspect (rec_env r) (rs_trace s) sid"
  let ?s1 = "extend s [EvInspect sid ?i]"
  have "good_pass sid ?s1 s'"
  proof (cases ?i)
    case (Inl e)
    with assms idle_good [of ?s1 sid "[]"] teardown_good [of r sid ?s1 err s'] show ?thesis
      by (auto simp: Reconcile_def runs split: if_splits)
  next
    case (Inr svc)
    with assms reconcile_found_good [of r sid svc ?s1] show ?thesis by (simp add: Reconcile_def runs)
  qed
  then show ?thesis by (rule good_pass_extend) simp
qed

section \<open>Sequences of passes and shutdown\<close>

lemma close_loop_run:
  assumes "run_state (close_loop r snap sids) s = ((), s')"
  shows "\<exists>es. rs_trace s' = rs_trace s @ es \<and>
    (\<forall>e \<in> set es. \<exists>sid en p c. sid \<in> set sids \<and> map_of snap sid = Some en \<and> en_Proxy en = Some p \<and> e = EvClose p c) \<and>
    (\<forall>sid \<in> set sids. \<forall>en p. map_of snap sid = Some en \<and> en_Proxy en = Some p \<longrightarrow> (\<exists>c. EvClose p c \<in> set es)) \<and>
    (\<forall>sid. store_Get (rs_store s') sid = (if sid \<in> set sids then (zeroEntry, False) else store_Get (rs_store s) sid))"
  using assms
proof (induction sids arbitrary: s)
  case (Cons sid sids)
  define es0 where "es0 = (case map_of snap sid of None \<Rightarrow> [] | Some en \<Rightarrow>
    (case en_Proxy en of None \<Rightarrow> [] | Some p \<Rightarrow> [EvClose p (env_close (rec_env r) (rs_trace s) p)]))"
  let ?s1 = "s\<lparr>rs_trace := rs_trace s @ es0, rs_store := store_Delete sid (rs_store s)\<rparr>"
  have rest: "run_state (close_loop r snap sids) ?s1 = ((), s')"
    using Cons.prems by (auto simp: runs es0_def split: option.splits)
  obtain es where IH: "rs_trace s' = rs_trace s @ es0 @ es"
    "\<And>e. e \<in> set es \<Longrightarrow> \<exists>sid en p c. sid \<in> set sids \<and> map_of snap sid = Some en \<and> en_Proxy en = Some p \<and> e = EvClose p c"
    "\<And>sid en p. sid \<in> set sids \<Longrightarrow> map_of snap sid = Some en \<Longrightarrow> en_Proxy en = Some p \<Longrightarrow> \<exists>c. EvClose p c \<in> set es"
    "\<And>i. store_Get (rs_store s') i = (if i \<in> set sids then (zeroEntry, False) else store_Get (store_Delete sid (rs_store s)) i)"
    using Cons.IH [OF rest] by auto
  have es0: "\<And>e. e \<in> set es0 \<Longrightarrow> \<exists>en p c. map_of snap sid = Some en \<and> en_Proxy en = Some p \<and> e = EvClose p c"
    "\<And>en p. map_of snap sid = Some en \<Longrightarrow> en_Proxy en = Some p \<Longrightarrow> \<exists>c. EvClose p c \<in> set es0"
    by (cases "map_of snap sid"; fastforce simp: es0_def split: option.splits)+
  have "\<exists>i en p c. i \<in> set (sid # sids) \<and> map_of snap i = Some en \<and> en_Proxy en = Some p \<and> e = EvClose p c"
    if "e \<in> set (es0 @ es)" for e using that IH(2) es0(1) by (metis Un_iff list.set_intros set_append)
  moreover have "\<exists>c. EvClose p c \<in> set (es0 @ es)"
    if "i \<in> set (sid # sids)" "map_of snap i = Some en" "en_Proxy en = Some p" for i en p
    using that IH(3) es0(2) by (metis Un_iff set_ConsD set_append)
  moreover have "store_Get (rs_store s') i = (if i \<in> set (sid # sids) then (zeroEntry, False) else store_Get (rs_store s) i)" for i
    using IH(4) [of i] by simp
  ultimately show ?case using IH(1) by (intro exI [of _ "es0 @ es"]) blast
qed simp

lemma CloseAll_effect:
  assumes "run_state (CloseAll r) s = ((), s')"
  shows "\<exists>es. rs_trace s' = rs_trace s @ es \<and>
    (\<forall>e \<in> set es. \<exists>sid p c. en_Proxy (entry_of s sid) = Some p \<and> e = EvClose p c) \<and>
    (\<forall>sid p. en_Proxy (entry_of s sid) = Some p \<longrightarrow> (\<exists>c. EvClose p c \<in> set es)) \<and>
    (\<forall>sid. store_Get (rs_store s') sid = (zeroEntry, False))"
proof -
  let ?ks = "sort_key (env_range (rec_env r) (rs_trace s)) (gm_keys (rs_store s))"
  have run: "run_state (close_loop r (rs_store s) ?ks) s = ((), s')"
    using assms by (simp add: CloseAll_def runs)
  have ks: "set ?ks = dom (map_of (rs_store s))" by (simp add: dom_map_of_conv_image_fst)
  have ent: "map_of (rs_store s) sid = Some en \<Longrightarrow> entry_of s sid = en" for sid en
    by (simp add: store_Get_def)
  have ent': "en_Proxy (entry_of s sid) = Some p \<Longrightarrow> \<exists>en. map_of (rs_store s) sid = Some en \<and> en_Proxy en = Some p" for sid p
    by (auto simp: store_Get_def split: option.splits)
  obtain es where es: "rs_trace s' = rs_trace s @ es"
    "\<And>e. e \<in> set es \<Longrightarrow> \<exists>sid en p c. map_of (rs_store s) sid = Some en \<and> en_Proxy en = Some p \<and> e = EvClose p c"
    "\<And>sid en p. map_of (rs_store s) sid = Some en \<Longrightarrow> en_Proxy en = Some p \<Longrightarrow> \<exists>c. EvClose p c \<in> set es"
    "\<And>sid. store_Get (rs_store s') sid =
       (if sid \<in> dom (map_of (rs_store s)) then (zeroEntry, False) else store_Get (rs_store s) sid)"
    using close_loop_run [OF run] unfolding ks by (metis domI)
  have "store_Get (rs_store s') sid = (zeroEntry, False)" for sid
    using es(4) [of sid] by (cases "map_of (rs_store s) sid") (auto simp: store_Get_def)
  moreover have "\<exists>sid p c. en_Proxy (entry_of s sid) = Some p \<and> e = EvClose p c" if "e \<in> set es" for e
    using es(2) [OF that] ent by metis
  moreover have "\<exists>c. EvClose p c \<in> set es" if "en_Proxy (entry_of s sid) = Some p" for sid p
    using ent' [OF that] es(3) by blast
  ultimately show ?thesis using es(1) by blast
qed

text \<open>
  The states of the store that a running daemon can be in. Each pass may meet an environment of
  its own: what it is answered may depend on calls that passes of other workers make in between.
\<close>

inductive reachable :: "reconciler \<Rightarrow> rstate \<Rightarrow> bool" for r where
  start: "reachable r \<lparr>rs_store = NewStore, rs_trace = []\<rparr>"
| pass: "reachable r s \<Longrightarrow> run_state (Reconcile (r\<lparr>rec_env := e\<rparr>) sid) s = (err, s') \<Longrightarrow> reachable r s'"
| shutdown: "reachable r s \<Longrightarrow> run_state (CloseAll (r\<lparr>rec_env := e\<rparr>)) s = ((), s') \<Longrightarrow> reachable r s'"

lemma reachable_pass: "reachable r s \<Longrightarrow> run_state (Reconcile r sid) s = (err, s') \<Longrightarrow> reachable r s'"
  using pass [of r s "rec_env r"] by simp

lemma reachable_shutdown: "reachable r s \<Longrightarrow> run_state (CloseAll r) s = ((), s') \<Longrightarrow> reachable r s'"
  using shutdown [of r s "rec_env r"] by simp

lemma wf_reachable: "reachable r s \<Longrightarrow> wf_entry (entry_of s sid)"
proof (induction arbitrary: sid rule: reachable.induct)
  case start
  then show ?case by (simp add: NewStore_def store_Get_def)
next
  case (pass s e i err s')
  show ?case
  proof (cases "sid = i")
    case True
    with Reconcile_good [OF pass(2) pass(3)] show ?thesis by (simp add: good_pass_def)
  next
    case False
    with gr.keepsD [OF own.Reconcile pass(2)] pass(3) [of sid] show ?thesis by (simp add: grows_def)
  qed
next
  case (shutdown s e s')
  with CloseAll_effect [OF shutdown(2)] show ?case by (metis fst_conv wf_zeroEntry)
qed

section \<open>Properties\<close>

text \<open>
  C1: no pre-auth key is leaked. Whatever the environment answers, every key minted during
  a pass is, when the pass ends, recorded in the service's entry, or the pass asked
  Headscale to expire it, or Headscale gave it no ID to expire it by.
\<close>

theorem Reconcile_no_key_leak:
  assumes "reachable r s" and "run_state (Reconcile r sid) s = (err, s')"
  shows "minted (since s s') \<subseteq> expired (since s s') \<union> held (entry_of s' sid) \<union> {[]}"
  using Reconcile_good [OF assms(2) wf_reachable [OF assms(1)]] by (simp add: good_pass_def accounted_def)

theorem Reconcile_no_key_leak_witness:
  "\<exists>s'. run_state (Reconcile demo_rec ''app1'') \<lparr>rs_store = NewStore, rs_trace = []\<rparr> = (fst (run_state (Reconcile demo_rec ''app1'') \<lparr>rs_store = NewStore, rs_trace = []\<rparr>), s') \<and>
     ''key-1'' \<in> minted (rs_trace s') \<and> ''key-1'' \<in> expired (rs_trace s') \<union> held (entry_of s' ''app1'')"
proof -
  let ?s = "\<lparr>rs_store = NewStore, rs_trace = []\<rparr>"
  obtain err s' where run: "run_state (Reconcile demo_rec ''app1'') ?s = (err, s')" by fastforce
  then obtain es where es: "rs_trace s' = demo_start @ es"
    using demo_Reconcile_trace by (auto simp: NewStore_def)
  have "''key-1'' \<in> minted (rs_trace s')" by (simp add: es demo_start_def calm_key_def)
  with Reconcile_no_key_leak [OF reachable.start run] run show ?thesis by (auto simp: since_def)
qed

text \<open>
  C20: the store invariant. In every state a daemon reaches by passes and shutdown, an entry
  without a proxy holds no key ID and no spec hash, and its gateways are sorted by target
  without duplicates.
\<close>

theorem reachable_entries_wf:
  assumes "reachable r s"
  shows "wf_entry (entry_of s sid)"
  using assms by (rule wf_reachable)

theorem reachable_entries_wf_witness:
  "wf_entry (entry_of (snd (run_state (Reconcile demo_rec ''app1'') \<lparr>rs_store = NewStore, rs_trace = []\<rparr>)) ''app1'')"
proof -
  obtain err s' where run: "run_state (Reconcile demo_rec ''app1'') \<lparr>rs_store = NewStore, rs_trace = []\<rparr> = (err, s')"
    by fastforce
  from reachable_entries_wf [OF reachable_pass [OF reachable.start run]] run show ?thesis by simp
qed

text \<open>
  Ingress and egress are independent. The ingress reconcile, teardown included, leaves
  the gateways and their hash alone; the egress reconcile, teardown included, leaves the
  proxy, its key and its hash alone. Both hold on every path, failures included.
\<close>

theorem directions_independent:
  assumes "reachable r s"
  shows "(run_state (reconcileIngress r sid tgt) s = (err, s') \<longrightarrow>
      en_Gateways (entry_of s' sid) = en_Gateways (entry_of s sid) \<and>
      (en_Gateways (entry_of s sid) \<noteq> [] \<longrightarrow> en_GatewayHash (entry_of s' sid) = en_GatewayHash (entry_of s sid))) \<and>
    (run_state (reconcileEgress r sid tgt) s = (err, s') \<longrightarrow>
      en_Proxy (entry_of s' sid) = en_Proxy (entry_of s sid) \<and>
      en_PreAuthKeyID (entry_of s' sid) = en_PreAuthKeyID (entry_of s sid) \<and>
      en_LastSpecHash (entry_of s' sid) = en_LastSpecHash (entry_of s sid))"
  using reconcileIngress_effect(1,2) [of r sid tgt s err s'] reconcileEgress_effect(1-3) [of r sid tgt s err s']
    wf_reachable [OF assms, of sid]
  by simp

theorem directions_independent_witness:
  "en_Proxy (entry_of (snd (run_state (reconcileEgress demo_rec ''app1'' demo_tgt)
     \<lparr>rs_store = NewStore, rs_trace = []\<rparr>)) ''app1'') = None"
  using directions_independent [OF reachable.start, of demo_rec "''app1''" demo_tgt
      "fst (run_state (reconcileEgress demo_rec ''app1'' demo_tgt) \<lparr>rs_store = NewStore, rs_trace = []\<rparr>)"
      "snd (run_state (reconcileEgress demo_rec ''app1'' demo_tgt) \<lparr>rs_store = NewStore, rs_trace = []\<rparr>)"]
  by (simp add: NewStore_def store_Get_def)



text \<open>
  C40: a teardown forgets even what it could not remove. Whatever error it returns, the entry
  is gone afterwards, and tearing the same service down again makes no call to Docker or
  Headscale, so a gateway whose removal failed is left running and its key unexpired.
\<close>

theorem teardown_forgets:
  assumes "run_state (teardown r sid) s = (err, s')"
  shows "store_Get (rs_store s') sid = (zeroEntry, False) \<and>
    fst (run_state (teardown r sid) s') = None \<and> rs_trace (snd (run_state (teardown r sid) s')) = rs_trace s'"
  using teardown_run [OF assms]
  by (simp add: teardown_def teardownIngress_def teardownEgress_def runs)

theorem teardown_forgets_witness:
  "\<exists>r s e s'. run_state (teardown r ''app1'') s = (Some e, s') \<and> en_Gateways (entry_of s ''app1'') \<noteq> [] \<and>
     rs_trace (snd (run_state (teardown r ''app1'') s')) = rs_trace s'"
proof -
  let ?r = "demo_rec\<lparr>rec_env := demo_env2\<lparr>env_remove := (\<lambda>_ _. Some (ErrNew ''daemon down''))\<rparr>\<rparr>"
  have "\<exists>e s'. run_state (teardown ?r ''app1'') demo_converged = (Some e, s')"
    by (simp add: teardown_def teardownIngress_def teardownEgress_def removeGateway_def runs demo_converged_def
        store_Get_def zeroEntry_def errors_join_def List.map_filter_simps)
  then obtain e s' where run: "run_state (teardown ?r ''app1'') demo_converged = (Some e, s')" by blast
  from teardown_forgets [OF run] run show ?thesis
    by (intro exI [of _ ?r] exI [of _ demo_converged] exI [of _ e] exI [of _ s']) simp
qed

text \<open>
  Shutdown. \<^verbatim>\<open>CloseAll\<close> closes every recorded proxy, makes no other call, so it expires no
  key and leaves the gateways running, and empties the store.
\<close>

theorem CloseAll_closes_proxies_only:
  assumes "run_state (CloseAll r) s = ((), s')"
  shows "\<exists>es. rs_trace s' = rs_trace s @ es \<and>
    (\<forall>e \<in> set es. \<exists>sid p c. en_Proxy (entry_of s sid) = Some p \<and> e = EvClose p c) \<and>
    (\<forall>sid p. en_Proxy (entry_of s sid) = Some p \<longrightarrow> (\<exists>c. EvClose p c \<in> set es)) \<and>
    (\<forall>sid. store_Get (rs_store s') sid = (zeroEntry, False))"
  using assms by (rule CloseAll_effect)

theorem CloseAll_closes_proxies_only_witness:
  "\<exists>c. EvClose (the (en_Proxy demo_entry)) c \<in> set (rs_trace (snd (run_state (CloseAll demo_rec) demo_state)))"
proof -
  define s' where "s' = snd (run_state (CloseAll demo_rec) demo_state)"
  have run: "run_state (CloseAll demo_rec) demo_state = ((), s')" by (simp add: s'_def prod_eq_iff)
  have "en_Proxy (entry_of demo_state ''a'') = Some (the (en_Proxy demo_entry))"
    by (simp add: demo_state_def store_Get_def demo_entry_def)
  with CloseAll_closes_proxies_only [OF run] run show ?thesis by (fastforce simp: demo_state_def)
qed

text \<open>
  Gateways are never treated as applications. A pass over a service that carries the
  gateway marker inspects it and stops: no further call, no change to the store, no error.
\<close>

theorem Reconcile_skips_gateways:
  assumes "env_inspect (rec_env r) (rs_trace s) sid = Inr svc"
    and "map_of (ss_Labels (svc_Spec svc)) gatewayForLabel = Some app"
  shows "run_state (Reconcile r sid) s = (None, extend s [EvInspect sid (Inr svc)])"
  using assms by (simp add: Reconcile_def reconcile_found_def runs)

theorem Reconcile_skips_gateways_witness:
  "run_state (Reconcile stuck_rec ''gw-1'') demo_state = (None, extend demo_state [EvInspect ''gw-1'' (Inr stale_gw)])"
  by (rule Reconcile_skips_gateways [of _ _ _ _ "''app1''"]) (simp_all add: stuck_rec_def stale_gw_def)

definition with_rate :: "rat \<Rightarrow> config \<Rightarrow> config" where
  "with_rate q cfg = cfg\<lparr>cfg_Reconcile := (cfg_Reconcile cfg)\<lparr>rc_RateLimitRPS := Finite q\<rparr>\<rparr>"

lemma burst_fractional:
  assumes "0 < q" and "q < 1"
  shows "lim_Burst (rec_Limiter (NewReconciler e (with_rate q cfg))) = Some 0"
proof -
  have "\<lfloor>q\<rfloor> = 0" using assms by linarith
  with assms show ?thesis by (simp add: NewReconciler_def NewLimiter_def with_rate_def Let_def)
qed

text \<open>
  C39: a fractional rate limit disables the daemon. Setting the limit of a valid configuration to
  a positive value below one call per second keeps it valid, but the limiter's burst is the
  limit truncated to zero; with a limiter that, as documented, lets nobody pass when its burst
  is less than one, no reconcile of any service ever asks for a key, so no proxy or gateway
  can come up.
\<close>

theorem fractional_rate_never_mints:
  assumes "validate sys cfg = None" and "0 < q" and "q < 1"
    and "r = (NewReconciler e (with_rate q cfg))\<lparr>rec_GatewayImage := img\<rparr>"
    and "\<And>b tr. lim_Burst (rec_Limiter r) = Some b \<Longrightarrow> b < 1 \<Longrightarrow> env_wait e tr \<noteq> None"
    and "run_state (Reconcile r sid) s = (err, s')"
  shows "validate sys (with_rate q cfg) = None \<and>
    (\<exists>es. rs_trace s' = rs_trace s @ es \<and> list_all (\<lambda>ev. \<not> is_mint ev) es)"
proof -
  have "\<forall>tr. env_wait (rec_env r) tr \<noteq> None"
    using assms(4) assms(5) [of 0] burst_fractional [OF assms(2,3)] by (simp add: NewReconciler_def Let_def)
  moreover have "stalled r sid s s'"
    using stall.Reconcile assms(6) by (rule stl.keepsD) simp
  moreover have "validate sys (with_rate q cfg) = None"
    using assms(1,2) by (simp add: validate_None valid_config_def with_rate_def)
  ultimately show ?thesis by (simp add: stalled_def grows_def)
qed

theorem fractional_rate_never_mints_witness:
  "validate demo_sys (with_rate (1 / 2) demo_config) = None \<and>
   (\<exists>es. rs_trace (snd (run_state (Reconcile (NewReconciler (calm_env\<lparr>env_wait := (\<lambda>_. Some (ErrNew ''burst 0''))\<rparr>)
     (with_rate (1 / 2) demo_config)) ''app1'') \<lparr>rs_store = [], rs_trace = []\<rparr>)) = es \<and> list_all (\<lambda>ev. \<not> is_mint ev) es)"
proof -
  let ?e = "calm_env\<lparr>env_wait := (\<lambda>_. Some (ErrNew ''burst 0''))\<rparr>"
  let ?r = "NewReconciler ?e (with_rate (1 / 2) demo_config)" and ?s = "\<lparr>rs_store = [], rs_trace = []\<rparr>"
  have "validate demo_sys demo_config = None" by code_simp
  from fractional_rate_never_mints [OF this, where q = "1 / 2" and e = ?e and img = "[]" and r = ?r and s = ?s
      and sid = "''app1''" and err = "fst (run_state (Reconcile ?r ''app1'') ?s)"
      and s' = "snd (run_state (Reconcile ?r ''app1'') ?s)"]
  show ?thesis by (simp add: NewReconciler_def Let_def)
qed

end
