(* ===== verification/Work_Queue.thy ===== *)
theory Work_Queue
  imports Digest
begin

text \<open>
  The sharded work queue at the end of \<^verbatim>\<open>reconciler.go\<close>. The operations come first as the
  source has them, one shard and one critical section at a time, and composed into
  \<^verbatim>\<open>Enqueue\<close>. Then the interleaving of concurrent callers of \<^verbatim>\<open>Enqueue\<close> with the workers of
  \<^verbatim>\<open>Run\<close> is a step relation whose steps are the atomic parts: a critical section under the
  shard's mutex, or one channel operation.
\<close>

section \<open>Definitions\<close>

record shard =
  sh_pending :: "string set"
  sh_ch :: "string list"
  sh_cap :: nat

record queue =
  q_shards :: "shard list"
  q_stride :: "32 word"

definition NewQueue :: "int \<Rightarrow> int \<Rightarrow> queue" where
  "NewQueue workers buffer =
     (let workers = (if workers < 1 then 1 else workers);
          buffer = (if buffer < 1 then 64 else buffer)
      in \<lparr>q_shards = replicate (nat workers) \<lparr>sh_pending = {}, sh_ch = [], sh_cap = nat buffer\<rparr>,
          q_stride = of_int workers\<rparr>)"

definition shardFor :: "queue \<Rightarrow> string \<Rightarrow> nat" where
  "shardFor q serviceID = unat (fnv32a serviceID mod q_stride q)"

text \<open>The first critical section of \<^verbatim>\<open>Enqueue\<close>; \<open>None\<close> is the early return for a duplicate.\<close>

definition mark :: "string \<Rightarrow> shard \<Rightarrow> shard option" where
  "mark i s = (if i \<in> sh_pending s then None else Some (s\<lparr>sh_pending := insert i (sh_pending s)\<rparr>))"

text \<open>The non-blocking send; \<open>None\<close> is the \<^verbatim>\<open>default\<close> branch of the select.\<close>

definition try_send :: "string \<Rightarrow> shard \<Rightarrow> shard option" where
  "try_send i s = (if length (sh_ch s) < sh_cap s then Some (s\<lparr>sh_ch := sh_ch s @ [i]\<rparr>) else None)"

text \<open>The critical section that takes a mark back, in \<^verbatim>\<open>Enqueue\<close> and in the worker.\<close>

definition unmark :: "string \<Rightarrow> shard \<Rightarrow> shard" where
  "unmark i s = s\<lparr>sh_pending := sh_pending s - {i}\<rparr>"

definition shard_Enqueue :: "string \<Rightarrow> shard \<Rightarrow> shard \<times> bool" where
  "shard_Enqueue i s =
     (case mark i s of
        None \<Rightarrow> (s, True)
      | Some s' \<Rightarrow>
          (case try_send i s' of
             Some s'' \<Rightarrow> (s'', True)
           | None \<Rightarrow> (unmark i s', False)))"

definition Enqueue :: "queue \<Rightarrow> string \<Rightarrow> queue \<times> bool" where
  "Enqueue q serviceID =
     (let k = shardFor q serviceID;
          (s, ok) = shard_Enqueue serviceID (q_shards q ! k)
      in (q\<lparr>q_shards := (q_shards q)[k := s]\<rparr>, ok))"

text \<open>One turn of a worker's loop: receive, take the mark back, and hand the ID to \<^verbatim>\<open>fn\<close>. \<open>None\<close>
  is a worker that waits on its empty channel.\<close>

definition worker_turn :: "shard \<Rightarrow> (string \<times> shard) option" where
  "worker_turn s =
     (case sh_ch s of
        [] \<Rightarrow> None
      | i # rest \<Rightarrow> Some (i, unmark i (s\<lparr>sh_ch := rest\<rparr>)))"

definition pendingCount :: "queue \<Rightarrow> nat" where
  "pendingCount q = (\<Sum>s \<leftarrow> q_shards q. card (sh_pending s))"

section \<open>Interleavings\<close>

text \<open>
  A worker waits, has received an ID but not taken its mark back yet, runs \<^verbatim>\<open>fn\<close>, or has left
  because the context was cancelled. The callers inside \<^verbatim>\<open>Enqueue\<close> are the IDs that are marked
  but not sent yet, and those whose send failed but whose mark was not taken back yet.
\<close>

datatype worker = Waiting | Received string | Running string | Left

record conf =
  cf_queue :: queue
  cf_workers :: "worker list"
  cf_sending :: "string list"
  cf_failed :: "string list"

definition shard_of :: "conf \<Rightarrow> string \<Rightarrow> shard" where
  "shard_of c i = q_shards (cf_queue c) ! shardFor (cf_queue c) i"

definition on_shard :: "nat \<Rightarrow> shard \<Rightarrow> conf \<Rightarrow> conf" where
  "on_shard k s c = c\<lparr>cf_queue := (cf_queue c)\<lparr>q_shards := (q_shards (cf_queue c))[k := s]\<rparr>\<rparr>"

datatype act_label =
    Returned string bool
  | Silent
  | Took nat string
  | Started nat string
  | Finished nat string
  | Quit nat

inductive qstep :: "conf \<Rightarrow> act_label \<Rightarrow> conf \<Rightarrow> bool" where
  enq_dup: "mark i (shard_of c i) = None \<Longrightarrow> qstep c (Returned i True) c"
| enq_mark: "mark i (shard_of c i) = Some s \<Longrightarrow>
    qstep c Silent (on_shard (shardFor (cf_queue c) i) s (c\<lparr>cf_sending := i # cf_sending c\<rparr>))"
| enq_sent: "i \<in> set (cf_sending c) \<Longrightarrow> try_send i (shard_of c i) = Some s \<Longrightarrow>
    qstep c (Returned i True)
      (on_shard (shardFor (cf_queue c) i) s (c\<lparr>cf_sending := remove1 i (cf_sending c)\<rparr>))"
| enq_full: "i \<in> set (cf_sending c) \<Longrightarrow> try_send i (shard_of c i) = None \<Longrightarrow>
    qstep c Silent (c\<lparr>cf_sending := remove1 i (cf_sending c), cf_failed := i # cf_failed c\<rparr>)"
| enq_drop: "i \<in> set (cf_failed c) \<Longrightarrow>
    qstep c (Returned i False)
      (on_shard (shardFor (cf_queue c) i) (unmark i (shard_of c i))
         (c\<lparr>cf_failed := remove1 i (cf_failed c)\<rparr>))"
| receive: "k < length (cf_workers c) \<Longrightarrow> cf_workers c ! k = Waiting \<Longrightarrow>
    sh_ch (q_shards (cf_queue c) ! k) = i # rest \<Longrightarrow>
    qstep c (Took k i) (on_shard k ((q_shards (cf_queue c) ! k)\<lparr>sh_ch := rest\<rparr>)
      (c\<lparr>cf_workers := (cf_workers c)[k := Received i]\<rparr>))"
| begin_work: "k < length (cf_workers c) \<Longrightarrow> cf_workers c ! k = Received i \<Longrightarrow>
    qstep c (Started k i) (on_shard k (unmark i (q_shards (cf_queue c) ! k))
      (c\<lparr>cf_workers := (cf_workers c)[k := Running i]\<rparr>))"
| end_work: "k < length (cf_workers c) \<Longrightarrow> cf_workers c ! k = Running i \<Longrightarrow>
    qstep c (Finished k i) (c\<lparr>cf_workers := (cf_workers c)[k := Waiting]\<rparr>)"
| leave: "k < length (cf_workers c) \<Longrightarrow> cf_workers c ! k = Waiting \<Longrightarrow>
    qstep c (Quit k) (c\<lparr>cf_workers := (cf_workers c)[k := Left]\<rparr>)"

inductive_cases qstep_TookE: "qstep c (Took k i) c'"
inductive_cases qstep_StartedE: "qstep c (Started k i) c'"
inductive_cases qstep_FinishedE: "qstep c (Finished k i) c'"
inductive_cases qstep_QuitE: "qstep c (Quit k) c'"

inductive qreach :: "int \<Rightarrow> int \<Rightarrow> conf \<Rightarrow> bool" for workers buffer where
  qstart: "qreach workers buffer
    \<lparr>cf_queue = NewQueue workers buffer,
     cf_workers = replicate (length (q_shards (NewQueue workers buffer))) Waiting,
     cf_sending = [], cf_failed = []\<rparr>"
| qmore: "qreach workers buffer c \<Longrightarrow> qstep c l c' \<Longrightarrow> qreach workers buffer c'"

section \<open>The invariant\<close>

text \<open>The IDs of one shard that are between the mark and its removal, with multiplicity: queued,
  held by a caller inside \<^verbatim>\<open>Enqueue\<close>, or received by the worker.\<close>

definition held_by :: "worker \<Rightarrow> string multiset" where
  "held_by w = (case w of Received i \<Rightarrow> {#i#} | _ \<Rightarrow> {#})"

definition in_flight :: "conf \<Rightarrow> nat \<Rightarrow> string multiset" where
  "in_flight c k =
     mset (sh_ch (q_shards (cf_queue c) ! k)) +
     filter_mset (\<lambda>i. shardFor (cf_queue c) i = k) (mset (cf_sending c) + mset (cf_failed c)) +
     held_by (cf_workers c ! k)"

definition home :: "queue \<Rightarrow> nat \<Rightarrow> string set" where
  "home q k = {i. shardFor q i = k}"

definition shard_inv :: "conf \<Rightarrow> nat \<Rightarrow> bool" where
  "shard_inv c k \<longleftrightarrow>
     (let s = q_shards (cf_queue c) ! k
      in finite (sh_pending s) \<and> in_flight c k = mset_set (sh_pending s) \<and>
         length (sh_ch s) \<le> sh_cap s \<and> sh_pending s \<subseteq> home (cf_queue c) k \<and>
         (\<forall>i. cf_workers c ! k = Running i \<longrightarrow> i \<in> home (cf_queue c) k))"

definition qinv :: "conf \<Rightarrow> bool" where
  "qinv c \<longleftrightarrow>
     length (cf_workers c) = length (q_shards (cf_queue c)) \<and>
     (\<forall>i. shardFor (cf_queue c) i < length (q_shards (cf_queue c))) \<and>
     (\<forall>k < length (q_shards (cf_queue c)). shard_inv c k)"

lemma shardFor_cong: "q_stride q = q_stride q' \<Longrightarrow> shardFor q = shardFor q'"
  by (simp add: shardFor_def fun_eq_iff)

lemma shardFor_shards [simp]: "shardFor (q\<lparr>q_shards := ss\<rparr>) = shardFor q"
  by (rule shardFor_cong) simp

lemma on_shard_simps [simp]:
  "shardFor (cf_queue (on_shard k s c)) = shardFor (cf_queue c)"
  "q_shards (cf_queue (on_shard k s c)) = (q_shards (cf_queue c))[k := s]"
  "cf_workers (on_shard k s c) = cf_workers c" "cf_sending (on_shard k s c) = cf_sending c"
  "cf_failed (on_shard k s c) = cf_failed c"
  by (auto simp: on_shard_def intro: shardFor_cong)

lemma home_simps [simp]:
  "home (cf_queue (on_shard k s c)) = home (cf_queue c)" "i \<in> home q (shardFor q i)"
  by (auto simp: home_def fun_eq_iff)

lemma held_by_simps [simp]:
  "held_by Waiting = {#}" "held_by (Received i) = {#i#}" "held_by (Running i) = {#}" "held_by Left = {#}"
  by (simp_all add: held_by_def)

lemma shardFor_range:
  assumes "1 \<le> workers" and "workers < 2 ^ 32"
  shows "shardFor (NewQueue workers buffer) i < nat workers"
proof -
  have u: "unat (of_int workers :: 32 word) = nat workers"
    using assms by (simp add: unat_eq_nat_uint uint_word_of_int_eq take_bit_int_eq_self)
  have "fnv32a i mod of_int workers < (of_int workers :: 32 word)"
    using assms u by (intro word_mod_less_divisor) (simp add: word_less_nat_alt)
  then show ?thesis using assms u by (simp add: shardFor_def NewQueue_def word_less_nat_alt)
qed

lemma qinv_start:
  assumes "workers < 2 ^ 32"
  shows "qinv \<lparr>cf_queue = NewQueue workers buffer,
     cf_workers = replicate (length (q_shards (NewQueue workers buffer))) Waiting, cf_sending = [], cf_failed = []\<rparr>"
proof -
  have n: "q_shards (NewQueue workers buffer) =
      replicate (nat (max 1 workers)) \<lparr>sh_pending = {}, sh_ch = [], sh_cap = nat (if buffer < 1 then 64 else buffer)\<rparr>"
    by (simp add: NewQueue_def Let_def max_def)
  have "NewQueue workers buffer = NewQueue (max 1 workers) buffer"
    by (simp add: NewQueue_def max_def Let_def)
  then have "shardFor (NewQueue workers buffer) i < nat (max 1 workers)" for i
    using shardFor_range [of "max 1 workers" buffer i] assms by simp
  then show ?thesis by (simp add: qinv_def shard_inv_def in_flight_def n)
qed

text \<open>One step leaves the other shards alone.\<close>

lemma filter_diff_other:
  "\<not> P i \<Longrightarrow> filter_mset P (M - {#i#}) = filter_mset P M"
  by (simp add: filter_diff_mset)

lemma filter_diff_same:
  "P i \<Longrightarrow> i \<in># M \<Longrightarrow> add_mset i (filter_mset P (M - {#i#})) = filter_mset P M"
  by (simp add: filter_diff_mset insert_DiffM)

lemma mset_set_unmark: "finite A \<Longrightarrow> add_mset i M = mset_set A \<Longrightarrow> M = mset_set (A - {i})"
  by (metis add_mset_remove_trivial elem_mset_set mset_set.remove union_single_eq_member)

lemma in_flight_pending: "shard_inv c k \<Longrightarrow> i \<in># in_flight c k \<Longrightarrow> i \<in> sh_pending (q_shards (cf_queue c) ! k)"
  by (auto simp: shard_inv_def Let_def)

text \<open>What each step does to the invariant of one shard \<open>k\<close>.\<close>

lemma shard_inv_marked:
  assumes "mark i (shard_of c i) = Some s" and "k < length (q_shards (cf_queue c))" and "shard_inv c k"
  shows "shard_inv (on_shard (shardFor (cf_queue c) i) s (c\<lparr>cf_sending := i # cf_sending c\<rparr>)) k"
proof -
  let ?k = "shardFor (cf_queue c) i"
  let ?c = "on_shard ?k s (c\<lparr>cf_sending := i # cf_sending c\<rparr>)"
  have s: "s = (shard_of c i)\<lparr>sh_pending := insert i (sh_pending (shard_of c i))\<rparr>" "i \<notin> sh_pending (shard_of c i)"
    using assms(1) by (auto simp: mark_def split: if_splits)
  have "in_flight ?c k = (if k = ?k then add_mset i (in_flight c k) else in_flight c k)"
    using assms(2) s(1) by (simp add: in_flight_def shard_of_def nth_list_update)
  with assms(2,3) s show ?thesis by (cases "k = ?k") (simp_all add: shard_inv_def Let_def shard_of_def)
qed

lemma shard_inv_sent:
  assumes "i \<in> set (cf_sending c)" and "try_send i (shard_of c i) = Some s"
    and "k < length (q_shards (cf_queue c))" and "shard_inv c k"
  shows "shard_inv (on_shard (shardFor (cf_queue c) i) s (c\<lparr>cf_sending := remove1 i (cf_sending c)\<rparr>)) k"
proof -
  let ?k = "shardFor (cf_queue c) i"
  have "s = (shard_of c i)\<lparr>sh_ch := sh_ch (shard_of c i) @ [i]\<rparr>" "length (sh_ch (shard_of c i)) < sh_cap (shard_of c i)"
    using assms(2) by (auto simp: try_send_def split: if_splits)
  then show ?thesis
    using assms filter_diff_same [of "\<lambda>j. shardFor (cf_queue c) j = ?k" i "mset (cf_sending c)"]
    by (cases "k = ?k") (auto simp: shard_inv_def Let_def in_flight_def shard_of_def filter_diff_other)
qed

lemma shard_inv_full:
  assumes "i \<in> set (cf_sending c)" and "shard_inv c k"
  shows "shard_inv (c\<lparr>cf_sending := remove1 i (cf_sending c), cf_failed := i # cf_failed c\<rparr>) k"
  using assms filter_diff_same [of "\<lambda>j. shardFor (cf_queue c) j = k" i "mset (cf_sending c)"]
  by (cases "shardFor (cf_queue c) i = k") (auto simp: shard_inv_def Let_def in_flight_def filter_diff_other)

lemma shard_inv_dropped:
  assumes "i \<in> set (cf_failed c)" and "k < length (q_shards (cf_queue c))" and "shard_inv c k"
  shows "shard_inv (on_shard (shardFor (cf_queue c) i) (unmark i (shard_of c i))
    (c\<lparr>cf_failed := remove1 i (cf_failed c)\<rparr>)) k" (is "shard_inv ?c k")
proof (cases "k = shardFor (cf_queue c) i")
  case True
  have "add_mset i (in_flight ?c k) = in_flight c k"
    using True assms filter_diff_same [of "\<lambda>j. shardFor (cf_queue c) j = k" i "mset (cf_failed c)"]
    by (auto simp: in_flight_def unmark_def shard_of_def)
  then have "in_flight ?c k = mset_set (sh_pending (q_shards (cf_queue c) ! k) - {i})"
    using assms(3) by (intro mset_set_unmark) (simp_all add: shard_inv_def Let_def)
  with True assms(2,3) show ?thesis by (auto simp: shard_inv_def Let_def unmark_def shard_of_def)
next
  case False
  with assms show ?thesis by (auto simp: shard_inv_def Let_def in_flight_def filter_diff_other)
qed

lemma shard_inv_received:
  assumes "k < length (cf_workers c)" and "cf_workers c ! k = Waiting"
    and "sh_ch (q_shards (cf_queue c) ! k) = i # rest" and "j < length (q_shards (cf_queue c))" and "shard_inv c j"
  shows "shard_inv (on_shard k ((q_shards (cf_queue c) ! k)\<lparr>sh_ch := rest\<rparr>)
    (c\<lparr>cf_workers := (cf_workers c)[k := Received i]\<rparr>)) j"
  using assms by (cases "j = k") (auto simp: shard_inv_def Let_def in_flight_def)

lemma shard_inv_begun:
  assumes "k < length (cf_workers c)" and "cf_workers c ! k = Received i"
    and "j < length (q_shards (cf_queue c))" and "shard_inv c j"
  shows "shard_inv (on_shard k (unmark i (q_shards (cf_queue c) ! k))
    (c\<lparr>cf_workers := (cf_workers c)[k := Running i]\<rparr>)) j" (is "shard_inv ?c j")
proof (cases "j = k")
  case True
  have fl: "add_mset i (in_flight ?c k) = in_flight c k"
    using True assms by (simp add: in_flight_def unmark_def)
  then have "i \<in> sh_pending (q_shards (cf_queue c) ! k)"
    using in_flight_pending assms(4) True by (metis union_single_eq_member)
  moreover have "in_flight ?c k = mset_set (sh_pending (q_shards (cf_queue c) ! k) - {i})"
    using fl True assms(4) by (intro mset_set_unmark) (simp_all add: shard_inv_def Let_def)
  ultimately show ?thesis using True assms by (auto simp: shard_inv_def Let_def unmark_def)
next
  case False
  with assms show ?thesis by (auto simp: shard_inv_def Let_def in_flight_def)
qed

lemma shard_inv_idle:
  assumes "k < length (cf_workers c)" and "held_by (cf_workers c ! k) = {#}" and "w = Waiting \<or> w = Left"
    and "shard_inv c j"
  shows "shard_inv (c\<lparr>cf_workers := (cf_workers c)[k := w]\<rparr>) j"
  using assms by (cases "j = k") (auto simp: shard_inv_def Let_def in_flight_def)

lemmas shard_inv_steps =
  shard_inv_marked shard_inv_sent shard_inv_full shard_inv_dropped shard_inv_received shard_inv_begun shard_inv_idle

lemma qinv_step: "qstep c l c' \<Longrightarrow> qinv c \<Longrightarrow> qinv c'"
  by (induction rule: qstep.induct) (simp_all add: qinv_def shard_inv_steps)

lemma qreach_inv: "qreach workers buffer c \<Longrightarrow> workers < 2 ^ 32 \<Longrightarrow> qinv c"
  by (induction rule: qreach.induct) (auto intro: qinv_start qinv_step)

lemma qinv_shard: "qinv c \<Longrightarrow> k < length (q_shards (cf_queue c)) \<Longrightarrow> shard_inv c k"
  by (simp add: qinv_def)

lemma in_flight_Un:
  "set_mset (in_flight c k) = set (sh_ch (q_shards (cf_queue c) ! k)) \<union>
     ((set (cf_sending c) \<union> set (cf_failed c)) \<inter> home (cf_queue c) k) \<union> set_mset (held_by (cf_workers c ! k))"
  by (auto simp: in_flight_def home_def)

lemma distinct_subset_mset_set: "mset xs \<subseteq># mset_set A \<Longrightarrow> distinct xs"
proof -
  assume "mset xs \<subseteq># mset_set A"
  then have "count (mset xs) x \<le> count (mset_set A) x" for x by (rule mset_subset_eq_count)
  then have "count (mset xs) x \<le> 1" for x by (metis count_mset_set' le_trans le_numeral_extra(4) zero_le_one)
  then have "count (mset xs) x = (if x \<in> set xs then 1 else 0)" for x
    by (simp add: le_antisym count_mset_0_iff Suc_leI)
  then show ?thesis by (simp add: distinct_count_atmost_1)
qed

lemma unmark_mark: "mark i s = Some s' \<Longrightarrow> unmark i s' = s"
  by (auto simp: mark_def unmark_def split: if_splits)

section \<open>An example\<close>

text \<open>One worker; \<open>demo_conf\<close> has one ID in the given stages.\<close>

definition demo_conf :: "string set \<Rightarrow> string list \<Rightarrow> worker \<Rightarrow> string list \<Rightarrow> conf" where
  "demo_conf pend ch w sending =
     \<lparr>cf_queue = \<lparr>q_shards = [\<lparr>sh_pending = pend, sh_ch = ch, sh_cap = 64\<rparr>], q_stride = 1\<rparr>,
      cf_workers = [w], cf_sending = sending, cf_failed = []\<rparr>"

lemma demo_shardFor [simp]: "shardFor (cf_queue (demo_conf p ch w sn)) i = 0"
  by (simp add: shardFor_def demo_conf_def)

lemma demo_on_shard [simp]:
  "on_shard 0 s (demo_conf p ch w sn) = demo_conf (sh_pending s) (sh_ch s) w sn" if "sh_cap s = 64"
  using that by (simp add: on_shard_def demo_conf_def)

lemma demo_upd [simp]:
  "(demo_conf p ch w sn)\<lparr>cf_sending := sn'\<rparr> = demo_conf p ch w sn'"
  "(demo_conf p ch w sn)\<lparr>cf_workers := [w']\<rparr> = demo_conf p ch w' sn"
  "q_shards (cf_queue (demo_conf p ch w sn)) = [\<lparr>sh_pending = p, sh_ch = ch, sh_cap = 64\<rparr>]"
  "cf_workers (demo_conf p ch w sn) = [w]" "cf_sending (demo_conf p ch w sn) = sn"
  by (simp_all add: demo_conf_def)

lemma demo_start_conf: "qreach 1 64 (demo_conf {} [] Waiting [])"
  using qstart [of 1 64] by (simp add: demo_conf_def NewQueue_def)

lemma demo_marked: "qreach 1 64 (demo_conf {''app1''} [] Waiting [''app1''])"
  using qmore [OF demo_start_conf enq_mark [of "''app1''" _ "\<lparr>sh_pending = {''app1''}, sh_ch = [], sh_cap = 64\<rparr>"]]
  by (simp add: mark_def shard_of_def)

lemma demo_queued: "qreach 1 64 (demo_conf {''app1''} [''app1''] Waiting [])"
  using qmore [OF demo_marked enq_sent [of "''app1''" _ "\<lparr>sh_pending = {''app1''}, sh_ch = [''app1''], sh_cap = 64\<rparr>"]]
  by (simp add: try_send_def shard_of_def)

lemma demo_receive: "qstep (demo_conf {''app1''} [''app1''] Waiting []) (Took 0 ''app1'') (demo_conf {''app1''} [] (Received ''app1'') [])"
  using qstep.receive [of 0 "demo_conf {''app1''} [''app1''] Waiting []" "''app1''" "[]"] by simp

lemma demo_running: "qreach 1 64 (demo_conf {} [] (Running ''app1'') [])"
  using qmore [OF qmore [OF demo_queued demo_receive] begin_work [of 0 _ "''app1''"]]
  by (simp add: unmark_def)

section \<open>Properties\<close>

text \<open>
  C7: the queue invariant, under every interleaving of callers and workers. In each shard the
  pending marks are exactly the IDs that are queued, in a caller's hands or received by the
  worker, each of them once; so an ID is queued at most once, and a mark never outlives the
  work it stands for. The channel never exceeds its buffer.
\<close>

theorem queue_marks_exact:
  assumes "qreach workers buffer c" and "workers < 2 ^ 32" and "k < length (q_shards (cf_queue c))"
  shows "in_flight c k = mset_set (sh_pending (q_shards (cf_queue c) ! k)) \<and>
    distinct (sh_ch (q_shards (cf_queue c) ! k)) \<and>
    length (sh_ch (q_shards (cf_queue c) ! k)) \<le> sh_cap (q_shards (cf_queue c) ! k)"
proof -
  have inv: "shard_inv c k" using qreach_inv [OF assms(1,2)] assms(3) by (rule qinv_shard)
  then have fl: "in_flight c k = mset_set (sh_pending (q_shards (cf_queue c) ! k))"
    by (simp add: shard_inv_def Let_def)
  have "mset (sh_ch (q_shards (cf_queue c) ! k)) \<subseteq># in_flight c k"
    by (simp add: in_flight_def)
  then have "distinct (sh_ch (q_shards (cf_queue c) ! k))"
    unfolding fl by (rule distinct_subset_mset_set)
  with fl inv show ?thesis by (simp add: shard_inv_def Let_def)
qed

theorem queue_marks_exact_witness:
  "in_flight (demo_conf {''app1''} [''app1''] Waiting []) 0 = mset_set {''app1''}"
  using queue_marks_exact [OF demo_queued, of 0] by simp

text \<open>
  C11: one service is never reconciled by two workers at the same time.
\<close>

theorem one_worker_per_service:
  assumes "qreach workers buffer c" and "workers < 2 ^ 32"
    and "j < length (cf_workers c)" and "k < length (cf_workers c)"
    and "cf_workers c ! j = Running i" and "cf_workers c ! k = Running i"
  shows "j = k"
proof -
  have inv: "qinv c" using qreach_inv [OF assms(1,2)] .
  then have "shard_inv c j" "shard_inv c k" using assms(3,4) by (simp_all add: qinv_def)
  with assms(5,6) have "shardFor (cf_queue c) i = j" "shardFor (cf_queue c) i = k"
    by (simp_all add: shard_inv_def Let_def home_def)
  then show ?thesis by simp
qed

theorem one_worker_per_service_witness:
  "cf_workers (demo_conf {} [] (Running ''app1'') []) ! 0 = Running ''app1'' \<and> (0::nat) = 0"
proof -
  have at: "cf_workers (demo_conf {} [] (Running ''app1'') []) ! 0 = Running ''app1''"
    and len: "0 < length (cf_workers (demo_conf {} [] (Running ''app1'') []))" by simp_all
  have "(0::nat) = 0" by (rule one_worker_per_service [OF demo_running _ len len at at]) simp
  with at show ?thesis by simp
qed

text \<open>
  Accepted work is not lost. A marked ID that no caller is still holding is in the
  channel or received by the worker; a queued ID only moves towards the head until the
  worker receives it, and a received ID stays received until the worker starts on it. The
  mark is taken back before the work starts, so an event that arrives meanwhile queues the
  ID again.
\<close>

theorem queued_work_not_lost:
  assumes "qreach workers buffer c" and "workers < 2 ^ 32" and "k < length (q_shards (cf_queue c))"
    and "qstep c l c'"
  shows "(i \<in> sh_pending (q_shards (cf_queue c) ! k) \<and> i \<notin> set (cf_sending c) \<union> set (cf_failed c) \<longrightarrow>
      i \<in> set (sh_ch (q_shards (cf_queue c) ! k)) \<or> cf_workers c ! k = Received i) \<and>
    (sh_ch (q_shards (cf_queue c) ! k) = xs @ i # ys \<longrightarrow>
      (\<exists>zs. sh_ch (q_shards (cf_queue c') ! k) = xs @ i # ys @ zs) \<or>
      (\<exists>x xs'. xs = x # xs' \<and> sh_ch (q_shards (cf_queue c') ! k) = xs' @ i # ys) \<or>
      (xs = [] \<and> cf_workers c' ! k = Received i)) \<and>
    (cf_workers c ! k = Received i \<longrightarrow> cf_workers c' ! k = Received i \<or> l = Started k i)"
proof -
  have inv: "qinv c" using qreach_inv [OF assms(1,2)] .
  then have "shard_inv c k" using assms(3) by (rule qinv_shard)
  then have "sh_pending (q_shards (cf_queue c) ! k) = set_mset (in_flight c k)"
    by (simp add: shard_inv_def Let_def)
  then have 1: "i \<in> sh_pending (q_shards (cf_queue c) ! k) \<and> i \<notin> set (cf_sending c) \<union> set (cf_failed c) \<longrightarrow>
      i \<in> set (sh_ch (q_shards (cf_queue c) ! k)) \<or> cf_workers c ! k = Received i"
    by (auto simp: in_flight_Un held_by_def split: worker.splits)
  have 2: "sh_ch (q_shards (cf_queue c) ! k) = xs @ i # ys \<longrightarrow>
      (\<exists>zs. sh_ch (q_shards (cf_queue c') ! k) = xs @ i # ys @ zs) \<or>
      (\<exists>x xs'. xs = x # xs' \<and> sh_ch (q_shards (cf_queue c') ! k) = xs' @ i # ys) \<or>
      (xs = [] \<and> cf_workers c' ! k = Received i)"
    using assms(4)
  proof (cases rule: qstep.cases)
    case (receive k' i' rest)
    with assms(3) inv show ?thesis by (cases "k' = k"; cases xs) (auto simp: qinv_def)
  qed (use assms(3) inv in \<open>auto simp: nth_list_update shard_of_def mark_def try_send_def unmark_def qinv_def
        split: if_splits\<close>)
  have 3: "cf_workers c ! k = Received i \<longrightarrow> cf_workers c' ! k = Received i \<or> l = Started k i"
    using assms(4) by (cases rule: qstep.cases) (auto simp: nth_list_update)
  from 1 2 3 show ?thesis by blast
qed

theorem queued_work_not_lost_witness:
  "cf_workers (demo_conf {''app1''} [] (Received ''app1'') []) ! 0 = Received ''app1''"
  using queued_work_not_lost [OF demo_queued _ _ demo_receive, of 0 "''app1''" "[]" "[]"] by simp

text \<open>
  What a call of \<^verbatim>\<open>Enqueue\<close> that runs undisturbed does. It refuses an ID exactly when the
  ID is not pending and its shard's channel is full, and then leaves the queue as it found
  it, so the ID can be offered again; otherwise the ID is pending afterwards. Shards other
  than the ID's own are not touched, and the shard index is always in range.
\<close>

theorem Enqueue_spec:
  assumes "1 \<le> workers" and "workers < 2 ^ 32" and "q_stride q = of_int workers" and "length (q_shards q) = nat workers"
  shows "case Enqueue q i of (q', ok) \<Rightarrow>
    shardFor q i < length (q_shards q) \<and>
    (let s = q_shards q ! shardFor q i; s' = q_shards q' ! shardFor q i
     in (\<not> ok \<longleftrightarrow> i \<notin> sh_pending s \<and> sh_cap s \<le> length (sh_ch s)) \<and> (\<not> ok \<longrightarrow> q' = q) \<and>
        (ok \<longrightarrow> sh_pending s' = insert i (sh_pending s) \<and>
           sh_ch s' = (if i \<in> sh_pending s then sh_ch s else sh_ch s @ [i]))) \<and>
    (\<forall>k. k \<noteq> shardFor q i \<longrightarrow> q_shards q' ! k = q_shards q ! k)"
proof -
  have "shardFor q i = shardFor (NewQueue workers 1) i"
    using assms(1,3) by (simp add: shardFor_def NewQueue_def)
  then have k: "shardFor q i < length (q_shards q)"
    using shardFor_range [OF assms(1,2), of 1 i] assms(4) by simp
  then show ?thesis
    by (auto simp: Enqueue_def shard_Enqueue_def mark_def try_send_def unmark_def Let_def insert_absorb
        split: if_splits)
qed

theorem Enqueue_spec_witness:
  "shardFor (NewQueue 4 8) ''app1'' < 4 \<and> snd (Enqueue (NewQueue 4 8) ''app1'')"
proof -
  have "q_stride (NewQueue 4 8) = of_int 4" "length (q_shards (NewQueue 4 8)) = nat 4"
    by (simp_all add: NewQueue_def)
  note spec = Enqueue_spec [OF _ _ this, of "''app1''"]
  obtain q' ok where E: "Enqueue (NewQueue 4 8) ''app1'' = (q', ok)" by fastforce
  have k: "shardFor (NewQueue 4 8) ''app1'' < 4"
    using spec E \<open>length (q_shards (NewQueue 4 8)) = nat 4\<close> by simp
  then have "q_shards (NewQueue 4 8) ! shardFor (NewQueue 4 8) ''app1'' = \<lparr>sh_pending = {}, sh_ch = [], sh_cap = 8\<rparr>"
    by (simp add: NewQueue_def)
  with spec E have ok by (simp add: Let_def)
  with k E show ?thesis by simp
qed

text \<open>
  The atomic parts compose to \<^verbatim>\<open>Enqueue\<close>: run one after the other without another step in
  between, the steps of a caller take the queue to what \<^verbatim>\<open>Enqueue\<close> returns.
\<close>

theorem Enqueue_is_run_of_steps:
  assumes "shardFor (cf_queue c) i < length (q_shards (cf_queue c))"
  shows "(\<lambda>a b. \<exists>l. qstep a l b)\<^sup>*\<^sup>* c (c\<lparr>cf_queue := fst (Enqueue (cf_queue c) i)\<rparr>)"
proof -
  let ?R = "\<lambda>a b. \<exists>l. qstep a l b" and ?k = "shardFor (cf_queue c) i"
  let ?fin = "c\<lparr>cf_queue := fst (Enqueue (cf_queue c) i)\<rparr>"
  show ?thesis
  proof (cases "mark i (shard_of c i)")
    case None
    then have "?fin = c"
      by (simp add: Enqueue_def shard_Enqueue_def shard_of_def Let_def)
    then show ?thesis by simp
  next
    case (Some s)
    let ?c1 = "on_shard ?k s (c\<lparr>cf_sending := i # cf_sending c\<rparr>)"
    have "?R c ?c1" using enq_mark [OF Some] by blast
    moreover have s1: "shard_of ?c1 i = s" "i \<in> set (cf_sending ?c1)"
      using assms by (simp_all add: shard_of_def)
    moreover have "?R\<^sup>*\<^sup>* ?c1 ?fin"
    proof (cases "try_send i s")
      case sent: (Some s2)
      have "?R ?c1 (on_shard ?k s2 (?c1\<lparr>cf_sending := remove1 i (cf_sending ?c1)\<rparr>))"
        using enq_sent [of i ?c1 s2] s1 sent by auto
      moreover have "on_shard ?k s2 (?c1\<lparr>cf_sending := remove1 i (cf_sending ?c1)\<rparr>) = ?fin"
        using Some sent by (simp add: on_shard_def Enqueue_def shard_Enqueue_def shard_of_def Let_def)
      ultimately show ?thesis by (simp add: r_into_rtranclp)
    next
      case None
      let ?c2 = "?c1\<lparr>cf_sending := remove1 i (cf_sending ?c1), cf_failed := i # cf_failed ?c1\<rparr>"
      let ?c3 = "on_shard ?k (unmark i (shard_of ?c2 i)) (?c2\<lparr>cf_failed := remove1 i (cf_failed ?c2)\<rparr>)"
      have "?R ?c1 ?c2" using enq_full [of i ?c1] s1 None by auto
      moreover have "?R ?c2 ?c3" using enq_drop [of i ?c2] by auto
      moreover have "?c3 = ?fin"
        using Some None assms by (simp add: on_shard_def Enqueue_def shard_Enqueue_def shard_of_def Let_def)
      ultimately show ?thesis by (simp add: converse_rtranclp_into_rtranclp)
    qed
    ultimately show ?thesis by (simp add: converse_rtranclp_into_rtranclp)
  qed
qed

theorem Enqueue_is_run_of_steps_witness:
  "(\<lambda>a b. \<exists>l. qstep a l b)\<^sup>*\<^sup>* (demo_conf {} [] Waiting []) (demo_conf {''app1''} [''app1''] Waiting [])"
proof -
  have "(demo_conf {} [] Waiting [])\<lparr>cf_queue := fst (Enqueue (cf_queue (demo_conf {} [] Waiting [])) ''app1'')\<rparr> =
      demo_conf {''app1''} [''app1''] Waiting []"
    by (simp add: Enqueue_def shard_Enqueue_def mark_def try_send_def Let_def) (simp add: demo_conf_def)
  with Enqueue_is_run_of_steps [of "demo_conf {} [] Waiting []" "''app1''"] show ?thesis by simp
qed

end
