(* ===== verification/Queue_Drain.thy ===== *)
theory Queue_Drain
  imports Work_Queue
begin

text \<open>
  Left to themselves, the workers of \<^verbatim>\<open>Queue.Run\<close> empty the queue: runs that consist of worker
  steps only are finite, of a length known in advance, hand the IDs of every shard to \<^verbatim>\<open>fn\<close> in
  the order they were queued, and stop only when nothing is left to do. Once the context is
  cancelled the workers leave, and \<^verbatim>\<open>Run\<close> returns.
\<close>

section \<open>Runs of the workers\<close>

fun of_worker :: "act_label \<Rightarrow> bool" where
  "of_worker (Took k i) = True"
| "of_worker (Started k i) = True"
| "of_worker (Finished k i) = True"
| "of_worker _ = False"

inductive drains :: "conf \<Rightarrow> act_label list \<Rightarrow> conf \<Rightarrow> bool" where
  drained: "drains c [] c"
| drain: "qstep c l c' \<Longrightarrow> of_worker l \<Longrightarrow> drains c' ls c'' \<Longrightarrow> drains c (l # ls) c''"

text \<open>The steps one worker still has to make for the ID in its hands.\<close>

fun worker_steps :: "worker \<Rightarrow> nat" where
  "worker_steps (Received i) = 2"
| "worker_steps (Running i) = 1"
| "worker_steps _ = 0"

text \<open>Three steps for every queued ID, and those for the IDs in the workers' hands.\<close>

definition work_left :: "conf \<Rightarrow> nat" where
  "work_left c = (\<Sum>s \<leftarrow> q_shards (cf_queue c). 3 * length (sh_ch s)) + (\<Sum>w \<leftarrow> cf_workers c. worker_steps w)"

text \<open>The IDs that wait for worker \<open>k\<close> to start on them, next first; the IDs it starts on in a run.\<close>

definition waiting_for :: "conf \<Rightarrow> nat \<Rightarrow> string list" where
  "waiting_for c k =
     (case cf_workers c ! k of Received i \<Rightarrow> [i] | _ \<Rightarrow> []) @ sh_ch (q_shards (cf_queue c) ! k)"

fun started :: "nat \<Rightarrow> act_label list \<Rightarrow> string list" where
  "started k [] = []"
| "started k (Started j i # ls) = (if j = k then i # started k ls else started k ls)"
| "started k (_ # ls) = started k ls"

definition idle :: "conf \<Rightarrow> nat \<Rightarrow> bool" where
  "idle c k \<longleftrightarrow> cf_workers c ! k = Waiting \<and> sh_ch (q_shards (cf_queue c) ! k) = []"

definition at_rest :: "conf \<Rightarrow> bool" where
  "at_rest c \<longleftrightarrow> (\<forall>s \<in> set (q_shards (cf_queue c)). sh_ch s = []) \<and> (\<forall>w \<in> set (cf_workers c). w = Waiting)"

section \<open>The measure\<close>

lemma sum_list_update_nat:
  fixes f :: "'a \<Rightarrow> nat"
  assumes "k < length xs"
  shows "(\<Sum>x \<leftarrow> xs[k := y]. f x) + f (xs ! k) = (\<Sum>x \<leftarrow> xs. f x) + f y"
  using assms by (induction xs arbitrary: k) (auto split: nat.splits)

lemma worker_step_measure:
  assumes "qstep c l c'" and "of_worker l" and "qinv c"
  shows "Suc (work_left c') = work_left c"
  using assms
proof (cases rule: qstep.cases)
  case (receive k i rest)
  then show ?thesis
    using assms(3)
      sum_list_update_nat [of k "q_shards (cf_queue c)" "\<lambda>s. 3 * length (sh_ch s)" "(q_shards (cf_queue c) ! k)\<lparr>sh_ch := rest\<rparr>"]
      sum_list_update_nat [of k "cf_workers c" worker_steps "Received i"]
    by (simp add: work_left_def qinv_def)
next
  case (begin_work k i)
  then show ?thesis
    using assms(3)
      sum_list_update_nat [of k "q_shards (cf_queue c)" "\<lambda>s. 3 * length (sh_ch s)" "unmark i (q_shards (cf_queue c) ! k)"]
      sum_list_update_nat [of k "cf_workers c" worker_steps "Running i"]
    by (simp add: work_left_def qinv_def unmark_def)
next
  case (end_work k i)
  then show ?thesis
    using sum_list_update_nat [of k "cf_workers c" worker_steps Waiting] by (simp add: work_left_def)
qed auto

lemma worker_step_order:
  assumes "qstep c l c'" and "of_worker l" and "qinv c" and "k < length (q_shards (cf_queue c))"
  shows "started k [l] @ waiting_for c' k = waiting_for c k"
  using assms
  by (cases rule: qstep.cases) (auto simp: waiting_for_def nth_list_update unmark_def qinv_def)

lemma worker_step_stays:
  assumes "qstep c l c'" and "of_worker l"
  shows "length (q_shards (cf_queue c')) = length (q_shards (cf_queue c))"
    and "Left \<notin> set (cf_workers c) \<Longrightarrow> Left \<notin> set (cf_workers c')"
  using assms by (cases rule: qstep.cases; force dest!: set_update_subset_insert [THEN subsetD])+

lemma started_Cons: "started k (l # ls) = started k [l] @ started k ls"
  by (cases l) auto

lemma drains_inv: "drains c ls c' \<Longrightarrow> qinv c \<Longrightarrow> qinv c'"
  by (induction rule: drains.induct) (auto intro: qinv_step)

lemma drains_stays:
  "drains c ls c' \<Longrightarrow> Left \<notin> set (cf_workers c) \<Longrightarrow> Left \<notin> set (cf_workers c')"
  by (induction rule: drains.induct) (auto dest: worker_step_stays)

lemma drains_measure: "drains c ls c' \<Longrightarrow> qinv c \<Longrightarrow> length ls + work_left c' = work_left c"
  by (induction rule: drains.induct) (simp_all add: qinv_step worker_step_measure [symmetric])

lemma drains_order:
  "drains c ls c' \<Longrightarrow> qinv c \<Longrightarrow> k < length (q_shards (cf_queue c)) \<Longrightarrow>
     started k ls @ waiting_for c' k = waiting_for c k"
proof (induction rule: drains.induct)
  case (drain c l c' ls c'')
  then show ?case
    using worker_step_order [of c l c' k] worker_step_stays(1) [of c l c'] qinv_step [of c l c']
    by (simp add: started_Cons [of k l ls])
qed simp

text \<open>A worker that is not idle, or whose channel is not empty, can make a step.\<close>

lemma worker_can_step:
  assumes "k < length (cf_workers c)" and "cf_workers c ! k \<noteq> Left" and "\<not> idle c k"
  shows "\<exists>i l c'. qstep c l c' \<and> l \<in> {Took k i, Started k i, Finished k i}"
proof (cases "cf_workers c ! k")
  case Waiting
  then obtain i rest where "sh_ch (q_shards (cf_queue c) ! k) = i # rest"
    using assms(3) by (cases "sh_ch (q_shards (cf_queue c) ! k)") (auto simp: idle_def)
  with assms(1) Waiting show ?thesis using qstep.receive by blast
next
  case (Received i)
  with assms(1) show ?thesis using begin_work by blast
next
  case (Running i)
  with assms(1) show ?thesis using end_work by blast
qed (use assms(2) in simp)

lemma busy_can_step:
  assumes "qinv c" and "Left \<notin> set (cf_workers c)" and "\<not> at_rest c"
  shows "\<exists>l c'. qstep c l c' \<and> of_worker l"
proof -
  have len: "length (cf_workers c) = length (q_shards (cf_queue c))" using assms(1) by (simp add: qinv_def)
  obtain k where k: "k < length (cf_workers c)" and busy: "\<not> idle c k"
    using assms(3) len by (fastforce simp: at_rest_def idle_def in_set_conv_nth)
  have "cf_workers c ! k \<noteq> Left" using assms(2) k by (metis nth_mem)
  from worker_can_step [OF k this busy] show ?thesis by fastforce
qed

lemma at_rest_work_left: "at_rest c \<Longrightarrow> work_left c = 0"
  by (auto simp: at_rest_def work_left_def)

lemma drains_to_rest:
  assumes "qinv c" and "Left \<notin> set (cf_workers c)"
  shows "\<exists>ls c'. drains c ls c' \<and> at_rest c'"
  using assms
proof (induction "work_left c" arbitrary: c)
  case 0
  have "at_rest c"
  proof (rule ccontr)
    assume "\<not> at_rest c"
    with 0 obtain l c' where "qstep c l c'" "of_worker l" using busy_can_step by blast
    with 0 worker_step_measure [of c l c'] show False by simp
  qed
  then show ?case using drained by blast
next
  case (Suc n)
  then have "\<not> at_rest c" using at_rest_work_left by fastforce
  with Suc obtain l c' where s: "qstep c l c'" "of_worker l" using busy_can_step by blast
  then have "n = work_left c'" "qinv c'" "Left \<notin> set (cf_workers c')"
    using Suc worker_step_measure [of c l c'] qinv_step worker_step_stays(2) by auto
  from Suc.hyps(1) [OF this] s drain show ?case by blast
qed

section \<open>After a cancellation\<close>

text \<open>
  The context is cancelled: a worker that waits may leave, or take one more ID, since \<^verbatim>\<open>select\<close> picks
  either. \<^verbatim>\<open>Run\<close> returns once all workers have left; what is still queued then stays there.
\<close>

inductive winds_down :: "conf \<Rightarrow> act_label list \<Rightarrow> conf \<Rightarrow> bool" where
  wound: "winds_down c [] c"
| wind: "qstep c l c' \<Longrightarrow> of_worker l \<or> l = Quit k \<Longrightarrow> winds_down c' ls c'' \<Longrightarrow> winds_down c (l # ls) c''"

definition all_left :: "conf \<Rightarrow> bool" where
  "all_left c \<longleftrightarrow> (\<forall>w \<in> set (cf_workers c). w = Left)"

definition exit_left :: "conf \<Rightarrow> nat" where
  "exit_left c = work_left c + (\<Sum>w \<leftarrow> cf_workers c. if w = Left then 0 else 1)"

lemma worker_step_exit:
  assumes "qstep c l c'" and "of_worker l \<or> l = Quit j" and "qinv c"
  shows "Suc (exit_left c') = exit_left c"
  using assms(1)
proof (cases rule: qstep.cases)
  case (leave k)
  then show ?thesis
    using sum_list_update_nat [of k "cf_workers c" worker_steps Left]
      sum_list_update_nat [of k "cf_workers c" "\<lambda>w. if w = Left then 0 else 1" Left]
    by (simp add: exit_left_def work_left_def)
next
  case (receive k i rest)
  then show ?thesis
    using worker_step_measure [OF assms(1) _ assms(3)]
      sum_list_update_nat [of k "cf_workers c" "\<lambda>w. if w = Left then 0 else 1" "Received i"]
    by (simp add: exit_left_def)
next
  case (begin_work k i)
  then show ?thesis
    using worker_step_measure [OF assms(1) _ assms(3)]
      sum_list_update_nat [of k "cf_workers c" "\<lambda>w. if w = Left then 0 else 1" "Running i"]
    by (simp add: exit_left_def)
next
  case (end_work k i)
  then show ?thesis
    using worker_step_measure [OF assms(1) _ assms(3)]
      sum_list_update_nat [of k "cf_workers c" "\<lambda>w. if w = Left then 0 else 1" Waiting]
    by (simp add: exit_left_def)
qed (use assms(2) in auto)

lemma winds_down_exit: "winds_down c ls c' \<Longrightarrow> qinv c \<Longrightarrow> length ls + exit_left c' = exit_left c \<and> qinv c'"
  by (induction rule: winds_down.induct) (auto simp: worker_step_exit [symmetric] intro: qinv_step)

text \<open>A worker that has not left can leave or go on with the ID in its hands.\<close>

lemma present_can_step:
  assumes "\<not> all_left c"
  shows "\<exists>l c' k. qstep c l c' \<and> (of_worker l \<or> l = Quit k)"
proof -
  obtain k where k: "k < length (cf_workers c)" and w: "cf_workers c ! k \<noteq> Left"
    using assms by (auto simp: all_left_def in_set_conv_nth)
  show ?thesis
  proof (cases "cf_workers c ! k = Waiting")
    case True
    then show ?thesis using leave [OF k] by blast
  next
    case False
    then have "\<not> idle c k" by (simp add: idle_def)
    from worker_can_step [OF k w this] show ?thesis by fastforce
  qed
qed

section \<open>Properties\<close>

text \<open>
  C10: the workers drain the queue, in order. From every configuration the queue can be in,
  with no worker gone, a run of worker steps with no new call of \<^verbatim>\<open>Enqueue\<close> can go on until every
  channel is empty and every worker waits, and it stops only there. It takes at most \<open>work_left\<close>
  steps whatever the interleaving, and each worker starts on the IDs of its shard in the order
  they were queued, none skipped and none twice. Once the context is cancelled, \<open>exit_left\<close> worker
  steps are left at most, leaving included, and they stop only when every worker has left and
  \<^verbatim>\<open>Run\<close> returns.
\<close>

theorem queue_drains:
  assumes "qreach workers buffer c" and "workers < 2 ^ 32" and "Left \<notin> set (cf_workers c)"
  shows "(\<exists>ls c'. drains c ls c' \<and> at_rest c') \<and>
    (\<forall>ls c'. drains c ls c' \<longrightarrow>
       length ls + work_left c' = work_left c \<and>
       ((\<nexists>l c''. qstep c' l c'' \<and> of_worker l) \<longrightarrow> at_rest c') \<and>
       (\<forall>k < length (q_shards (cf_queue c)).
          started k ls @ waiting_for c' k = waiting_for c k \<and> (at_rest c' \<longrightarrow> started k ls = waiting_for c k))) \<and>
    (\<forall>ls c'. winds_down c ls c' \<longrightarrow>
       length ls \<le> exit_left c \<and> ((\<nexists>l c'' k. qstep c' l c'' \<and> (of_worker l \<or> l = Quit k)) \<longrightarrow> all_left c'))"
proof (intro conjI allI impI)
  have inv: "qinv c" using qreach_inv [OF assms(1,2)] .
  then show "\<exists>ls c'. drains c ls c' \<and> at_rest c'" using drains_to_rest assms(3) by blast
  show "length ls \<le> exit_left c" if "winds_down c ls c'" for ls c'
    using winds_down_exit [OF that inv] by linarith
  show "all_left c'" if "\<nexists>l c'' k. qstep c' l c'' \<and> (of_worker l \<or> l = Quit k)" for c'
    using present_can_step that by blast
  fix ls c' k
  assume d: "drains c ls c'"
  show "length ls + work_left c' = work_left c" using drains_measure [OF d inv] .
  show "at_rest c'" if "\<nexists>l c''. qstep c' l c'' \<and> of_worker l"
    using that busy_can_step drains_inv [OF d inv] drains_stays [OF d assms(3)] by blast
  assume k: "k < length (q_shards (cf_queue c))"
  show order: "started k ls @ waiting_for c' k = waiting_for c k" using drains_order [OF d inv k] .
  have "waiting_for c' k = []" if "at_rest c'"
  proof -
    have "length (q_shards (cf_queue c')) = length (q_shards (cf_queue c))"
      using d by (induction rule: drains.induct) (auto dest: worker_step_stays)
    then have "k < length (q_shards (cf_queue c'))" "k < length (cf_workers c')"
      using k drains_inv [OF d inv] by (auto simp: qinv_def)
    then have "sh_ch (q_shards (cf_queue c') ! k) = []" "cf_workers c' ! k = Waiting"
      using that unfolding at_rest_def by (meson nth_mem)+
    then show ?thesis by (simp add: waiting_for_def)
  qed
  then show "started k ls = waiting_for c k" if "at_rest c'" using order that by simp
qed

theorem queue_drains_witness:
  "\<exists>ls c'. drains (demo_conf {''app1''} [''app1''] Waiting []) ls c' \<and> at_rest c' \<and>
     length ls = 3 \<and> started 0 ls = [''app1'']"
proof -
  let ?c = "demo_conf {''app1''} [''app1''] Waiting []"
  have L: "Left \<notin> set (cf_workers ?c)" by simp
  note drains_all = queue_drains [OF demo_queued _ L]
  from drains_all obtain ls c' where run: "drains ?c ls c'" and rest: "at_rest c'" by auto
  have "waiting_for ?c 0 = [''app1'']" "work_left ?c = 3" "work_left c' = 0"
    using at_rest_work_left [OF rest] by (simp_all add: waiting_for_def work_left_def)
  moreover have "length ls + work_left c' = work_left ?c" "started 0 ls = waiting_for ?c 0"
    using drains_all run rest by auto
  ultimately show ?thesis using run rest by auto
qed

end
