(* ===== verification/Daemon.thy ===== *)
theory Daemon
  imports Own_Image Headscale Egress Reconciler_Pass Queue_Drain
begin

text \<open>
  The wiring, \<^verbatim>\<open>cmd/tailswarm/main.go\<close>: what \<^verbatim>\<open>run\<close> does with its arguments and environment up
  to the point where the daemon is running, and the running daemon as one transition system
  made of the watcher, the event channel, the forwarder, the work queue and the reconciler.

  \<^verbatim>\<open>deps\<close> is the tests' seam; production passes nil, and so does the model. The command-line
  parser of package \<^verbatim>\<open>flag\<close>, the SDK's client constructor and \<^verbatim>\<open>os.Hostname\<close> are arguments
  (record \<open>host\<close>), and so are what lies behind the Headscale client and behind tsnet.
\<close>

section \<open>Definitions\<close>

definition defaultWorkerCount :: int where
  "defaultWorkerCount = 8"

definition defaultQueueBuffer :: int where
  "defaultQueueBuffer = 256"

definition defaultEventChanDepth :: nat where
  "defaultEventChanDepth = 256"

text \<open>\<^verbatim>\<open>parse_flags\<close> is given the default of the flag \<^verbatim>\<open>-config\<close> and the arguments. A Docker client
  answers depending on what has happened so far.\<close>

record host =
  ho_sys :: sysfuns
  ho_parse_flags :: "string \<Rightarrow> string list \<Rightarrow> goerr + string"
  ho_newClient :: "goerr + (trace \<Rightarrow> dockerAPI)"
  ho_hostname :: "goerr + string"
  ho_henv :: henv
  ho_tsnet_start :: "trace \<Rightarrow> tsnetServer \<Rightarrow> start_outcome"
  ho_join :: "string \<Rightarrow> string \<Rightarrow> string"
  ho_listen :: "trace \<Rightarrow> string \<Rightarrow> goerr option"

text \<open>
  What the reconciler is connected to: its \<^verbatim>\<open>DockerClient\<close> is the client of theory \<open>Docker\<close>, its
  \<^verbatim>\<open>Controller\<close> the client of theory \<open>Headscale\<close>, its proxy factory \<^verbatim>\<open>NewTsnetProxy\<close>. The limiter,
  the clock and the closing of servers are as given. A new proxy is identified by the
  position of its start in the trace.
\<close>

definition docker_env :: "(trace \<Rightarrow> dockerAPI) \<Rightarrow> env \<Rightarrow> env" where
  "docker_env api e =
     e\<lparr>env_inspect := (\<lambda>tr. docker_InspectService (api tr)),
       env_list := (\<lambda>tr. docker_ListServices (api tr)),
       env_networks := (\<lambda>tr. docker_ListNetworks (api tr)),
       env_create := (\<lambda>tr. docker_CreateService (api tr)),
       env_update := (\<lambda>tr. docker_UpdateService (api tr)),
       env_remove := (\<lambda>tr. docker_RemoveService (api tr))\<rparr>"

definition tsnet_env :: "host \<Rightarrow> env \<Rightarrow> env" where
  "tsnet_env ho e =
     e\<lparr>env_start := (\<lambda>tr c. snd (NewTsnetProxy (ho_tsnet_start ho tr) (ho_join ho) (ho_listen ho tr) (length tr) c))\<rparr>"

definition wired_env :: "host \<Rightarrow> (trace \<Rightarrow> dockerAPI) \<Rightarrow> headscale \<Rightarrow> env \<Rightarrow> env" where
  "wired_env ho api ctrl e = docker_env api (headscale_env (ho_henv ho) ctrl (tsnet_env ho e))"

definition controller_of :: "config \<Rightarrow> headscale" where
  "controller_of cfg =
     \<lparr>h_BaseURL = hs_URL (cfg_Headscale cfg), h_APIKey = hs_APIKey (cfg_Headscale cfg), h_userIDCache = []\<rparr>"

record daemon =
  dm_cfg :: config
  dm_api :: "trace \<Rightarrow> dockerAPI"
  dm_ctrl :: headscale
  dm_reconciler :: reconciler
  dm_queue :: queue
  dm_watcher :: watcher

text \<open>\<^verbatim>\<open>run\<close> ends early with an error, having closed the Docker client or not; runs as a gateway;
  or reaches the point where its three goroutines run.\<close>

datatype run_result =
    EarlyReturn goerr bool
  | AsGateway "net_action list" "goerr option"
  | Serving daemon

definition run ::
  "host \<Rightarrow> ((string \<Rightarrow> string) \<Rightarrow> net_action list \<times> goerr option) \<Rightarrow> env \<Rightarrow> (string \<Rightarrow> string) \<Rightarrow> string list
     \<Rightarrow> run_result" where
  "run ho gateway e env args =
     (if args \<noteq> [] \<and> hd args = ''gateway'' then (case gateway env of (acts, r) \<Rightarrow> AsGateway acts r)
      else
        (case ho_parse_flags ho (env ''TAILSWARM_CONFIG'') args of
           Inl err \<Rightarrow> EarlyReturn err False
         | Inr configPath \<Rightarrow>
        (case Load (ho_sys ho) configPath env of
           Inl err \<Rightarrow> EarlyReturn (ErrWrap ''load config'' err) False
         | Inr cfg \<Rightarrow>
        (case NewDocker (ho_newClient ho) of
           Inl err \<Rightarrow> EarlyReturn (ErrWrap ''docker client'' err) False
         | Inr api \<Rightarrow>
        (case ho_hostname ho of
           Inl err \<Rightarrow> EarlyReturn (ErrWrap ''hostname lookup for egress gateway image discovery'' err) True
         | Inr hostname \<Rightarrow>
        (case DiscoverGatewayImage (docker_ListTasks (api [])) (docker_InspectService (api [])) hostname of
           Inl err \<Rightarrow> EarlyReturn (ErrWrap ''discover egress gateway image'' err) True
         | Inr img \<Rightarrow>
             Serving
               \<lparr>dm_cfg = cfg, dm_api = api,
                dm_ctrl = controller_of cfg,
                dm_reconciler = (NewReconciler (wired_env ho api (controller_of cfg) e) cfg)\<lparr>rec_GatewayImage := img\<rparr>,
                dm_queue = NewQueue defaultWorkerCount defaultQueueBuffer,
                dm_watcher = \<lparr>w_FullResync = rc_FullResyncInterval (cfg_Reconcile cfg),
                              w_LabelNamespace = cfg_LabelNamespace cfg, w_ReconnectBackoff = 0\<rparr>\<rparr>))))))"

text \<open>The exit status of \<^verbatim>\<open>main\<close>: a cancelled context is not a failure.\<close>

definition exit_status :: "goerr option \<Rightarrow> nat" where
  "exit_status err = (case err of None \<Rightarrow> 0 | Some e \<Rightarrow> if errors_is e Canceled then 0 else 1)"

subsection \<open>The running daemon\<close>

text \<open>
  The state of the goroutines: the watcher's loop and the IDs it has still to offer in this
  turn; the channel \<^verbatim>\<open>events\<close>; the ID the forwarder has taken from it and is passing to
  \<^verbatim>\<open>Enqueue\<close>; the queue with its workers; the reconciler's store and trace. For the
  statements, the IDs the watcher offered so far and the passes that ran.
\<close>

record system =
  sy_watch :: wstate
  sy_todo :: "string list"
  sy_events :: "string list"
  sy_hand :: "string option"
  sy_conf :: conf
  sy_rs :: rstate
  sy_offered :: "string set"
  sy_passes :: "string list"

definition sys_start :: "daemon \<Rightarrow> bool \<Rightarrow> int \<Rightarrow> string list \<Rightarrow> system" where
  "sys_start d ok now ids =
     \<lparr>sy_watch = run_start (dm_watcher d) ok now, sy_todo = ids, sy_events = [], sy_hand = None,
      sy_conf = \<lparr>cf_queue = dm_queue d, cf_workers = replicate (length (q_shards (dm_queue d))) Waiting,
                 cf_sending = [], cf_failed = []\<rparr>,
      sy_rs = \<lparr>rs_store = NewStore, rs_trace = []\<rparr>, sy_offered = {}, sy_passes = []\<rparr>"

text \<open>
  The steps. A turn of the watcher starts when the previous one has offered all its IDs; a
  send to \<^verbatim>\<open>events\<close> never waits. The forwarder passes one ID at a time through the parts of
  \<^verbatim>\<open>Enqueue\<close>. A worker's pass over its service is one step, at the time it ends, in an environment
  of its own: passes of different workers overlap in time, and what one is answered may depend
  on calls of the others. Theory \<open>Interleaving\<close> interleaves passes call by call and shows that
  nothing else can happen then. \<^verbatim>\<open>CloseAll\<close> runs when the context is cancelled, while workers may still be
  at work.
\<close>

text \<open>The IDs of a full list; whether their sends find room does not change them.\<close>

definition resync_list :: "daemon \<Rightarrow> trace \<Rightarrow> string \<Rightarrow> string list" where
  "resync_list d tr ns =
     map fst (fullList (docker_ListServices (dm_api d tr)) \<lparr>out_done = (\<lambda>_. False), out_room = (\<lambda>_. True)\<rparr> ns)"

text \<open>Who makes a step: the watcher's goroutine, the forwarder, a worker, or the cancellation.\<close>

datatype mover = ByWatcher | ByForwarder | ByWorker nat | OnCancel

inductive sstep :: "daemon \<Rightarrow> system \<Rightarrow> mover \<Rightarrow> system \<Rightarrow> bool" for d where
  s_event: "sy_todo y = [] \<Longrightarrow> enabled (sy_watch y) x \<Longrightarrow>
    run_turn (dm_watcher d) x (sy_watch y) = (WOffer i, w') \<Longrightarrow>
    sstep d y ByWatcher (y\<lparr>sy_watch := w', sy_todo := [i]\<rparr>)"
| s_resync: "sy_todo y = [] \<Longrightarrow> enabled (sy_watch y) x \<Longrightarrow>
    run_turn (dm_watcher d) x (sy_watch y) = (WFullList ns, w') \<Longrightarrow>
    sstep d y ByWatcher (y\<lparr>sy_watch := w', sy_todo := resync_list d (rs_trace (sy_rs y)) ns\<rparr>)"
| s_quiet: "sy_todo y = [] \<Longrightarrow> enabled (sy_watch y) x \<Longrightarrow>
    run_turn (dm_watcher d) x (sy_watch y) = (WNothing, w') \<Longrightarrow> sstep d y ByWatcher (y\<lparr>sy_watch := w'\<rparr>)"
| s_push: "sy_todo y = i # is \<Longrightarrow> length (sy_events y) < defaultEventChanDepth \<Longrightarrow>
    sstep d y ByWatcher (y\<lparr>sy_todo := is, sy_events := sy_events y @ [i], sy_offered := insert i (sy_offered y)\<rparr>)"
| s_behind: "sy_todo y = i # is \<Longrightarrow> \<not> length (sy_events y) < defaultEventChanDepth \<Longrightarrow>
    sstep d y ByWatcher (y\<lparr>sy_todo := is\<rparr>)"
| s_take: "sy_hand y = None \<Longrightarrow> sy_events y = i # is \<Longrightarrow>
    sstep d y ByForwarder (y\<lparr>sy_events := is, sy_hand := Some i\<rparr>)"
| s_mark: "sy_hand y = Some i \<Longrightarrow> i \<notin> set (cf_sending (sy_conf y)) \<union> set (cf_failed (sy_conf y)) \<Longrightarrow>
    mark i (shard_of (sy_conf y) i) = Some s \<Longrightarrow>
    sstep d y ByForwarder (y\<lparr>sy_conf := on_shard (shardFor (cf_queue (sy_conf y)) i) s
      ((sy_conf y)\<lparr>cf_sending := i # cf_sending (sy_conf y)\<rparr>)\<rparr>)"
| s_dup: "sy_hand y = Some i \<Longrightarrow> i \<notin> set (cf_sending (sy_conf y)) \<union> set (cf_failed (sy_conf y)) \<Longrightarrow>
    mark i (shard_of (sy_conf y) i) = None \<Longrightarrow> sstep d y ByForwarder (y\<lparr>sy_hand := None\<rparr>)"
| s_sent: "sy_hand y = Some i \<Longrightarrow> i \<in> set (cf_sending (sy_conf y)) \<Longrightarrow>
    try_send i (shard_of (sy_conf y) i) = Some s \<Longrightarrow>
    sstep d y ByForwarder (y\<lparr>sy_hand := None, sy_conf := on_shard (shardFor (cf_queue (sy_conf y)) i) s
      ((sy_conf y)\<lparr>cf_sending := remove1 i (cf_sending (sy_conf y))\<rparr>)\<rparr>)"
| s_full: "sy_hand y = Some i \<Longrightarrow> i \<in> set (cf_sending (sy_conf y)) \<Longrightarrow>
    try_send i (shard_of (sy_conf y) i) = None \<Longrightarrow>
    sstep d y ByForwarder (y\<lparr>sy_conf := (sy_conf y)\<lparr>cf_sending := remove1 i (cf_sending (sy_conf y)),
      cf_failed := i # cf_failed (sy_conf y)\<rparr>\<rparr>)"
| s_refused: "sy_hand y = Some i \<Longrightarrow> i \<in> set (cf_failed (sy_conf y)) \<Longrightarrow>
    sstep d y ByForwarder (y\<lparr>sy_hand := None, sy_conf := on_shard (shardFor (cf_queue (sy_conf y)) i) (unmark i (shard_of (sy_conf y) i))
      ((sy_conf y)\<lparr>cf_failed := remove1 i (cf_failed (sy_conf y))\<rparr>)\<rparr>)"
| s_receive: "qstep (sy_conf y) (Took k i) c' \<Longrightarrow> sstep d y (ByWorker k) (y\<lparr>sy_conf := c'\<rparr>)"
| s_begin: "qstep (sy_conf y) (Started k i) c' \<Longrightarrow> sstep d y (ByWorker k) (y\<lparr>sy_conf := c'\<rparr>)"
| s_pass: "qstep (sy_conf y) (Finished k i) c' \<Longrightarrow>
    run_state (Reconcile ((dm_reconciler d)\<lparr>rec_env := e\<rparr>) i) (sy_rs y) = (err, rs') \<Longrightarrow>
    sstep d y (ByWorker k) (y\<lparr>sy_conf := c', sy_rs := rs', sy_passes := sy_passes y @ [i]\<rparr>)"
| s_leave: "qstep (sy_conf y) (Quit k) c' \<Longrightarrow> sstep d y OnCancel (y\<lparr>sy_conf := c'\<rparr>)"
| s_close: "run_state (CloseAll (dm_reconciler d)) (sy_rs y) = ((), rs') \<Longrightarrow>
    sstep d y OnCancel (y\<lparr>sy_rs := rs'\<rparr>)"

inductive sreach :: "daemon \<Rightarrow> system \<Rightarrow> bool" for d where
  s_start: "sreach d (sys_start d ok now (resync_list d [] (ns_of (dm_watcher d))))"
| s_more: "sreach d y \<Longrightarrow> sstep d y a y' \<Longrightarrow> sreach d y'"


section \<open>Start-up\<close>

lemma run_Serving:
  assumes "run ho gateway e env args = Serving d"
  obtains path img tasks t svc cs where
    "Load (ho_sys ho) path env = Inr (dm_cfg d)" "ho_newClient ho = Inr (dm_api d)"
    "dm_reconciler d = (NewReconciler (wired_env ho (dm_api d) (dm_ctrl d) e) (dm_cfg d))\<lparr>rec_GatewayImage := img\<rparr>"
    "img \<noteq> []" "dm_queue d = NewQueue defaultWorkerCount defaultQueueBuffer"
    "dm_watcher d = \<lparr>w_FullResync = rc_FullResyncInterval (cfg_Reconcile (dm_cfg d)),
       w_LabelNamespace = cfg_LabelNamespace (dm_cfg d), w_ReconnectBackoff = 0\<rparr>"
    "dm_ctrl d = controller_of (dm_cfg d)"
proof -
  have "img \<noteq> []" if "DiscoverGatewayImage lt ins h = Inr img" for lt ins h img
    using that by (auto simp: DiscoverGatewayImage_def Let_def split: sum.splits option.splits if_splits)
  with assms that show thesis
    by (auto simp: run_def NewDocker_def split: if_splits sum.splits prod.splits)
qed

section \<open>Runs of the daemon\<close>

text \<open>The IDs on their way from the watcher to a worker.\<close>

definition worker_id :: "worker \<Rightarrow> string set" where
  "worker_id w = (case w of Received i \<Rightarrow> {i} | Running i \<Rightarrow> {i} | _ \<Rightarrow> {})"

definition conf_ids :: "conf \<Rightarrow> string set" where
  "conf_ids c =
     set (cf_sending c) \<union> set (cf_failed c) \<union> (\<Union>s \<in> set (q_shards (cf_queue c)). set (sh_ch s)) \<union>
     (\<Union>w \<in> set (cf_workers c). worker_id w)"

definition in_transit :: "system \<Rightarrow> string set" where
  "in_transit y = set (sy_events y) \<union> set_option (sy_hand y) \<union> conf_ids (sy_conf y)"

lemma conf_ids_on_shard:
  assumes "conf_ids c \<subseteq> A" and "set (sh_ch s) \<subseteq> A"
  shows "conf_ids (on_shard k s c) \<subseteq> A"
  using assms by (auto simp: conf_ids_def dest!: set_update_subset_insert [THEN subsetD])

lemma conf_ids_worker:
  assumes "conf_ids c \<subseteq> A" and "worker_id w \<subseteq> A"
  shows "conf_ids (c\<lparr>cf_workers := (cf_workers c)[k := w]\<rparr>) \<subseteq> A"
  using assms by (auto simp: conf_ids_def dest!: set_update_subset_insert [THEN subsetD])

lemma shard_ids:
  assumes "k < length (q_shards (cf_queue c))"
  shows "set (sh_ch (q_shards (cf_queue c) ! k)) \<subseteq> conf_ids c"
  using assms by (auto simp: conf_ids_def intro: nth_mem)

lemma worker_ids: "k < length (cf_workers c) \<Longrightarrow> worker_id (cf_workers c ! k) \<subseteq> conf_ids c"
  by (auto simp: conf_ids_def intro: nth_mem)

text \<open>A step of the daemon is a step of the queue, or leaves it alone.\<close>

lemma sstep_queue: "sstep d y a y' \<Longrightarrow> sy_conf y' = sy_conf y \<or> (\<exists>l. qstep (sy_conf y) l (sy_conf y'))"
proof (induction rule: sstep.induct)
  case (s_mark y i s)
  then show ?case using enq_mark by fastforce
next
  case (s_sent y i s)
  then show ?case using enq_sent by fastforce
next
  case (s_full y i)
  then show ?case using enq_full by fastforce
next
  case (s_refused y i)
  then show ?case using enq_drop by fastforce
qed auto

lemma sstep_watch: "sstep d y a y' \<Longrightarrow> wreach (dm_watcher d) (sy_watch y) \<Longrightarrow> wreach (dm_watcher d) (sy_watch y')"
  by (induction rule: sstep.induct) (auto intro: wturn)

lemma sstep_rs:
  "sstep d y a y' \<Longrightarrow> reachable (dm_reconciler d) (sy_rs y) \<Longrightarrow> reachable (dm_reconciler d) (sy_rs y')"
  by (induction rule: sstep.induct) (auto intro: pass reachable_shutdown)

lemma sstep_events:
  "sstep d y a y' \<Longrightarrow> length (sy_events y) \<le> defaultEventChanDepth \<Longrightarrow> length (sy_events y') \<le> defaultEventChanDepth"
  by (induction rule: sstep.induct) auto

text \<open>No ID appears out of nowhere.\<close>

definition all_offered :: "system \<Rightarrow> bool" where
  "all_offered y \<longleftrightarrow> in_transit y \<union> set (sy_passes y) \<subseteq> sy_offered y"

lemma conf_ids_parts:
  assumes "conf_ids c \<subseteq> A"
  shows "i \<in> A \<Longrightarrow> conf_ids (c\<lparr>cf_sending := i # cf_sending c\<rparr>) \<subseteq> A"
    and "conf_ids (c\<lparr>cf_sending := remove1 i (cf_sending c)\<rparr>) \<subseteq> A"
    and "conf_ids (c\<lparr>cf_failed := remove1 i (cf_failed c)\<rparr>) \<subseteq> A"
    and "i \<in> A \<Longrightarrow>
      conf_ids (c\<lparr>cf_sending := remove1 i (cf_sending c), cf_failed := i # cf_failed c\<rparr>) \<subseteq> A"
  using assms by (auto simp: conf_ids_def dest: notin_set_remove1)

lemma worker_step_ids:
  assumes "qstep c l c'" and "qinv c" and "of_worker l \<or> (\<exists>k. l = Quit k)"
  shows "conf_ids c' \<subseteq> conf_ids c"
proof -
  have len: "length (cf_workers c) = length (q_shards (cf_queue c))" using assms(2) by (simp add: qinv_def)
  have sub: "set (sh_ch (q_shards (cf_queue c) ! k)) \<subseteq> conf_ids c" "worker_id (cf_workers c ! k) \<subseteq> conf_ids c"
    if "k < length (cf_workers c)" for k
    using shard_ids worker_ids that len by metis+
  show ?thesis using assms(1,3)
  proof (cases rule: qstep.cases)
    case (receive k i rest)
    then have "set rest \<subseteq> conf_ids c" "worker_id (Received i) \<subseteq> conf_ids c" using sub(1) [of k] by (auto simp: worker_id_def)
    with receive show ?thesis by (simp add: conf_ids_on_shard conf_ids_worker)
  next
    case (begin_work k i)
    then have "worker_id (Running i) \<subseteq> conf_ids c" using sub(2) [of k] by (simp add: worker_id_def)
    with begin_work sub(1) [of k] show ?thesis by (simp add: conf_ids_on_shard conf_ids_worker unmark_def)
  qed (auto simp: conf_ids_worker worker_id_def)
qed

lemma finished_id: "qstep c (Finished k i) c' \<Longrightarrow> i \<in> conf_ids c"
  using worker_ids [of k c] by (auto simp: worker_id_def elim: qstep_FinishedE)

lemma sstep_offered:
  assumes "sstep d y a y'" and "all_offered y" and "qinv (sy_conf y)"
  shows "all_offered y'"
proof -
  let ?c = "sy_conf y"
  have inv: "conf_ids ?c \<subseteq> sy_offered y" "set (sy_events y) \<subseteq> sy_offered y"
    "set_option (sy_hand y) \<subseteq> sy_offered y" "set (sy_passes y) \<subseteq> sy_offered y"
    using assms(2) by (auto simp: all_offered_def in_transit_def)
  have sh: "shardFor (cf_queue ?c) i < length (q_shards (cf_queue ?c))" for i using assms(3) by (simp add: qinv_def)
  have ch: "set (sh_ch (shard_of ?c i)) \<subseteq> sy_offered y" for i
    using shard_ids [OF sh] inv(1) unfolding shard_of_def by blast
  note parts = conf_ids_parts [OF inv(1)]
  have by_conf: ?thesis if "conf_ids (sy_conf y') \<subseteq> sy_offered y" "sy_offered y' = sy_offered y"
      "sy_events y' = sy_events y" "set_option (sy_hand y') \<subseteq> set_option (sy_hand y)"
      "set (sy_passes y') \<subseteq> sy_offered y"
    using that inv by (auto simp: all_offered_def in_transit_def)
  from assms(1) show ?thesis
  proof (cases rule: sstep.cases)
    case (s_mark i s)
    then have "set (sh_ch s) \<subseteq> sy_offered y" using ch [of i] by (auto simp: mark_def split: if_splits)
    with s_mark inv show ?thesis by (intro by_conf) (simp_all add: conf_ids_on_shard parts(1))
  next
    case (s_sent i s)
    then have "set (sh_ch s) \<subseteq> sy_offered y"
      using ch [of i] inv(3) by (auto simp: try_send_def split: if_splits)
    with s_sent inv show ?thesis by (intro by_conf) (simp_all add: conf_ids_on_shard parts(2))
  next
    case (s_full i)
    with inv show ?thesis by (intro by_conf) (simp_all add: parts(4))
  next
    case (s_refused i)
    then have "set (sh_ch (unmark i (shard_of ?c i))) \<subseteq> sy_offered y" using ch [of i] by (simp add: unmark_def)
    with s_refused inv show ?thesis by (intro by_conf) (simp_all add: conf_ids_on_shard parts(3))
  next
    case (s_pass k i c' e err rs')
    with finished_id inv(1,4) show ?thesis
      using worker_step_ids [OF s_pass(3) assms(3)] by (intro by_conf) auto
  next
    case (s_receive k i c')
    with worker_step_ids [OF s_receive(3) assms(3)] inv show ?thesis by (intro by_conf) auto
  next
    case (s_begin k i c')
    with worker_step_ids [OF s_begin(3) assms(3)] inv show ?thesis by (intro by_conf) auto
  next
    case (s_leave k c')
    with worker_step_ids [OF s_leave(3) assms(3)] inv show ?thesis by (intro by_conf) auto
  qed (use inv in \<open>auto simp: all_offered_def in_transit_def\<close>)
qed

lemma sreach_inv:
  assumes "sreach d y" and q: "dm_queue d = NewQueue defaultWorkerCount defaultQueueBuffer"
  shows "qreach 8 256 (sy_conf y) \<and> wreach (dm_watcher d) (sy_watch y) \<and>
    reachable (dm_reconciler d) (sy_rs y) \<and> length (sy_events y) \<le> defaultEventChanDepth \<and> all_offered y"
  using assms(1)
proof (induction rule: sreach.induct)
  case (s_start ok now)
  have "qreach 8 256 (sy_conf (sys_start d ok now (resync_list d [] (ns_of (dm_watcher d)))))"
    using qstart [of 8 256] by (simp add: sys_start_def q defaultWorkerCount_def defaultQueueBuffer_def)
  then show ?case
    by (auto simp: sys_start_def all_offered_def in_transit_def conf_ids_def worker_id_def q NewQueue_def Let_def
        intro: wstart reachable.start)
next
  case (s_more y a y')
  have "qreach 8 256 (sy_conf y')" using sstep_queue [OF s_more(2)] s_more.IH qmore by metis
  moreover have "qinv (sy_conf y)" using s_more.IH qreach_inv [of 8 256] by simp
  ultimately show ?case
    using s_more sstep_offered sstep_watch sstep_rs sstep_events by blast
qed

section \<open>Properties\<close>

text \<open>
  What a started daemon is wired to. If \<^verbatim>\<open>run\<close> gets as far as serving, its configuration is
  valid, the gateway image is set, the watcher resyncs at the configured interval and lists
  the very namespace the reconciler parses, the queue has eight shards of 256 places, and the
  control-plane client talks to the configured server.
\<close>

theorem daemon_wiring:
  assumes "run ho gateway e env args = Serving d"
  shows "valid_config (ho_sys ho) (dm_cfg d) \<and> rec_GatewayImage (dm_reconciler d) \<noteq> [] \<and>
    ns_of (dm_watcher d) = namespace (parser_of (dm_reconciler d)) \<and>
    resync_of (dm_watcher d) = rc_FullResyncInterval (cfg_Reconcile (dm_cfg d)) \<and>
    map sh_cap (q_shards (dm_queue d)) = replicate 8 256 \<and>
    h_BaseURL (dm_ctrl d) = hs_URL (cfg_Headscale (rec_Cfg (dm_reconciler d)))"
proof -
  from assms obtain path img where L: "Load (ho_sys ho) path env = Inr (dm_cfg d)"
    and R: "dm_reconciler d = (NewReconciler (wired_env ho (dm_api d) (dm_ctrl d) e) (dm_cfg d))\<lparr>rec_GatewayImage := img\<rparr>" "img \<noteq> []"
    and Q: "dm_queue d = NewQueue defaultWorkerCount defaultQueueBuffer"
    and W: "dm_watcher d = \<lparr>w_FullResync = rc_FullResyncInterval (cfg_Reconcile (dm_cfg d)),
       w_LabelNamespace = cfg_LabelNamespace (dm_cfg d), w_ReconnectBackoff = 0\<rparr>"
    and H: "dm_ctrl d = controller_of (dm_cfg d)"
    by (rule run_Serving)
  have v: "valid_config (ho_sys ho) (dm_cfg d)" using L by (rule Load_stages) (simp add: validate_None)
  moreover have "resync_of (dm_watcher d) = rc_FullResyncInterval (cfg_Reconcile (dm_cfg d))"
    using v by (simp add: W resync_of_def valid_config_def word_sle_eq)
  moreover have "map sh_cap (q_shards (dm_queue d)) = replicate 8 256"
    by (simp add: Q NewQueue_def defaultWorkerCount_def defaultQueueBuffer_def)
  ultimately show ?thesis
    using R H by (simp add: controller_of_def W ns_of_def namespace_def parser_of_def NewReconciler_def Let_def valid_config_def)
qed

definition demo_docker :: dockerAPI where
  "demo_docker = demo_api
     \<lparr>api_TaskList := Inr [\<lparr>task_ServiceID = ''self'', task_ContainerID = Some ''abcdef''\<rparr>],
      api_ServiceInspect := (\<lambda>i. Inr (if i = ''app1'' then demo_svc else \<lparr>svc_ID = ''self'', svc_Version = 1,
        svc_Spec = gatewaySpec demo_eg demo_target ''app1'' demo_config ''img'' []\<rparr>))\<rparr>"

definition demo_host :: host where
  "demo_host = \<lparr>ho_sys = demo_sys, ho_parse_flags = (\<lambda>_ _. Inr ''/etc/tailswarm.yml''),
     ho_newClient = Inr (\<lambda>_. demo_docker), ho_hostname = Inr ''abc'', ho_henv = demo_henv,
     ho_tsnet_start = (\<lambda>_ _. StartDone None), ho_join = (@), ho_listen = (\<lambda>_ _. None)\<rparr>"

definition demo_environ :: "string \<Rightarrow> string" where
  "demo_environ v = (if v = ''TAILSWARM_ALLOWED_TAGS'' then ''tag:team-*'' else demo_env v)"

definition team_config :: config where
  "team_config = demo_config\<lparr>cfg_AllowedTags := Some [''tag:team-*'']\<rparr>"

lemma team_load: "Load demo_sys ''/etc/tailswarm.yml'' demo_environ = Inr team_config"
  by code_simp

definition demo_daemon :: daemon where
  "demo_daemon =
     \<lparr>dm_cfg = team_config, dm_api = (\<lambda>_. demo_docker), dm_ctrl = controller_of team_config,
      dm_reconciler = (NewReconciler (wired_env demo_host (\<lambda>_. demo_docker) (controller_of team_config) calm_env)
        team_config)\<lparr>rec_GatewayImage := ''img''\<rparr>,
      dm_queue = NewQueue defaultWorkerCount defaultQueueBuffer,
      dm_watcher = \<lparr>w_FullResync = rc_FullResyncInterval (cfg_Reconcile team_config),
                    w_LabelNamespace = cfg_LabelNamespace team_config, w_ReconnectBackoff = 0\<rparr>\<rparr>"

lemma demo_daemon: "run demo_host (\<lambda>_. ([], None)) calm_env demo_environ [] = Serving demo_daemon"
  by (simp add: run_def demo_host_def team_load NewDocker_def DiscoverGatewayImage_def demo_daemon_def
      docker_ListTasks_def docker_InspectService_def demo_docker_def task_matches_def gatewaySpec_def Let_def)

theorem daemon_wiring_witness:
  "rec_GatewayImage (dm_reconciler demo_daemon) \<noteq> [] \<and>
   ns_of (dm_watcher demo_daemon) = namespace (parser_of (dm_reconciler demo_daemon))"
  using daemon_wiring [OF demo_daemon] by blast

text \<open>
  C8: the daemon refines its components. Along every interleaving of watcher, forwarder, workers
  and shutdown, the queue goes through states the queue alone can reach, the watcher and the
  store likewise, the event channel stays within its buffer, and no service is in transit or
  reconciled that the watcher did not offer.
\<close>

theorem daemon_refines_components:
  assumes "run ho gateway e env args = Serving d" and "sreach d y"
  shows "qreach 8 256 (sy_conf y) \<and> wreach (dm_watcher d) (sy_watch y) \<and>
    reachable (dm_reconciler d) (sy_rs y) \<and> length (sy_events y) \<le> 256 \<and>
    in_transit y \<union> set (sy_passes y) \<subseteq> sy_offered y"
proof -
  from assms(1) have "dm_queue d = NewQueue defaultWorkerCount defaultQueueBuffer" by (rule run_Serving)
  from sreach_inv [OF assms(2) this] show ?thesis by (simp add: all_offered_def defaultEventChanDepth_def)
qed

theorem daemon_refines_components_witness:
  "\<exists>y. sreach demo_daemon y \<and> qreach 8 256 (sy_conf y) \<and> reachable (dm_reconciler demo_daemon) (sy_rs y)"
  using daemon_refines_components [OF demo_daemon s_start] s_start by blast


abbreviation demo_pass :: rstate where
  "demo_pass \<equiv> snd (run_state (Reconcile (dm_reconciler demo_daemon) ''app1'') \<lparr>rs_store = [], rs_trace = []\<rparr>)"

lemma demo_daemon_sel:
  "parser_of (dm_reconciler demo_daemon) = demo_labels"
  "env_inspect (rec_env (dm_reconciler demo_daemon)) tr ''app1'' = Inr demo_svc"
  "env_networks (rec_env (dm_reconciler demo_daemon)) tr = Inr []"
  "env_wait (rec_env (dm_reconciler demo_daemon)) tr = None"
  "kr_User (key_request (dm_reconciler demo_daemon) tag) = ''swarm''"
  by (simp_all add: demo_daemon_def NewReconciler_def Let_def parser_of_def demo_labels_def team_config_def demo_config_def
      defaultConfig_def defaultNamespace_def defaultOverlay_def allowedTags_def wired_env_def docker_env_def
      docker_InspectService_def docker_ListNetworks_def demo_docker_def demo_api_def headscale_env_def tsnet_env_def
      calm_env_def key_request_def)

lemma demo_pass_mints:
  "\<exists>res es. rs_trace demo_pass = [EvInspect ''app1'' (Inr demo_svc), EvNetworks (Inr []), EvWait None,
     EvMint (key_request (dm_reconciler demo_daemon) ''tag:team-web'') res] @ es"
proof -
  let ?r = "dm_reconciler demo_daemon"
  let ?s = "\<lparr>rs_store = [], rs_trace = [EvInspect ''app1'' (Inr demo_svc), EvNetworks (Inr [])]\<rparr>"
  obtain e1 s1 where s1: "run_state (reconcileIngress ?r ''app1'' demo_tgt) ?s = (e1, s1)" by fastforce
  have "\<exists>res es. rs_trace s1 = [EvInspect ''app1'' (Inr demo_svc), EvNetworks (Inr []), EvWait None,
      EvMint (key_request ?r ''tag:team-web'') res] @ es"
    using s1 by (auto simp: reconcileIngress_def demo_tgt_def Let_def runs store_Get_def zeroEntry_def demo_daemon_sel
        expireOrLog_def split: sum.splits option.splits if_splits)
  moreover obtain e2 s2 where s2: "run_state (reconcileEgress ?r ''app1'' demo_tgt) s1 = (e2, s2)" by fastforce
  moreover have "grows (\<lambda>_. True) ''app1'' s1 s2" using gr.keepsD [OF own.reconcileEgress s2] by simp
  ultimately show ?thesis using s1 demo_parse
    by (auto simp: Reconcile_def reconcile_found_def runs demo_daemon_sel grows_def)
qed


text \<open>
  C23: a deployed gateway runs as one. The container of \<^verbatim>\<open>gatewaySpec\<close> starts the daemon's own
  binary with arguments and environment that take \<^verbatim>\<open>run\<close> into gateway mode; there it registers
  under the gateway's host name with the minted key, listens on the target's port, forwards
  to the target's address, and on a stop closes everything and returns no error.
\<close>

theorem gateway_container_runs:
  assumes "ss_ContainerSpec (gatewaySpec eg t app cfg img key) = Some cs"
    and "wf_target t" and "key \<noteq> []" and "cfg_StateDir cfg \<noteq> []"
    and "start (server_for join (gatewayHostname eg t) key (cfg_StateDir cfg) (hs_URL (cfg_Headscale cfg)))
           = StartDone None"
    and "net_listen ('':'' @ dec (unat (et_Port t))) = None"
  shows "run ho (RunGateway start join net_listen ref closeErr) e (getenv (base @ cs_Env cs)) (cs_Args cs) =
    AsGateway [ActStart, ActListen ('':'' @ dec (unat (et_Port t))),
      ActCloseOnCancel ('':'' @ dec (unat (et_Port t))), ActAccept (tailnetDialer (addr t)),
      ActAwaitCancel, ActCancel, ActCloseServer, ActJoin] None"
proof -
  have "cs_Args cs = [''gateway'']" using assms(1) by (auto simp: gatewaySpec_def Let_def)
  then show ?thesis
    using gateway_runs_its_spec [OF assms(1-4), of start join net_listen ref closeErr base] assms(5,6)
    by (simp add: run_def)
qed

theorem gateway_container_runs_witness:
  "\<exists>acts. run demo_host (RunGateway (\<lambda>_. StartDone None) (@) (\<lambda>_. None) 0 None) calm_env
     (getenv (''PATH=/bin'' # cs_Env demo_cs)) (cs_Args demo_cs) = AsGateway acts None"
proof -
  have "cfg_StateDir demo_config \<noteq> []" by code_simp
  then show ?thesis
    using gateway_container_runs [OF demo_cs wf_demo_target, of "\<lambda>_. StartDone None" "(@)" "\<lambda>_. None" demo_host
        0 None calm_env "[''PATH=/bin'']"]
    by simp
qed

end
