(* ===== verification/Event_Flow.thy ===== *)
theory Event_Flow
  imports Daemon
begin

text \<open>
  The way of a service ID through the running daemon: from the watcher that has listed it or got
  an event for it, through the channel it sends to, the forwarder's hands and \<^verbatim>\<open>Enqueue\<close>, to the
  worker that starts a pass. An ID is awaited while it is on this way behind the watcher; the work of
  an ID that was already on it is shared. Some workers may be stuck in a pass that does not
  return; \<open>stuck\<close> is the set of these.
\<close>

section \<open>Definitions\<close>

definition awaited :: "system \<Rightarrow> string \<Rightarrow> bool" where
  "awaited y i \<longleftrightarrow>
     i \<in> set (sy_events y) \<or> sy_hand y = Some i \<or> i \<in> sh_pending (shard_of (sy_conf y) i)"

text \<open>The ID is awaited, or the watcher has it still to offer in this turn.\<close>

definition due :: "system \<Rightarrow> string \<Rightarrow> bool" where
  "due y i \<longleftrightarrow> i \<in> set (sy_todo y) \<or> awaited y i"

text \<open>A worker starts on the ID, which it had received; the queue refuses the ID for want of room.\<close>

definition starts :: "string \<Rightarrow> system \<Rightarrow> system \<Rightarrow> bool" where
  "starts i y y' \<longleftrightarrow> (\<exists>k. qstep (sy_conf y) (Started k i) (sy_conf y'))"

definition refuses :: "string \<Rightarrow> system \<Rightarrow> system \<Rightarrow> bool" where
  "refuses i y y' \<longleftrightarrow> sy_hand y = Some i \<and> sy_hand y' = None \<and> i \<in> set (cf_failed (sy_conf y))"

text \<open>The watcher gives the ID up, because the event channel is full.\<close>

definition drops :: "string \<Rightarrow> system \<Rightarrow> system \<Rightarrow> bool" where
  "drops i y y' \<longleftrightarrow>
     sy_todo y = i # sy_todo y' \<and> sy_events y' = sy_events y \<and> defaultEventChanDepth \<le> length (sy_events y)"

section \<open>One step\<close>

lemma nth_update_at: "j < length xs \<Longrightarrow> xs[i := x] ! j = (if i = j then x else xs ! j)"
  by (cases "i = j") simp_all

lemma shard_of_frame [simp]:
  "shard_of (c\<lparr>cf_workers := ws\<rparr>) i = shard_of c i" "shard_of (c\<lparr>cf_sending := xs\<rparr>) i = shard_of c i"
  "shard_of (c\<lparr>cf_failed := xs\<rparr>) i = shard_of c i"
  by (simp_all add: shard_of_def)

text \<open>Only starting on an ID and dropping it take its mark back.\<close>

lemma mark_kept:
  assumes "qstep c l c'" and "qinv c" and "i \<in> sh_pending (shard_of c i)"
    and "\<forall>k. l \<noteq> Started k i" and "l \<noteq> Returned i False"
  shows "i \<in> sh_pending (shard_of c' i)"
proof -
  have "shardFor (cf_queue c) i < length (q_shards (cf_queue c))" using assms(2) by (simp add: qinv_def)
  with assms show ?thesis
    by (cases rule: qstep.cases)
      (auto simp: shard_of_def nth_update_at mark_def try_send_def unmark_def split: if_splits)
qed

lemma sent_is_marked:
  assumes "qinv c" and "i \<in> set (cf_sending c)"
  shows "i \<in> sh_pending (shard_of c i)"
proof -
  let ?k = "shardFor (cf_queue c) i"
  have "shard_inv c ?k" using assms(1) by (simp add: qinv_def)
  moreover have "i \<in># in_flight c ?k" using assms(2) by (simp add: in_flight_def)
  ultimately show ?thesis unfolding shard_of_def by (rule in_flight_pending)
qed

lemma sstep_awaited:
  assumes "sstep d y m y'" and "qinv (sy_conf y)" and "awaited y i"
  shows "awaited y' i \<or> starts i y y' \<or> refuses i y y'"
proof -
  let ?c = "sy_conf y"
  note kept = mark_kept [OF _ assms(2), of _ _ i]
  from assms(1) show ?thesis
  proof (cases rule: sstep.cases)
    case (s_mark j s)
    with assms(3) kept [OF enq_mark] show ?thesis by (auto simp: awaited_def)
  next
    case (s_dup j)
    then have "j \<in> sh_pending (shard_of ?c j)" by (simp add: mark_def split: if_splits)
    with s_dup assms(3) show ?thesis by (auto simp: awaited_def)
  next
    case (s_sent j s)
    have "j \<in> sh_pending (shard_of ?c j)" using sent_is_marked [OF assms(2)] s_sent by simp
    then show ?thesis using s_sent assms(3) kept [OF enq_sent [of j ?c s]] by (auto simp: awaited_def)
  next
    case (s_refused j)
    then show ?thesis using assms(3) kept [OF enq_drop [of j ?c]] by (auto simp: awaited_def refuses_def)
  next
    case (s_receive k j c')
    with assms(3) kept [OF s_receive(3)] show ?thesis by (auto simp: awaited_def)
  next
    case (s_begin k j c')
    with assms(3) kept [OF s_begin(3)] show ?thesis by (auto simp: awaited_def starts_def)
  next
    case (s_pass k j c' e err rs')
    with assms(3) kept [OF s_pass(3)] show ?thesis by (auto simp: awaited_def)
  next
    case (s_leave k c')
    with assms(3) kept [OF s_leave(3)] show ?thesis by (auto simp: awaited_def)
  qed (use assms(3) in \<open>auto simp: awaited_def\<close>)
qed

lemma sstep_due:
  assumes "sstep d y m y'" and "qinv (sy_conf y)" and "due y i"
  shows "due y' i \<or> starts i y y' \<or> refuses i y y' \<or> drops i y y'"
proof (cases "awaited y i")
  case True
  then show ?thesis using sstep_awaited [OF assms(1,2)] by (auto simp: due_def)
next
  case False
  then have "i \<in> set (sy_todo y)" using assms(3) by (simp add: due_def)
  with assms(1) show ?thesis by (cases rule: sstep.cases) (auto simp: due_def awaited_def drops_def)
qed

lemma sstep_shardFor: "sstep d y m y' \<Longrightarrow> shardFor (cf_queue (sy_conf y')) = shardFor (cf_queue (sy_conf y))"
  by (drule sstep_queue) (auto elim!: qstep.cases)

lemma sreach_shardFor: "sreach d y \<Longrightarrow> shardFor (cf_queue (sy_conf y)) = shardFor (dm_queue d)"
  by (induction rule: sreach.induct) (auto simp: sys_start_def dest: sstep_shardFor)

lemma sreach_queue:
  assumes "run ho gateway e env args = Serving d" and "sreach d y"
  shows "qreach 8 256 (sy_conf y)" and "qinv (sy_conf y)"
proof -
  from assms(1) have "dm_queue d = NewQueue defaultWorkerCount defaultQueueBuffer" by (rule run_Serving)
  from sreach_inv [OF assms(2) this] show q: "qreach 8 256 (sy_conf y)" by simp
  then show "qinv (sy_conf y)" using qreach_inv [of 8 256] by simp
qed

section \<open>The measure\<close>

text \<open>
  The steps that move IDs: the watcher offers what it has listed, the forwarder and the workers
  that are not stuck do what they can.
\<close>

definition flow :: "daemon \<Rightarrow> nat set \<Rightarrow> system \<Rightarrow> system \<Rightarrow> bool" where
  "flow d stuck y y' \<longleftrightarrow>
     sy_todo y \<noteq> [] \<and> sstep d y ByWatcher y' \<or> sstep d y ByForwarder y' \<or>
     (\<exists>k. k \<notin> stuck \<and> sstep d y (ByWorker k) y')"

definition hand_left :: "system \<Rightarrow> nat" where
  "hand_left y =
     (case sy_hand y of
        None \<Rightarrow> 0
      | Some i \<Rightarrow> if i \<in> set (cf_failed (sy_conf y)) then 7 else if i \<in> set (cf_sending (sy_conf y)) then 8 else 9)"

definition flow_left :: "system \<Rightarrow> nat" where
  "flow_left y = 11 * length (sy_todo y) + 10 * length (sy_events y) + hand_left y + work_left (sy_conf y)"

text \<open>The forwarder is the only caller of \<^verbatim>\<open>Enqueue\<close>.\<close>

definition one_caller :: "system \<Rightarrow> bool" where
  "one_caller y \<longleftrightarrow>
     (case sy_hand y of
        None \<Rightarrow> cf_sending (sy_conf y) = [] \<and> cf_failed (sy_conf y) = []
      | Some i \<Rightarrow> (cf_sending (sy_conf y), cf_failed (sy_conf y)) \<in> {([], []), ([i], []), ([], [i])})"

lemma worker_step_callers:
  assumes "qstep c l c'" and "of_worker l \<or> (\<exists>k. l = Quit k)"
  shows "cf_sending c' = cf_sending c" and "cf_failed c' = cf_failed c"
  using assms by (auto elim: qstep.cases)

lemma one_caller_step: "sstep d y m y' \<Longrightarrow> one_caller y \<Longrightarrow> one_caller y'"
  by (induction rule: sstep.induct)
    (auto simp: one_caller_def worker_step_callers split: option.splits)

lemma work_left_on_shard:
  assumes "k < length (q_shards (cf_queue c))"
  shows "work_left (on_shard k s c) + 3 * length (sh_ch (q_shards (cf_queue c) ! k)) = work_left c + 3 * length (sh_ch s)"
  using sum_list_update_nat [OF assms, of "\<lambda>s. 3 * length (sh_ch s)" s] by (simp add: work_left_def)

lemma work_left_callers [simp]:
  "work_left (c\<lparr>cf_sending := xs\<rparr>) = work_left c" "work_left (c\<lparr>cf_failed := xs\<rparr>) = work_left c"
  by (simp_all add: work_left_def)

lemma work_left_sending [simp]:
  "work_left (on_shard k s (c\<lparr>cf_sending := xs\<rparr>)) = work_left (on_shard k s c)"
  "work_left (on_shard k s (c\<lparr>cf_failed := xs\<rparr>)) = work_left (on_shard k s c)"
  by (simp_all add: work_left_def)

lemma flow_decreases:
  assumes "flow d stuck y y'" and inv: "qinv (sy_conf y)" and "one_caller y"
  shows "flow_left y' < flow_left y"
proof -
  let ?c = "sy_conf y"
  have sh: "shardFor (cf_queue ?c) i < length (q_shards (cf_queue ?c))" for i using inv by (simp add: qinv_def)
  have worker: ?thesis if "qstep ?c l (sy_conf y')" "of_worker l" "sy_todo y' = sy_todo y"
      "sy_events y' = sy_events y" "sy_hand y' = sy_hand y" for l
    using worker_step_measure [OF that(1,2) inv] worker_step_callers [OF that(1)] that
    by (simp add: flow_left_def hand_left_def split: option.splits)
  from assms(1) obtain m where m: "sstep d y m y'"
    "sy_todo y \<noteq> [] \<and> m = ByWatcher \<or> m = ByForwarder \<or> (\<exists>k. m = ByWorker k)"
    unfolding flow_def by blast
  from this(1) show ?thesis
  proof (cases rule: sstep.cases)
    case (s_take i rest)
    with assms(3) show ?thesis by (simp add: flow_left_def hand_left_def one_caller_def)
  next
    case (s_mark i s)
    then have "sh_ch s = sh_ch (shard_of ?c i)" by (auto simp: mark_def split: if_splits)
    with work_left_on_shard [OF sh [of i], of s] s_mark show ?thesis
      using assms(3) by (auto simp: flow_left_def hand_left_def one_caller_def shard_of_def)
  next
    case (s_dup i)
    then show ?thesis by (simp add: flow_left_def hand_left_def)
  next
    case (s_sent i s)
    then have "length (sh_ch s) = Suc (length (sh_ch (shard_of ?c i)))" by (auto simp: try_send_def split: if_splits)
    with work_left_on_shard [OF sh [of i], of s] s_sent show ?thesis
      using assms(3) by (auto simp: flow_left_def hand_left_def one_caller_def shard_of_def)
  next
    case (s_full i)
    then show ?thesis using assms(3) by (auto simp: flow_left_def hand_left_def one_caller_def)
  next
    case (s_refused i)
    with work_left_on_shard [OF sh [of i], of "unmark i (shard_of ?c i)"] show ?thesis
      by (auto simp: flow_left_def hand_left_def shard_of_def unmark_def)
  qed (use m worker in \<open>auto simp: flow_left_def hand_left_def split: option.splits\<close>)
qed

section \<open>Progress\<close>

lemma flow_no_Left:
  "flow d stuck y y' \<Longrightarrow> Left \<notin> set (cf_workers (sy_conf y)) \<Longrightarrow> Left \<notin> set (cf_workers (sy_conf y'))"
  unfolding flow_def
  by (elim disjE exE conjE; erule sstep.cases) (auto dest: worker_step_stays(2))

text \<open>The watcher never waits for room in the channel.\<close>

lemma watcher_moves: "sy_todo y \<noteq> [] \<Longrightarrow> \<exists>y'. flow d stuck y y'"
  unfolding flow_def using s_push [of y _ _ d] s_behind [of y _ _ d] by (metis list.exhaust)

text \<open>With an ID in its hands the forwarder can go on.\<close>

lemma forwarder_moves:
  assumes "sy_hand y = Some i"
  shows "\<exists>y'. flow d stuck y y'"
proof -
  have "\<exists>y'. sstep d y ByForwarder y'"
  proof (cases "i \<in> set (cf_failed (sy_conf y))")
    case True
    then show ?thesis using s_refused [OF assms] by blast
  next
    case False
    show ?thesis
    proof (cases "i \<in> set (cf_sending (sy_conf y))")
      case True
      then show ?thesis
        using s_sent [OF assms] s_full [OF assms] by (cases "try_send i (shard_of (sy_conf y) i)") blast+
    next
      case no_send: False
      then show ?thesis
        using s_mark [OF assms] s_dup [OF assms] False by (cases "mark i (shard_of (sy_conf y) i)") blast+
    qed
  qed
  then show ?thesis unfolding flow_def by blast
qed

lemma worker_moves:
  assumes "k < length (cf_workers (sy_conf y))" and "cf_workers (sy_conf y) ! k \<noteq> Left"
    and "\<not> idle (sy_conf y) k" and "k \<notin> stuck"
  shows "\<exists>y'. flow d stuck y y'"
proof -
  let ?r = "(dm_reconciler d)\<lparr>rec_env := rec_env (dm_reconciler d)\<rparr>"
  obtain i l c' where q: "qstep (sy_conf y) l c'" "l \<in> {Took k i, Started k i, Finished k i}"
    using worker_can_step [OF assms(1-3)] by blast
  obtain err rs' where "run_state (Reconcile ?r i) (sy_rs y) = (err, rs')" by fastforce
  with q have "\<exists>y'. sstep d y (ByWorker k) y'" using s_receive s_begin s_pass by blast
  then show ?thesis using assms(4) unfolding flow_def by blast
qed

text \<open>When nothing moves any more, everything has arrived, save what waits for a stuck worker.\<close>

lemma flow_stops:
  assumes "Left \<notin> set (cf_workers (sy_conf y))" and "\<nexists>y'. flow d stuck y y'"
  shows "sy_todo y = []" and "sy_events y = []" and "sy_hand y = None"
    and "k < length (cf_workers (sy_conf y)) \<Longrightarrow> k \<notin> stuck \<Longrightarrow> idle (sy_conf y) k"
proof -
  show "idle (sy_conf y) k" if "k < length (cf_workers (sy_conf y))" "k \<notin> stuck"
    using worker_moves [OF that(1)] that assms nth_mem by metis
  show hand: "sy_hand y = None" using forwarder_moves assms(2) by (cases "sy_hand y") blast+
  show "sy_todo y = []" using watcher_moves assms(2) by blast
  show "sy_events y = []"
  proof (cases "sy_events y")
    case (Cons i is')
    then show ?thesis using s_take [OF hand] assms(2) unfolding flow_def by blast
  qed
qed

lemma rest_nothing_due:
  assumes "qinv (sy_conf y)" and "one_caller y" and "sy_todo y = []" and "sy_events y = []" and "sy_hand y = None"
    and "idle (sy_conf y) (shardFor (cf_queue (sy_conf y)) i)"
  shows "\<not> due y i"
proof
  let ?c = "sy_conf y" and ?k = "shardFor (cf_queue (sy_conf y)) i"
  assume "due y i"
  then have "i \<in> sh_pending (q_shards (cf_queue ?c) ! ?k)"
    using assms(3-5) by (simp add: due_def awaited_def shard_of_def)
  moreover have "shard_inv ?c ?k" using assms(1) by (simp add: qinv_def)
  ultimately have "i \<in># in_flight ?c ?k" by (simp add: shard_inv_def Let_def)
  then show False using assms(2,5,6) by (simp add: in_flight_def one_caller_def idle_def)
qed

lemma one_caller_start: "one_caller (sys_start d ok now ids)"
  by (simp add: one_caller_def sys_start_def)

lemma sreach_one_caller: "sreach d y \<Longrightarrow> one_caller y"
  by (induction rule: sreach.induct) (auto intro: one_caller_start one_caller_step)

lemma sreach_flow: "flow d stuck y y' \<Longrightarrow> sreach d y \<Longrightarrow> sreach d y'"
  unfolding flow_def by (blast intro: s_more)

subsection \<open>Runs\<close>

text \<open>A step that moves IDs without settling \<open>i\<close>: it is not started on and not given up.\<close>

definition flow_past :: "daemon \<Rightarrow> nat set \<Rightarrow> string \<Rightarrow> system \<Rightarrow> system \<Rightarrow> bool" where
  "flow_past d stuck i y y' \<longleftrightarrow>
     flow d stuck y y' \<and> \<not> starts i y y' \<and> \<not> refuses i y y' \<and> \<not> drops i y y'"

lemma flow_run:
  assumes "(flow d stuck)\<^sup>*\<^sup>* y y'" and "sreach d y" and "Left \<notin> set (cf_workers (sy_conf y))"
  shows "sreach d y' \<and> Left \<notin> set (cf_workers (sy_conf y'))"
  using assms by (induction rule: rtranclp_induct) (auto dest: sreach_flow flow_no_Left)

lemma flow_run_bound:
  assumes "run ho gateway e env args = Serving d" and "sreach d y" and "(flow d stuck ^^ n) y y'"
  shows "n + flow_left y' \<le> flow_left y \<and> sreach d y'"
  using assms(3)
proof (induction n arbitrary: y')
  case (Suc n)
  then obtain a where a: "(flow d stuck ^^ n) y a" "flow d stuck a y'" by auto
  with Suc.IH have "n + flow_left a \<le> flow_left y" "sreach d a" by auto
  moreover have "flow_left y' < flow_left a"
    using flow_decreases [OF a(2) sreach_queue(2) [OF assms(1)] sreach_one_caller] calculation(2) by simp
  ultimately show ?case using sreach_flow a(2) by simp
qed (use assms(2) in simp)

lemma qreach_length: "qreach workers buffer c \<Longrightarrow> length (cf_workers c) = length (q_shards (NewQueue workers buffer))"
proof (induction rule: qreach.induct)
  case (qmore c l c')
  then show ?case by (auto elim!: qstep.cases)
qed simp

lemma flow_run_stops:
  assumes "run ho gateway e env args = Serving d" and "sreach d y" and "Left \<notin> set (cf_workers (sy_conf y))"
    and "\<nexists>y'. flow d stuck y y'"
  shows "sy_todo y = [] \<and> sy_events y = [] \<and> sy_hand y = None \<and> (\<forall>k < 8. k \<notin> stuck \<longrightarrow> idle (sy_conf y) k) \<and>
    (\<forall>i. shardFor (dm_queue d) i \<notin> stuck \<longrightarrow> \<not> due y i)"
proof -
  note q = sreach_queue(2) [OF assms(1,2)]
  have len: "length (cf_workers (sy_conf y)) = 8"
    using qreach_length [OF sreach_queue(1) [OF assms(1,2)]] by (simp add: NewQueue_def)
  then have "shardFor (dm_queue d) i < 8" for i
    using q sreach_shardFor [OF assms(2)] unfolding qinv_def by metis
  moreover note flow_stops [OF assms(3,4)]
  ultimately show ?thesis
    using rest_nothing_due [OF q sreach_one_caller [OF assms(2)]] sreach_shardFor [OF assms(2)] len by metis
qed

lemma due_until_settled:
  assumes "run ho gateway e env args = Serving d" and "sreach d y" and "Left \<notin> set (cf_workers (sy_conf y))"
    and "due y i" and "shardFor (dm_queue d) i \<notin> stuck" and "(flow_past d stuck i)\<^sup>*\<^sup>* y y'"
  shows "due y' i \<and> (\<exists>y''. flow d stuck y' y'')"
proof -
  have "due y' i \<and> (flow d stuck)\<^sup>*\<^sup>* y y'" using assms(6)
  proof (induction rule: rtranclp_induct)
    case (step a b)
    then obtain m where m: "sstep d a m b" unfolding flow_past_def flow_def by blast
    have "sreach d a" using flow_run step.IH assms(2,3) by blast
    with step sstep_due [OF m sreach_queue(2) [OF assms(1)]] have "due b i" unfolding flow_past_def by blast
    with step show ?case unfolding flow_past_def by (meson rtranclp.rtrancl_into_rtrancl)
  qed (use assms(4) in simp)
  with flow_run assms(2,3) flow_run_stops [OF assms(1)] assms(5) show ?thesis by meson
qed

section \<open>An example\<close>

text \<open>The example daemon with a live event stream: an event for one service is offered and pushed.\<close>

definition demo_sys0 :: system where
  "demo_sys0 = sys_start demo_daemon True 0 []"

definition demo_sys1 :: system where
  "demo_sys1 = demo_sys0\<lparr>sy_todo := [''app1'']\<rparr>"

definition demo_sys2 :: system where
  "demo_sys2 = demo_sys0\<lparr>sy_events := [''app1''], sy_offered := {''app1''}\<rparr>"

lemma demo_sys0_reach: "sreach demo_daemon demo_sys0"
proof -
  have "resync_list demo_daemon [] (ns_of (dm_watcher demo_daemon)) = []"
    by (simp add: resync_list_def fullList_ids demo_daemon_def demo_docker_def demo_api_def docker_ListServices_def
        listed_ids_def Let_def)
  with s_start [of demo_daemon True 0] show ?thesis by (simp add: demo_sys0_def)
qed

lemma demo_sys1_reach: "sreach demo_daemon demo_sys1"
proof -
  let ?ev = "StreamEvent \<lparr>ev_ServiceID = ''app1'', ev_Action = ''update''\<rparr>"
  have "enabled (sy_watch demo_sys0) ?ev"
    "run_turn (dm_watcher demo_daemon) ?ev (sy_watch demo_sys0) = (WOffer ''app1'', sy_watch demo_sys0)"
    by (simp_all add: demo_sys0_def sys_start_def run_start_def subscribe_def)
  from s_event [OF _ this] have "sstep demo_daemon demo_sys0 ByWatcher demo_sys1"
    by (simp add: demo_sys0_def demo_sys1_def sys_start_def)
  with demo_sys0_reach show ?thesis by (rule s_more)
qed

lemma demo_sys2_step: "sstep demo_daemon demo_sys1 ByWatcher demo_sys2"
  using s_push [of demo_sys1 "''app1''" "[]" demo_daemon]
  by (simp add: demo_sys1_def demo_sys2_def demo_sys0_def sys_start_def defaultEventChanDepth_def)

text \<open>A daemon over a swarm with one labelled service, which it has listed and offered.\<close>

definition listing_docker :: dockerAPI where
  "listing_docker = sdk_over [named_svc ''b'' ''web''] demo_docker"

definition listing_host :: host where
  "listing_host = demo_host\<lparr>ho_newClient := Inr (\<lambda>_. listing_docker)\<rparr>"

definition listing_daemon :: daemon where
  "listing_daemon = demo_daemon
     \<lparr>dm_api := (\<lambda>_. listing_docker),
      dm_reconciler := (NewReconciler (wired_env listing_host (\<lambda>_. listing_docker) (controller_of team_config) calm_env)
        team_config)\<lparr>rec_GatewayImage := ''img''\<rparr>\<rparr>"

lemma listing_daemon: "run listing_host (\<lambda>_. ([], None)) calm_env demo_environ [] = Serving listing_daemon"
  by (simp add: run_def listing_host_def demo_host_def team_load NewDocker_def DiscoverGatewayImage_def listing_daemon_def
      demo_daemon_def docker_ListTasks_def docker_InspectService_def listing_docker_def sdk_over_def demo_docker_def
      task_matches_def gatewaySpec_def Let_def)

lemma listing_ns: "ns_of (dm_watcher listing_daemon) = ''tailswarm''"
  by (simp add: listing_daemon_def demo_daemon_def ns_of_def team_config_def demo_config_def defaultConfig_def defaultNamespace_def)

lemma listing_resync: "resync_list listing_daemon tr ''tailswarm'' = [''b'']"
proof -
  let ?ids = "resync_list listing_daemon tr ''tailswarm''"
  have "set ?ids = {''b''}"
    using sdk.resync_exact [of "''tailswarm''" "[named_svc ''b'' ''web'']" demo_docker]
    by (simp add: resync_list_def listing_daemon_def listing_docker_def named_svc_def)
  moreover have "distinct ?ids" by (simp add: resync_list_def fullList_ids)
  ultimately show ?thesis by (cases ?ids; cases "tl ?ids") auto
qed

definition listing_sys :: system where
  "listing_sys = (sys_start listing_daemon True 0 [])\<lparr>sy_events := [''b''], sy_offered := {''b''}\<rparr>"

lemma listing_sys_reach: "sreach listing_daemon listing_sys"
proof -
  have "sreach listing_daemon (sys_start listing_daemon True 0 [''b''])"
    using s_start [of listing_daemon True 0] by (simp add: listing_ns listing_resync)
  moreover have "sstep listing_daemon (sys_start listing_daemon True 0 [''b'']) ByWatcher listing_sys"
    using s_push [of "sys_start listing_daemon True 0 [''b'']" "''b''" "[]" listing_daemon]
    by (simp add: listing_sys_def sys_start_def defaultEventChanDepth_def)
  ultimately show ?thesis by (rule s_more)
qed

section \<open>Properties\<close>

text \<open>
  C9: an offered service is not forgotten. From the moment the watcher has put an ID into the
  event channel, and whatever watcher, forwarder, workers and shutdown do in whatever order,
  the ID stays on its way until a worker starts a pass on it or the full queue refuses it. A pass that was
  already running when the ID was offered does not count: the mark was taken back before it started.
\<close>

theorem offered_work_not_forgotten:
  assumes "run ho gateway e env args = Serving d" and "sreach d y0"
    and "sstep d y0 ByWatcher y1" and "sy_events y1 = sy_events y0 @ [i]"
    and "(\<lambda>a b. (\<exists>m. sstep d a m b) \<and> \<not> starts i a b \<and> \<not> refuses i a b)\<^sup>*\<^sup>* y1 y"
  shows "awaited y i"
proof -
  have "sreach d y1" using s_more assms(2,3) by blast
  have "awaited y i \<and> sreach d y" using assms(5)
  proof (induction rule: rtranclp_induct)
    case base
    then show ?case using assms(4) \<open>sreach d y1\<close> by (simp add: awaited_def)
  next
    case (step a b)
    then obtain m where "sstep d a m b" by blast
    with step sstep_awaited [OF this sreach_queue(2) [OF assms(1)]] show ?case using s_more by blast
  qed
  then show ?thesis by simp
qed

theorem offered_work_not_forgotten_witness:
  "awaited (demo_sys2\<lparr>sy_events := [], sy_hand := Some ''app1''\<rparr>) ''app1''"
proof -
  let ?y = "demo_sys2\<lparr>sy_events := [], sy_hand := Some ''app1''\<rparr>"
  have "sstep demo_daemon demo_sys2 ByForwarder ?y"
    using s_take [of demo_sys2 "''app1''" "[]"] by (simp add: demo_sys2_def demo_sys0_def sys_start_def)
  moreover have "\<not> starts ''app1'' demo_sys2 ?y" "\<not> refuses ''app1'' demo_sys2 ?y"
    by (auto simp: starts_def refuses_def demo_sys2_def demo_sys0_def sys_start_def elim!: qstep.cases)
  ultimately have path: "(\<lambda>a b. (\<exists>m. sstep demo_daemon a m b) \<and> \<not> starts ''app1'' a b \<and> \<not> refuses ''app1'' a b)\<^sup>*\<^sup>* demo_sys2 ?y"
    by (blast intro: r_into_rtranclp)
  have "sy_events demo_sys2 = sy_events demo_sys1 @ [''app1'']"
    by (simp add: demo_sys2_def demo_sys1_def demo_sys0_def sys_start_def)
  from offered_work_not_forgotten [OF demo_daemon demo_sys1_reach demo_sys2_step this path] show ?thesis .
qed

text \<open>
  C6: what is on its way arrives, and a stuck worker holds up nothing but its own shard. Suppose
  some workers hang in a pass that does not return. The others, the forwarder and the watcher
  with what it has listed make at most \<open>flow_left\<close> steps, whatever their interleaving and whatever the
  passes answer; when they stop, everything the watcher listed, the event channel and the
  forwarder's hands are empty and every worker that is not stuck waits at an empty channel. As long as an
  ID of such a worker's shard is on its way, one of them can move, so it is started on, or given up
  because the event channel or its shard is full, within that many steps.
\<close>

theorem awaited_work_arrives:
  assumes "run ho gateway e env args = Serving d" and "sreach d y" and "Left \<notin> set (cf_workers (sy_conf y))"
  shows "(\<forall>n y'. (flow d stuck ^^ n) y y' \<longrightarrow> n + flow_left y' \<le> flow_left y) \<and>
    (\<forall>y'. (flow d stuck)\<^sup>*\<^sup>* y y' \<and> (\<nexists>y''. flow d stuck y' y'') \<longrightarrow>
       sy_todo y' = [] \<and> sy_events y' = [] \<and> sy_hand y' = None \<and> (\<forall>k < 8. k \<notin> stuck \<longrightarrow> idle (sy_conf y') k) \<and>
       (\<forall>i. shardFor (dm_queue d) i \<notin> stuck \<longrightarrow> \<not> due y' i)) \<and>
    (\<forall>i y'. due y i \<and> shardFor (dm_queue d) i \<notin> stuck \<and> (flow_past d stuck i)\<^sup>*\<^sup>* y y' \<longrightarrow>
       due y' i \<and> (\<exists>y''. flow d stuck y' y''))"
proof (intro conjI)
  show "\<forall>n y'. (flow d stuck ^^ n) y y' \<longrightarrow> n + flow_left y' \<le> flow_left y"
    using flow_run_bound [OF assms(1,2)] by blast
  show "\<forall>y'. (flow d stuck)\<^sup>*\<^sup>* y y' \<and> (\<nexists>y''. flow d stuck y' y'') \<longrightarrow>
       sy_todo y' = [] \<and> sy_events y' = [] \<and> sy_hand y' = None \<and> (\<forall>k < 8. k \<notin> stuck \<longrightarrow> idle (sy_conf y') k) \<and>
       (\<forall>i. shardFor (dm_queue d) i \<notin> stuck \<longrightarrow> \<not> due y' i)"
    using flow_run [OF _ assms(2,3)] flow_run_stops [OF assms(1)] by blast
  show "\<forall>i y'. due y i \<and> shardFor (dm_queue d) i \<notin> stuck \<and> (flow_past d stuck i)\<^sup>*\<^sup>* y y' \<longrightarrow>
       due y' i \<and> (\<exists>y''. flow d stuck y' y'')"
    using due_until_settled [OF assms] by blast
qed

theorem awaited_work_arrives_witness:
  "due demo_sys2 ''app1'' \<and> (\<exists>y. flow demo_daemon (- {shardFor (dm_queue demo_daemon) ''app1''}) demo_sys2 y)"
proof -
  have reach: "sreach demo_daemon demo_sys2" using demo_sys1_reach demo_sys2_step by (rule s_more)
  have L: "Left \<notin> set (cf_workers (sy_conf demo_sys2))" by (simp add: demo_sys2_def demo_sys0_def sys_start_def)
  have "due demo_sys2 ''app1''" by (simp add: due_def awaited_def demo_sys2_def)
  with awaited_work_arrives [OF demo_daemon reach L, of "- {shardFor (dm_queue demo_daemon) ''app1''}"] show ?thesis
    by blast
qed

text \<open>
  C32: the periodic resync delays work, it does not lose it. Whatever has been dropped before and
  whichever workers are stuck, a tick of the watcher between two of its turns can take place; it then
  has to offer every service whose ingress or egress label is \<^verbatim>\<open>true\<close> when Docker lists them, and each
  of these that belongs to the shard of a worker that is not stuck is started on, or given up because the
  event channel or its shard is full, within \<open>flow_left\<close> steps of watcher, forwarder and workers.
\<close>

theorem resync_delivers:
  assumes "run ho gateway e env args = Serving d" and "sreach d y" and "sy_todo y = []"
    and "Left \<notin> set (cf_workers (sy_conf y))"
    and "\<And>n. nm n n"
    and "\<And>args. api_ServiceList (dm_api d (rs_trace (sy_rs y))) args =
           Inr (filter (\<lambda>s. list_all (\<lambda>a. arg_ok nm a s) args) db)"
    and "CHR ''='' \<notin> set (ns_of (dm_watcher d))"
    and "svc \<in> set db" and "svc_ID svc \<noteq> []"
    and "map_of (ss_Labels (svc_Spec svc)) (ns_of (dm_watcher d) @ ''.enable'') = Some ''true'' \<or>
         map_of (ss_Labels (svc_Spec svc)) (ns_of (dm_watcher d) @ ''.egress.enable'') = Some ''true''"
    and "shardFor (dm_queue d) (svc_ID svc) \<notin> stuck"
  shows "let y1 = y\<lparr>sy_todo := resync_list d (rs_trace (sy_rs y)) (ns_of (dm_watcher d))\<rparr>
    in sstep d y ByWatcher y1 \<and> due y1 (svc_ID svc) \<and>
       (\<forall>n y'. (flow d stuck ^^ n) y1 y' \<longrightarrow> n \<le> flow_left y1) \<and>
       (\<forall>y'. (flow_past d stuck (svc_ID svc))\<^sup>*\<^sup>* y1 y' \<longrightarrow> due y' (svc_ID svc) \<and> (\<exists>y''. flow d stuck y' y''))"
proof -
  let ?y1 = "y\<lparr>sy_todo := resync_list d (rs_trace (sy_rs y)) (ns_of (dm_watcher d))\<rparr>"
  have tick: "sstep d y ByWatcher ?y1"
    using s_resync [OF assms(3), of Tick d "ns_of (dm_watcher d)" "sy_watch y"] by simp
  then have reach: "sreach d ?y1" using s_more assms(2) by blast
  have due1: "due ?y1 (svc_ID svc)"
    using docker_sdk.resync_exact [OF docker_sdk.intro [of nm, OF assms(5,6)] assms(7)] assms(8-10)
    unfolding due_def resync_list_def by auto
  have "Left \<notin> set (cf_workers (sy_conf ?y1))" using assms(4) by simp
  from due_until_settled [OF assms(1) reach this due1 assms(11)] flow_run_bound [OF assms(1) reach]
  show ?thesis using tick due1 unfolding Let_def by (meson add_leD1)
qed

theorem resync_delivers_witness:
  "\<exists>y. flow listing_daemon (- {shardFor (dm_queue listing_daemon) ''b''})
     (listing_sys\<lparr>sy_todo := resync_list listing_daemon (rs_trace (sy_rs listing_sys)) (ns_of (dm_watcher listing_daemon))\<rparr>) y"
proof -
  let ?svc = "named_svc ''b'' ''web''"
  have api: "dm_api listing_daemon tr = sdk_over [?svc] demo_docker" for tr by (simp add: listing_daemon_def listing_docker_def)
  have sys: "sy_todo listing_sys = []" "Left \<notin> set (cf_workers (sy_conf listing_sys))"
    by (simp_all add: listing_sys_def sys_start_def)
  note tick = resync_delivers [OF listing_daemon listing_sys_reach sys, where nm = "\<lambda>p n. str_index n p \<noteq> None"
      and db = "[?svc]" and svc = ?svc and stuck = "- {shardFor (dm_queue listing_daemon) ''b''}", unfolded api Let_def]
  show ?thesis
    using tick str_index_self by (simp add: sdk_over_def named_svc_def listing_ns)
qed

end
