(* ===== verification/Forward.thy ===== *)
theory Forward
  imports Prelude
begin

text \<open>
  The data path shared by both directions, \<^verbatim>\<open>acceptLoop\<close> and \<^verbatim>\<open>forwardTCP\<close> of
  \<^verbatim>\<open>internal/tailswarm/proxy.go\<close>. One forwarded connection is four goroutines: \<^verbatim>\<open>forwardTCP\<close>
  itself, the watchdog that closes both ends when the connection's context is done, and the
  two \<^verbatim>\<open>io.Copy\<close> pumps. Their interleaving with the two peers and with the proxy's
  cancellation is a step relation.
\<close>

section \<open>Definitions\<close>

text \<open>\<^verbatim>\<open>acceptLoop\<close>, over the answers of \<^verbatim>\<open>Accept\<close>: the connections it spawned a forwarder for, and
  whether it has returned. It leaves at the first error, cancelled or not.\<close>

fun acceptLoop :: "('e + 'c) list \<Rightarrow> 'c list \<times> bool" where
  "acceptLoop [] = ([], False)"
| "acceptLoop (Inl _ # _) = ([], True)"
| "acceptLoop (Inr conn # rest) = (case acceptLoop rest of (cs, left) \<Rightarrow> (conn # cs, left))"

datatype phase = Dialing | Pumping | Over
datatype watchdog = NotStarted | Parked | Fired

text \<open>
  One side of a connection: whether our end is open, whether its peer hung up (so that a read
  returns, with or without an error), what the peer has sent and what it was given.
\<close>

record side =
  sd_open :: bool
  sd_eof :: bool
  sd_sent :: string
  sd_given :: string

text \<open>The pumps are named by the side they read from; \<open>fw_done\<close> says that \<^verbatim>\<open>done()\<close> was called,
  \<open>fw_half\<close> is the content of the channel \<^verbatim>\<open>half\<close>, with room for two.\<close>

record fwd =
  fw_phase :: phase
  fw_ctx :: bool
  fw_done :: bool
  fw_watch :: watchdog
  fw_conn :: side
  fw_up :: side
  fw_pump_conn :: bool
  fw_pump_up :: bool
  fw_half :: nat

definition fresh_side :: "bool \<Rightarrow> side" where
  "fresh_side opn = \<lparr>sd_open = opn, sd_eof = False, sd_sent = [], sd_given = []\<rparr>"

definition fwd_start :: fwd where
  "fwd_start =
     \<lparr>fw_phase = Dialing, fw_ctx = False, fw_done = False, fw_watch = NotStarted,
      fw_conn = fresh_side True, fw_up = fresh_side False,
      fw_pump_conn = False, fw_pump_up = False, fw_half = 0\<rparr>"

text \<open>What a pump from \<open>src\<close> to \<open>dst\<close> has still to move, and when it can return: its read ends
  because the peer hung up or our end is closed, or its write fails on a closed end.\<close>

definition waiting :: "side \<Rightarrow> side \<Rightarrow> string" where
  "waiting src dst = drop (length (sd_given dst)) (sd_sent src)"

definition pump_can_stop :: "side \<Rightarrow> side \<Rightarrow> bool" where
  "pump_can_stop src dst \<longleftrightarrow>
     sd_eof src \<or> \<not> sd_open src \<or> (\<not> sd_open dst \<and> waiting src dst \<noteq> [])"

definition shut :: "side \<Rightarrow> side" where
  "shut s = s\<lparr>sd_open := False\<rparr>"

text \<open>The deferred calls of \<^verbatim>\<open>forwardTCP\<close> after the dial: cancel, then close both ends.\<close>

definition unwind :: "fwd \<Rightarrow> fwd" where
  "unwind f = f\<lparr>fw_phase := Over, fw_done := True, fw_up := shut (fw_up f), fw_conn := shut (fw_conn f)\<rparr>"

inductive fstep :: "fwd \<Rightarrow> fwd \<Rightarrow> bool" where
  dial_failed: "fw_phase f = Dialing \<Longrightarrow> fstep f (f\<lparr>fw_phase := Over, fw_conn := shut (fw_conn f)\<rparr>)"
| dialed: "fw_phase f = Dialing \<Longrightarrow>
    fstep f (f\<lparr>fw_phase := Pumping, fw_up := fresh_side True, fw_watch := Parked,
               fw_pump_conn := True, fw_pump_up := True\<rparr>)"
| cancelled: "fstep f (f\<lparr>fw_ctx := True\<rparr>)"
| watch_fires: "fw_watch f = Parked \<Longrightarrow> fw_ctx f \<or> fw_done f \<Longrightarrow>
    fstep f (f\<lparr>fw_watch := Fired, fw_conn := shut (fw_conn f), fw_up := shut (fw_up f)\<rparr>)"
| conn_sends: "\<not> sd_eof (fw_conn f) \<Longrightarrow>
    fstep f (f\<lparr>fw_conn := (fw_conn f)\<lparr>sd_sent := sd_sent (fw_conn f) @ bs\<rparr>\<rparr>)"
| up_sends: "fw_phase f \<noteq> Dialing \<Longrightarrow> \<not> sd_eof (fw_up f) \<Longrightarrow>
    fstep f (f\<lparr>fw_up := (fw_up f)\<lparr>sd_sent := sd_sent (fw_up f) @ bs\<rparr>\<rparr>)"
| conn_hangs_up: "fstep f (f\<lparr>fw_conn := (fw_conn f)\<lparr>sd_eof := True\<rparr>\<rparr>)"
| up_hangs_up: "fw_phase f \<noteq> Dialing \<Longrightarrow> fstep f (f\<lparr>fw_up := (fw_up f)\<lparr>sd_eof := True\<rparr>\<rparr>)"
| copy_to_up: "fw_pump_conn f \<Longrightarrow> sd_open (fw_conn f) \<Longrightarrow> sd_open (fw_up f) \<Longrightarrow>
    waiting (fw_conn f) (fw_up f) = bs @ rest \<Longrightarrow>
    fstep f (f\<lparr>fw_up := (fw_up f)\<lparr>sd_given := sd_given (fw_up f) @ bs\<rparr>\<rparr>)"
| copy_to_conn: "fw_pump_up f \<Longrightarrow> sd_open (fw_up f) \<Longrightarrow> sd_open (fw_conn f) \<Longrightarrow>
    waiting (fw_up f) (fw_conn f) = bs @ rest \<Longrightarrow>
    fstep f (f\<lparr>fw_conn := (fw_conn f)\<lparr>sd_given := sd_given (fw_conn f) @ bs\<rparr>\<rparr>)"
| pump_conn_stops: "fw_pump_conn f \<Longrightarrow> pump_can_stop (fw_conn f) (fw_up f) \<Longrightarrow> fw_half f < 2 \<Longrightarrow>
    fstep f (f\<lparr>fw_pump_conn := False, fw_half := Suc (fw_half f)\<rparr>)"
| pump_up_stops: "fw_pump_up f \<Longrightarrow> pump_can_stop (fw_up f) (fw_conn f) \<Longrightarrow> fw_half f < 2 \<Longrightarrow>
    fstep f (f\<lparr>fw_pump_up := False, fw_half := Suc (fw_half f)\<rparr>)"
| half_received: "fw_phase f = Pumping \<Longrightarrow> fw_half f = Suc n \<Longrightarrow> fstep f (unwind (f\<lparr>fw_half := n\<rparr>))"

inductive_cases fstepE: "fstep f f'"

abbreviation freach :: "fwd \<Rightarrow> bool" where
  "freach f \<equiv> fstep\<^sup>*\<^sup>* fwd_start f"

section \<open>The invariant\<close>

text \<open>The goroutines that have not returned yet: \<^verbatim>\<open>forwardTCP\<close>, the watchdog, the pumps.\<close>

definition alive :: "fwd \<Rightarrow> nat" where
  "alive f =
     (case fw_phase f of Dialing \<Rightarrow> 4 | Pumping \<Rightarrow> 1 | Over \<Rightarrow> 0) +
     (if fw_watch f = Parked then 1 else 0) +
     (if fw_pump_conn f then 1 else 0) + (if fw_pump_up f then 1 else 0)"

definition finv :: "fwd \<Rightarrow> bool" where
  "finv f \<longleftrightarrow>
     (\<exists>r. sd_sent (fw_conn f) = sd_given (fw_up f) @ r) \<and> (\<exists>r. sd_sent (fw_up f) = sd_given (fw_conn f) @ r) \<and>
     (fw_phase f = Dialing \<longrightarrow> \<not> sd_open (fw_up f) \<and> fw_half f = 0 \<and> \<not> fw_pump_conn f \<and> \<not> fw_pump_up f \<and> fw_watch f = NotStarted \<and>
        sd_given (fw_conn f) = [] \<and> sd_given (fw_up f) = [] \<and> sd_sent (fw_up f) = []) \<and>
     (fw_phase f = Pumping \<longrightarrow>
        fw_half f + (if fw_pump_conn f then 1 else 0) + (if fw_pump_up f then 1 else 0) = 2 \<and>
        (fw_watch f = Fired \<longrightarrow> \<not> sd_open (fw_conn f) \<and> \<not> sd_open (fw_up f)) \<and> fw_watch f \<noteq> NotStarted) \<and>
     (fw_phase f = Over \<longrightarrow> \<not> sd_open (fw_conn f) \<and> \<not> sd_open (fw_up f) \<and>
        fw_half f + (if fw_pump_conn f then 1 else 0) + (if fw_pump_up f then 1 else 0) \<le> 1 \<and>
        (fw_watch f = NotStarted \<or> fw_done f))"

lemma finv_start: "finv fwd_start"
  by (simp add: finv_def fwd_start_def fresh_side_def)

lemmas fwd_defs = fresh_side_def shut_def unwind_def waiting_def

lemma waiting_prefix:
  assumes "waiting src dst = bs @ rest" and "sd_sent src = sd_given dst @ r"
  shows "\<exists>r'. sd_sent src = (sd_given dst @ bs) @ r'"
  using assms by (auto simp: waiting_def)

lemma finv_step: "fstep f f' \<Longrightarrow> finv f \<Longrightarrow> finv f'"
proof (induction rule: fstep.induct)
  case (copy_to_up f bs rest)
  then show ?case using waiting_prefix [OF copy_to_up(4)] by (cases "fw_phase f") (auto simp: finv_def)
next
  case (copy_to_conn f bs rest)
  then show ?case using waiting_prefix [OF copy_to_conn(4)] by (cases "fw_phase f") (auto simp: finv_def)
next
  case (conn_sends f bs)
  then show ?case by (auto simp: finv_def)
next
  case (up_sends f bs)
  then show ?case by (auto simp: finv_def)
next
  case (pump_conn_stops f)
  then show ?case by (cases "fw_phase f") (auto simp: finv_def)
next
  case (pump_up_stops f)
  then show ?case by (cases "fw_phase f") (auto simp: finv_def)
next
  case (half_received f n)
  then show ?case by (auto simp: finv_def unwind_def shut_def)
qed (auto simp: finv_def fwd_defs)

lemma freach_inv: "freach f \<Longrightarrow> finv f"
  by (induction rule: rtranclp_induct) (auto intro: finv_start finv_step)

section \<open>Winding down\<close>

text \<open>Something has happened that ends the connection.\<close>

definition ending :: "fwd \<Rightarrow> bool" where
  "ending f \<longleftrightarrow> fw_ctx f \<or> sd_eof (fw_conn f) \<or> sd_eof (fw_up f) \<or> fw_phase f = Over \<or>
     (fw_phase f = Pumping \<and> 0 < fw_half f)"

definition returns_one :: "fwd \<Rightarrow> bool" where
  "returns_one f \<longleftrightarrow> (\<exists>f'. fstep f f' \<and> alive f' < alive f \<and> ending f')"

lemma conn_pump_returns:
  assumes "fw_pump_conn f" and "pump_can_stop (fw_conn f) (fw_up f)" and "fw_half f < 2"
    and "fw_phase f \<noteq> Dialing"
  shows "returns_one f"
proof -
  let ?f = "f\<lparr>fw_pump_conn := False, fw_half := Suc (fw_half f)\<rparr>"
  have "alive ?f < alive f" "ending ?f"
    using assms by (cases "fw_phase f"; simp add: alive_def ending_def)+
  with pump_conn_stops [OF assms(1-3)] show ?thesis unfolding returns_one_def by blast
qed

lemma up_pump_returns:
  assumes "fw_pump_up f" and "pump_can_stop (fw_up f) (fw_conn f)" and "fw_half f < 2"
    and "fw_phase f \<noteq> Dialing"
  shows "returns_one f"
proof -
  let ?f = "f\<lparr>fw_pump_up := False, fw_half := Suc (fw_half f)\<rparr>"
  have "alive ?f < alive f" "ending ?f"
    using assms by (cases "fw_phase f"; simp add: alive_def ending_def)+
  with pump_up_stops [OF assms(1-3)] show ?thesis unfolding returns_one_def by blast
qed

lemma watchdog_returns:
  assumes "fw_watch f = Parked" and "fw_ctx f \<or> fw_done f" and "ending f"
  shows "returns_one f"
proof -
  let ?f = "f\<lparr>fw_watch := Fired, fw_conn := shut (fw_conn f), fw_up := shut (fw_up f)\<rparr>"
  have "alive ?f < alive f" using assms by (simp add: alive_def)
  moreover have "ending ?f" using assms(3) by (simp add: ending_def shut_def)
  ultimately show ?thesis using watch_fires [OF assms(1,2)] unfolding returns_one_def by blast
qed

lemma forward_returns:
  assumes "fw_phase f = Pumping" and "0 < fw_half f"
  shows "returns_one f"
proof -
  obtain n where n: "fw_half f = Suc n" using assms(2) gr0_implies_Suc by blast
  have "alive (unwind (f\<lparr>fw_half := n\<rparr>)) < alive f" "ending (unwind (f\<lparr>fw_half := n\<rparr>))"
    using assms(1) by (simp_all add: alive_def ending_def unwind_def)
  with half_received [OF assms(1) n] show ?thesis unfolding returns_one_def by blast
qed

lemma dial_returns:
  assumes "fw_phase f = Dialing"
  shows "returns_one f"
proof -
  let ?f = "f\<lparr>fw_phase := Over, fw_conn := shut (fw_conn f)\<rparr>"
  have "alive ?f < alive f" "ending ?f" using assms by (simp_all add: alive_def ending_def)
  with dial_failed [OF assms] show ?thesis unfolding returns_one_def by blast
qed

text \<open>As long as a goroutine is left, one of them can take a step towards its end.\<close>

lemma winds_down:
  assumes inv: "finv f" and "ending f" and "0 < alive f"
  shows "returns_one f"
proof (cases "fw_phase f")
  case Dialing
  then show ?thesis by (rule dial_returns)
next
  case Pumping
  show ?thesis
  proof (cases "fw_half f = 0")
    case True
    with Pumping inv have pumps: "fw_pump_conn f" "fw_pump_up f" by (auto simp: finv_def split: if_splits)
    consider "pump_can_stop (fw_conn f) (fw_up f)" | "pump_can_stop (fw_up f) (fw_conn f)"
      | "fw_ctx f" "fw_watch f = Parked"
      using assms(1,2) Pumping True by (cases "fw_watch f") (auto simp: ending_def finv_def pump_can_stop_def)
    then show ?thesis
      by cases (use Pumping pumps True assms(2) in
        \<open>auto intro: conn_pump_returns up_pump_returns watchdog_returns\<close>)
  qed (use Pumping forward_returns in blast)
next
  case Over
  with inv have cl: "pump_can_stop (fw_conn f) (fw_up f)" "pump_can_stop (fw_up f) (fw_conn f)" "fw_half f < 2"
    and w: "fw_watch f = NotStarted \<or> fw_done f" by (auto simp: finv_def pump_can_stop_def)
  consider "fw_pump_conn f" | "fw_pump_up f" | "fw_watch f = Parked"
    using assms(3) Over by (auto simp: alive_def split: if_splits)
  then show ?thesis
    by cases (use Over cl w assms(2) in \<open>auto intro: conn_pump_returns up_pump_returns watchdog_returns\<close>)
qed

lemma all_return:
  "finv f \<Longrightarrow> ending f \<Longrightarrow> \<exists>f'. fstep\<^sup>*\<^sup>* f f' \<and> alive f' = 0 \<and> finv f'"
proof (induction "alive f" arbitrary: f rule: less_induct)
  case less
  show ?case
  proof (cases "alive f = 0")
    case False
    then obtain f1 where f1: "fstep f f1" "alive f1 < alive f" "ending f1"
      using winds_down less.prems unfolding returns_one_def by blast
    with less finv_step obtain f' where "fstep\<^sup>*\<^sup>* f1 f'" "alive f' = 0" "finv f'" by blast
    with f1(1) show ?thesis by (meson converse_rtranclp_into_rtranclp)
  qed (use less.prems in blast)
qed

lemma alive_antimono: "fstep f f' \<Longrightarrow> finv f \<Longrightarrow> alive f' \<le> alive f"
  by (induction rule: fstep.induct) (auto simp: alive_def finv_def unwind_def)

section \<open>Properties\<close>


definition demo_fwd :: fwd where
  "demo_fwd = fwd_start\<lparr>fw_phase := Over, fw_conn := shut (fw_conn fwd_start)\<rparr>"

lemma demo_fwd: "freach demo_fwd"
  unfolding demo_fwd_def by (rule r_into_rtranclp, rule dial_failed) (simp add: fwd_start_def)


text \<open>
  No goroutine is left behind. From the moment the proxy is cancelled, a peer hangs up, a pump
  has stopped or \<^verbatim>\<open>forwardTCP\<close> has returned, no step starts a goroutine, as long as one is left
  one of them can return, and the connection can always run down to the state where all four
  have returned and both ends are closed.
\<close>

theorem forward_winds_down:
  assumes "freach f" and "ending f"
  shows "(\<forall>f'. fstep f f' \<longrightarrow> alive f' \<le> alive f) \<and>
    (0 < alive f \<longrightarrow> (\<exists>f'. fstep f f' \<and> alive f' < alive f)) \<and>
    (\<exists>f'. fstep\<^sup>*\<^sup>* f f' \<and> alive f' = 0 \<and> \<not> sd_open (fw_conn f') \<and> \<not> sd_open (fw_up f'))"
proof (intro conjI)
  have inv: "finv f" using assms(1) by (rule freach_inv)
  then show "\<forall>f'. fstep f f' \<longrightarrow> alive f' \<le> alive f" by (auto dest: alive_antimono)
  show "0 < alive f \<longrightarrow> (\<exists>f'. fstep f f' \<and> alive f' < alive f)"
    using winds_down [OF inv assms(2)] unfolding returns_one_def by blast
  obtain f' where f': "fstep\<^sup>*\<^sup>* f f'" "alive f' = 0" "finv f'" using all_return [OF inv assms(2)] by blast
  then have "fw_phase f' = Over" by (cases "fw_phase f'") (auto simp: alive_def)
  with f' show "\<exists>f'. fstep\<^sup>*\<^sup>* f f' \<and> alive f' = 0 \<and> \<not> sd_open (fw_conn f') \<and> \<not> sd_open (fw_up f')"
    by (auto simp: finv_def)
qed

definition demo_cancelled :: fwd where
  "demo_cancelled = fwd_start\<lparr>fw_ctx := True\<rparr>"

theorem forward_winds_down_witness:
  "\<exists>f'. fstep\<^sup>*\<^sup>* demo_cancelled f' \<and> alive f' = 0 \<and> \<not> sd_open (fw_conn f')"
proof -
  have "freach demo_cancelled" unfolding demo_cancelled_def by (rule r_into_rtranclp, rule cancelled)
  moreover have "ending demo_cancelled" by (simp add: ending_def demo_cancelled_def)
  ultimately show ?thesis using forward_winds_down by blast
qed

end
