(* ===== verification/Proxy_Run.thy ===== *)
theory Proxy_Run
  imports Forward
begin

text \<open>
  A running proxy as a whole, from \<^verbatim>\<open>startProxyOn\<close> or \<^verbatim>\<open>startEgressProxyWith\<close> to the end of
  \<^verbatim>\<open>Close\<close>: its listeners, its accept loops, the connections they spawn forwarders for (each as in
  theory \<open>Forward\<close>), the cancellation of its context, and the three parts of \<^verbatim>\<open>Close\<close>. The two
  data planes differ in who closes the listeners: the tailnet listeners of ingress are closed by
  \<^verbatim>\<open>srv.Close\<close>, the overlay listeners of egress by one goroutine each when the context is done.
\<close>

section \<open>Definitions\<close>

datatype plane = IngressPlane | EgressPlane

text \<open>How far \<^verbatim>\<open>Close\<close> has got: not called, \<^verbatim>\<open>p.cancel()\<close> done, \<^verbatim>\<open>p.srv.Close()\<close> done, returned.\<close>

datatype close_phase = Serving | CtxCancelled | SrvClosed | Returned

text \<open>Per port: whether its listener is open and whether its accept loop, counted by \<^verbatim>\<open>p.wg\<close>, runs.\<close>

record prun =
  pn_ctx :: bool
  pn_close :: close_phase
  pn_listeners :: "bool list"
  pn_loops :: "bool list"
  pn_conns :: "fwd list"

definition pn_start :: "nat \<Rightarrow> prun" where
  "pn_start n =
     \<lparr>pn_ctx = False, pn_close = Serving, pn_listeners = replicate n True, pn_loops = replicate n True, pn_conns = []\<rparr>"

text \<open>The context of a connection is the proxy's, so the cancellation reaches all of them.\<close>

definition cancel_all :: "prun \<Rightarrow> prun" where
  "cancel_all p = p\<lparr>pn_ctx := True, pn_conns := map (\<lambda>f. f\<lparr>fw_ctx := True\<rparr>) (pn_conns p)\<rparr>"

text \<open>The steps of \<^verbatim>\<open>Close\<close> after the cancellation and of the goroutines it makes return.\<close>

inductive cstep :: "plane \<Rightarrow> prun \<Rightarrow> prun \<Rightarrow> bool" for k where
  srv_close: "pn_close p = CtxCancelled \<Longrightarrow>
    cstep k p (p\<lparr>pn_close := SrvClosed,
      pn_listeners := (if k = IngressPlane then map (\<lambda>_. False) (pn_listeners p) else pn_listeners p)\<rparr>)"
| listener_closer: "k = EgressPlane \<Longrightarrow> pn_ctx p \<Longrightarrow> i < length (pn_listeners p) \<Longrightarrow> pn_listeners p ! i \<Longrightarrow>
    cstep k p (p\<lparr>pn_listeners := (pn_listeners p)[i := False]\<rparr>)"
| accept_closed: "i < length (pn_loops p) \<Longrightarrow> pn_loops p ! i \<Longrightarrow> \<not> pn_listeners p ! i \<Longrightarrow>
    cstep k p (p\<lparr>pn_loops := (pn_loops p)[i := False]\<rparr>)"
| join: "pn_close p = SrvClosed \<Longrightarrow> True \<notin> set (pn_loops p) \<Longrightarrow> cstep k p (p\<lparr>pn_close := Returned\<rparr>)"

inductive pstep :: "plane \<Rightarrow> prun \<Rightarrow> prun \<Rightarrow> bool" for k where
  closing: "cstep k p p' \<Longrightarrow> pstep k p p'"
| close_called: "pn_close p = Serving \<Longrightarrow> pstep k p ((cancel_all p)\<lparr>pn_close := CtxCancelled\<rparr>)"
| parent_cancelled: "pstep k p (cancel_all p)"
| accept_conn: "i < length (pn_loops p) \<Longrightarrow> pn_loops p ! i \<Longrightarrow> pn_listeners p ! i \<Longrightarrow>
    pstep k p (p\<lparr>pn_conns := pn_conns p @ [fwd_start\<lparr>fw_ctx := pn_ctx p\<rparr>]\<rparr>)"
| accept_error: "i < length (pn_loops p) \<Longrightarrow> pn_loops p ! i \<Longrightarrow>
    pstep k p (p\<lparr>pn_loops := (pn_loops p)[i := False]\<rparr>)"
| conn_step: "j < length (pn_conns p) \<Longrightarrow> fstep (pn_conns p ! j) f \<Longrightarrow> fw_ctx f = fw_ctx (pn_conns p ! j) \<Longrightarrow>
    pstep k p (p\<lparr>pn_conns := (pn_conns p)[j := f]\<rparr>)"

abbreviation preach :: "plane \<Rightarrow> nat \<Rightarrow> prun \<Rightarrow> bool" where
  "preach k n p \<equiv> (pstep k)\<^sup>*\<^sup>* (pn_start n) p"

section \<open>The invariant\<close>

definition pinv :: "plane \<Rightarrow> prun \<Rightarrow> bool" where
  "pinv k p \<longleftrightarrow>
     length (pn_loops p) = length (pn_listeners p) \<and>
     (\<forall>f \<in> set (pn_conns p). freach f \<and> fw_ctx f = pn_ctx p) \<and>
     (pn_close p \<noteq> Serving \<longrightarrow> pn_ctx p) \<and>
     (k = IngressPlane \<and> pn_close p \<in> {SrvClosed, Returned} \<longrightarrow> True \<notin> set (pn_listeners p)) \<and>
     (pn_close p = Returned \<longrightarrow> True \<notin> set (pn_loops p))"

lemma pinv_start: "pinv k (pn_start n)"
  by (simp add: pinv_def pn_start_def)

lemma freach_cancelled: "freach f \<Longrightarrow> freach (f\<lparr>fw_ctx := True\<rparr>)"
  by (erule rtranclp.rtrancl_into_rtrancl) (rule cancelled)

lemma pinv_cancel_all: "pinv k p \<Longrightarrow> pinv k (cancel_all p)"
  by (auto simp: pinv_def cancel_all_def freach_cancelled)

lemma not_in_set_update: "x \<notin> set xs \<Longrightarrow> x \<noteq> y \<Longrightarrow> x \<notin> set (xs[i := y])"
  by (auto dest!: set_update_subset_insert [THEN subsetD])

lemma pinv_cstep: "cstep k p p' \<Longrightarrow> pinv k p \<Longrightarrow> pinv k p'"
  by (induction rule: cstep.induct) (auto simp: pinv_def not_in_set_update)

lemma pinv_conn:
  assumes "pinv k p" and "j < length (pn_conns p)" and "fstep (pn_conns p ! j) f" and "fw_ctx f = fw_ctx (pn_conns p ! j)"
  shows "pinv k (p\<lparr>pn_conns := (pn_conns p)[j := f]\<rparr>)"
proof -
  have "freach (pn_conns p ! j) \<and> fw_ctx (pn_conns p ! j) = pn_ctx p" using assms(1,2) by (simp add: pinv_def)
  with assms(3,4) have "freach f \<and> fw_ctx f = pn_ctx p" by (auto intro: rtranclp.rtrancl_into_rtrancl)
  with assms(1) show ?thesis by (auto simp: pinv_def dest!: set_update_subset_insert [THEN subsetD])
qed

lemma freach_accepted: "freach (fwd_start\<lparr>fw_ctx := c\<rparr>)"
  by (cases c) (use freach_cancelled [of fwd_start] in \<open>auto simp: fwd_start_def\<close>)

lemma pinv_step: "pstep k p p' \<Longrightarrow> pinv k p \<Longrightarrow> pinv k p'"
proof (induction rule: pstep.induct)
  case (closing p p')
  then show ?case by (rule pinv_cstep)
next
  case (close_called p)
  then have "pinv k (cancel_all p)" by (intro pinv_cancel_all)
  then show ?case by (simp add: pinv_def) (simp add: cancel_all_def)
next
  case (parent_cancelled p)
  then show ?case by (rule pinv_cancel_all)
next
  case (accept_conn i p)
  then show ?case by (simp add: pinv_def freach_accepted)
next
  case (accept_error i p)
  then show ?case by (simp add: pinv_def not_in_set_update)
next
  case (conn_step j p f)
  then show ?case by (intro pinv_conn)
qed

lemma preach_inv: "preach k n p \<Longrightarrow> pinv k p"
  by (induction rule: rtranclp_induct) (auto intro: pinv_start pinv_step)

section \<open>Closing\<close>

text \<open>The steps \<^verbatim>\<open>Close\<close> and the goroutines it waits for have left.\<close>

definition close_left :: "prun \<Rightarrow> nat" where
  "close_left p =
     (case pn_close p of CtxCancelled \<Rightarrow> 2 | SrvClosed \<Rightarrow> 1 | _ \<Rightarrow> 0) +
     count_list (pn_listeners p) True + count_list (pn_loops p) True"

lemma count_switched_off: "i < length xs \<Longrightarrow> xs ! i \<Longrightarrow> Suc (count_list (xs[i := False]) True) = count_list xs True"
  by (induction xs arbitrary: i) (auto split: nat.splits simp: nth_Cons)

lemma count_all_off: "count_list (map (\<lambda>_. False) xs) True = 0"
  by (induction xs) auto

lemma cstep_decreases: "cstep k p p' \<Longrightarrow> close_left p' < close_left p"
  by (induction rule: cstep.induct)
    (auto simp: close_left_def count_all_off count_list_0_iff simp flip: count_switched_off)

lemma cstep_closing: "cstep k p p' \<Longrightarrow> pn_close p \<noteq> Serving \<Longrightarrow> pn_close p' \<noteq> Serving"
  by (induction rule: cstep.induct) auto

lemma cstep_possible:
  assumes "pinv k p" and "pn_close p \<noteq> Serving"
    and "pn_close p \<noteq> Returned \<or> True \<in> set (pn_listeners p)"
  shows "\<exists>p'. cstep k p p'"
proof (cases "pn_close p = CtxCancelled")
  case True
  then show ?thesis using srv_close by blast
next
  case False
  have ctx: "pn_ctx p" and len: "length (pn_loops p) = length (pn_listeners p)" using assms(1,2) by (simp_all add: pinv_def)
  show ?thesis
  proof (cases "True \<in> set (pn_listeners p)")
    case True
    then obtain i where "i < length (pn_listeners p)" "pn_listeners p ! i" by (metis in_set_conv_nth)
    moreover have "k = EgressPlane"
      using True False assms by (cases k; cases "pn_close p") (auto simp: pinv_def)
    ultimately show ?thesis using listener_closer ctx by blast
  next
    case no_listener: False
    then have sc: "pn_close p = SrvClosed" using False assms(2,3) by (cases "pn_close p") auto
    show ?thesis
    proof (cases "True \<in> set (pn_loops p)")
      case True
      then obtain i where "i < length (pn_loops p)" "pn_loops p ! i" by (metis in_set_conv_nth)
      moreover from this have "\<not> pn_listeners p ! i" using no_listener len by (metis nth_mem)
      ultimately show ?thesis using accept_closed by blast
    qed (use sc join in blast)
  qed
qed

lemma close_completes:
  assumes "pinv k p" and "pn_close p \<noteq> Serving"
  shows "\<exists>p'. (cstep k)\<^sup>*\<^sup>* p p' \<and> pn_close p' = Returned"
  using assms
proof (induction "close_left p" arbitrary: p rule: less_induct)
  case less
  show ?case
  proof (cases "pn_close p = Returned")
    case False
    then obtain p1 where p1: "cstep k p p1" using cstep_possible less.prems by blast
    with less obtain p' where "(cstep k)\<^sup>*\<^sup>* p1 p'" "pn_close p' = Returned"
      using cstep_decreases pinv_cstep cstep_closing by blast
    with p1 show ?thesis by (meson converse_rtranclp_into_rtranclp)
  qed blast
qed

lemma returned_accepts_nothing:
  assumes "pinv k p" and "pn_close p = Returned" and "pstep k p p'"
  shows "pn_close p' = Returned \<and> length (pn_conns p') = length (pn_conns p)"
proof -
  have "True \<notin> set (pn_loops p)" using assms(1,2) by (simp add: pinv_def)
  then have "\<not> pn_loops p ! i" if "i < length (pn_loops p)" for i using that by (metis nth_mem)
  with assms(2,3) show ?thesis
    by (auto simp: cancel_all_def elim!: pstep.cases cstep.cases)
qed

section \<open>Running the connections down\<close>

lemma fstep_ctx: "fstep f f' \<Longrightarrow> fw_ctx f \<Longrightarrow> fw_ctx f'"
  by (induction rule: fstep.induct) (auto simp: unwind_def)

lemma conn_runs:
  assumes "fstep\<^sup>*\<^sup>* (pn_conns p ! j) f" and "fw_ctx (pn_conns p ! j)" and "j < length (pn_conns p)"
  shows "(pstep k)\<^sup>*\<^sup>* p (p\<lparr>pn_conns := (pn_conns p)[j := f]\<rparr>) \<and> fw_ctx f"
  using assms
proof (induction rule: rtranclp_induct)
  case (step f f')
  let ?p = "p\<lparr>pn_conns := (pn_conns p)[j := f]\<rparr>"
  have "pstep k ?p (?p\<lparr>pn_conns := (pn_conns ?p)[j := f']\<rparr>)"
    using step fstep_ctx by (intro conn_step) auto
  with step show ?case using fstep_ctx by (auto intro: rtranclp.rtrancl_into_rtrancl)
qed simp

definition quiet :: "fwd \<Rightarrow> bool" where
  "quiet f \<longleftrightarrow> alive f = 0 \<and> \<not> sd_open (fw_conn f) \<and> \<not> sd_open (fw_up f)"

lemma cancelled_runs_down:
  assumes "freach f" and "fw_ctx f"
  shows "\<exists>f'. fstep\<^sup>*\<^sup>* f f' \<and> quiet f'"
proof -
  have "ending f" using assms(2) by (simp add: ending_def)
  then obtain f' where f': "fstep\<^sup>*\<^sup>* f f'" "alive f' = 0" "finv f'"
    using all_return freach_inv [OF assms(1)] by blast
  then have "fw_phase f' = Over" by (cases "fw_phase f'") (auto simp: alive_def)
  with f' show ?thesis by (auto simp: finv_def quiet_def)
qed

lemma conns_run_down:
  assumes "pinv k p" and "pn_ctx p" and "n \<le> length (pn_conns p)"
  shows "\<exists>p'. (pstep k)\<^sup>*\<^sup>* p p' \<and> pn_close p' = pn_close p \<and> length (pn_conns p') = length (pn_conns p) \<and>
    pinv k p' \<and> pn_ctx p' \<and> (\<forall>j < n. quiet (pn_conns p' ! j))"
  using assms(3)
proof (induction n)
  case (Suc n)
  then obtain p1 where p1: "(pstep k)\<^sup>*\<^sup>* p p1" "pn_close p1 = pn_close p" "length (pn_conns p1) = length (pn_conns p)"
    "pinv k p1" "pn_ctx p1" "\<forall>j < n. quiet (pn_conns p1 ! j)" by auto
  have n: "n < length (pn_conns p1)" using Suc p1(3) by simp
  then have "freach (pn_conns p1 ! n)" "fw_ctx (pn_conns p1 ! n)" using p1(4,5) by (simp_all add: pinv_def)
  then obtain f where f: "fstep\<^sup>*\<^sup>* (pn_conns p1 ! n) f" "quiet f" using cancelled_runs_down by blast
  let ?p = "p1\<lparr>pn_conns := (pn_conns p1)[n := f]\<rparr>"
  have run: "(pstep k)\<^sup>*\<^sup>* p1 ?p" using conn_runs [OF f(1)] \<open>fw_ctx (pn_conns p1 ! n)\<close> n by blast
  moreover have "pinv k ?p" using run p1(4) by (induction rule: rtranclp_induct) (auto intro: pinv_step)
  ultimately show ?case
    using p1 f(2) n by (intro exI [of _ ?p]) (auto simp: less_Suc_eq nth_list_update)
qed (use assms in auto)

section \<open>Properties\<close>

text \<open>
  C14: \<^verbatim>\<open>Close\<close> returns, and nothing is left running. Once \<^verbatim>\<open>Close\<close> was called on a running proxy,
  every step of the closing brings its return nearer and one is always possible until it has
  returned and every listener is closed, however the connections behave. After the return no connection is accepted any more,
  and the proxy can run down to the state where all forwarding goroutines have returned and all
  connections are closed at both ends.
\<close>

theorem proxy_close_returns:
  assumes "preach k n p" and "pn_close p \<noteq> Serving"
  shows "(\<forall>p'. cstep k p p' \<longrightarrow> close_left p' < close_left p \<and> pn_close p' \<noteq> Serving) \<and>
    ((\<nexists>p'. cstep k p p') \<longrightarrow> pn_close p = Returned \<and> True \<notin> set (pn_listeners p)) \<and>
    (pn_close p = Returned \<longrightarrow> (\<forall>p'. pstep k p p' \<longrightarrow> pn_close p' = Returned \<and> length (pn_conns p') = length (pn_conns p))) \<and>
    (\<exists>p'. (pstep k)\<^sup>*\<^sup>* p p' \<and> pn_close p' = Returned \<and> (\<forall>f \<in> set (pn_conns p'). quiet f))"
proof (intro conjI impI allI)
  have inv: "pinv k p" using assms(1) by (rule preach_inv)
  show "close_left p' < close_left p" "pn_close p' \<noteq> Serving" if "cstep k p p'" for p'
    using that cstep_decreases cstep_closing assms(2) by blast+
  show "pn_close p = Returned" "True \<notin> set (pn_listeners p)" if "\<nexists>p'. cstep k p p'"
    using that cstep_possible [OF inv assms(2)] by blast+
  show "pn_close p' = Returned" "length (pn_conns p') = length (pn_conns p)" if "pn_close p = Returned" "pstep k p p'" for p'
    using returned_accepts_nothing [OF inv that] by simp_all
  obtain p1 where c: "(cstep k)\<^sup>*\<^sup>* p p1" "pn_close p1 = Returned" using close_completes [OF inv assms(2)] by blast
  then have run: "(pstep k)\<^sup>*\<^sup>* p p1" by (metis (no_types) closing mono_rtranclp)
  then have inv1: "pinv k p1" using inv by (induction rule: rtranclp_induct) (auto intro: pinv_step)
  then have "pn_ctx p1" using c(2) by (simp add: pinv_def)
  with conns_run_down [OF inv1 _ order_refl] c(2) run
  show "\<exists>p'. (pstep k)\<^sup>*\<^sup>* p p' \<and> pn_close p' = Returned \<and> (\<forall>f \<in> set (pn_conns p'). quiet f)"
    by (metis in_set_conv_nth rtranclp_trans)
qed

text \<open>A proxy with one port that accepted one connection, which is being forwarded, and is then
  closed.\<close>

definition demo_pumping :: "bool \<Rightarrow> fwd" where
  "demo_pumping c = (fwd_start\<lparr>fw_phase := Pumping, fw_up := fresh_side True, fw_watch := Parked,
     fw_pump_conn := True, fw_pump_up := True\<rparr>)\<lparr>fw_ctx := c\<rparr>"

definition demo_run :: "bool \<Rightarrow> close_phase \<Rightarrow> bool \<Rightarrow> bool \<Rightarrow> fwd list \<Rightarrow> prun" where
  "demo_run c ph l a fs = \<lparr>pn_ctx = c, pn_close = ph, pn_listeners = [l], pn_loops = [a], pn_conns = fs\<rparr>"

lemma demo_run_accepted: "preach IngressPlane 1 (demo_run False Serving True True [fwd_start])"
proof -
  have "pn_start 1 = demo_run False Serving True True []" by (simp add: pn_start_def demo_run_def)
  moreover have "pstep IngressPlane (demo_run False Serving True True []) (demo_run False Serving True True [fwd_start])"
    using accept_conn [of 0 "demo_run False Serving True True []" IngressPlane] by (simp add: demo_run_def fwd_start_def)
  ultimately show ?thesis by (simp add: r_into_rtranclp)
qed

lemma demo_run_called: "preach IngressPlane 1 (demo_run True CtxCancelled True True [demo_pumping True])"
proof -
  let ?p = "demo_run False Serving True True [fwd_start]" and ?q = "demo_run False Serving True True [demo_pumping False]"
  have "fstep fwd_start (demo_pumping False)"
    using dialed [of fwd_start] by (simp add: demo_pumping_def) (simp add: fwd_start_def)
  then have "pstep IngressPlane ?p ?q"
    using conn_step [of 0 ?p "demo_pumping False" IngressPlane]
    by (simp add: demo_run_def demo_pumping_def fwd_start_def)
  moreover have "pstep IngressPlane ?q (demo_run True CtxCancelled True True [demo_pumping True])"
    using close_called [of ?q IngressPlane] by (simp add: demo_run_def cancel_all_def demo_pumping_def)
  ultimately show ?thesis using demo_run_accepted by (meson rtranclp.rtrancl_into_rtrancl)
qed

theorem proxy_close_returns_witness:
  "\<exists>p'. (pstep IngressPlane)\<^sup>*\<^sup>* (demo_run True CtxCancelled True True [demo_pumping True]) p' \<and> pn_close p' = Returned"
  using proxy_close_returns [OF demo_run_called] by (auto simp: demo_run_def)

text \<open>
  \<^verbatim>\<open>Close\<close> does not wait for the connections. It waits for the accept loops, and these do not
  wait for the forwarders they spawn: a closed proxy can have returned from \<^verbatim>\<open>Close\<close> while a connection is
  still being pumped with both of its ends open.
\<close>

theorem close_leaves_forwarders:
  "\<exists>p f. preach IngressPlane 1 p \<and> pn_close p = Returned \<and> f \<in> set (pn_conns p) \<and>
     fw_phase f = Pumping \<and> sd_open (fw_conn f) \<and> sd_open (fw_up f)"
proof -
  let ?c = IngressPlane and ?f = "demo_pumping True"
  have "cstep ?c (demo_run True CtxCancelled True True [?f]) (demo_run True SrvClosed False True [?f])"
    using srv_close [of "demo_run True CtxCancelled True True [?f]" ?c] by (simp add: demo_run_def)
  moreover have "cstep ?c (demo_run True SrvClosed False True [?f]) (demo_run True SrvClosed False False [?f])"
    using accept_closed [of 0 "demo_run True SrvClosed False True [?f]" ?c] by (simp add: demo_run_def)
  moreover have "cstep ?c (demo_run True SrvClosed False False [?f]) (demo_run True Returned False False [?f])"
    using join [of "demo_run True SrvClosed False False [?f]" ?c] by (simp add: demo_run_def)
  ultimately have "preach ?c 1 (demo_run True Returned False False [?f])"
    using demo_run_called closing by (meson rtranclp.rtrancl_into_rtrancl)
  then show ?thesis
    by (intro exI [of _ "demo_run True Returned False False [?f]"] exI [of _ ?f])
      (simp add: demo_run_def demo_pumping_def fwd_start_def fresh_side_def)
qed

end
