(* ===== verification/Bounded_Start.thy ===== *)
theory Bounded_Start
  imports Proxy Config
begin

text \<open>
  \<^verbatim>\<open>startTsnetBounded\<close> of \<^verbatim>\<open>proxy.go\<close> at the level of its goroutines. \<^verbatim>\<open>Start\<close> runs in a goroutine of its own
  and reports into a channel with room for one value; the caller waits for that report, for the timer or
  for the context, and closes the server when it gives up. The definition \<open>startTsnetBounded\<close> of
  theory \<open>Proxy\<close>, which the bring-up uses, is the outcome of such a run.
\<close>

section \<open>Definitions\<close>

definition tsnetStartTimeout :: duration where
  "tsnetStartTimeout = 90 * second"

definition effective_timeout :: "duration \<Rightarrow> duration" where
  "effective_timeout timeout = (if sint timeout \<le> 0 then tsnetStartTimeout else timeout)"

text \<open>Time since the timer was set, the context's error once it is done, whether \<^verbatim>\<open>Start\<close> still
  blocks, the content of \<^verbatim>\<open>done\<close>, whether the goroutine that closes the server was spawned, and what the
  call returned.\<close>

record bstate =
  bo_elapsed :: int
  bo_ctx :: "goerr option"
  bo_blocked :: bool
  bo_done :: "goerr option list"
  bo_closer :: bool
  bo_result :: "start_outcome option"

definition bo_start :: bstate where
  "bo_start = \<lparr>bo_elapsed = 0, bo_ctx = None, bo_blocked = True, bo_done = [], bo_closer = False, bo_result = None\<rparr>"

inductive bstep :: "duration \<Rightarrow> bstate \<Rightarrow> bstate \<Rightarrow> bool" for timeout where
  start_reports: "bo_blocked b \<Longrightarrow> length (bo_done b) < 1 \<Longrightarrow>
    bstep timeout b (b\<lparr>bo_blocked := False, bo_done := bo_done b @ [err]\<rparr>)"
| time_passes: "0 \<le> d \<Longrightarrow> bstep timeout b (b\<lparr>bo_elapsed := bo_elapsed b + d\<rparr>)"
| ctx_done: "bo_ctx b = None \<Longrightarrow> bstep timeout b (b\<lparr>bo_ctx := Some e\<rparr>)"
| select_done: "bo_result b = None \<Longrightarrow> bo_done b = err # rest \<Longrightarrow>
    bstep timeout b (b\<lparr>bo_done := rest, bo_result := Some (StartDone err)\<rparr>)"
| select_timer: "bo_result b = None \<Longrightarrow> sint (effective_timeout timeout) \<le> bo_elapsed b \<Longrightarrow>
    bstep timeout b (b\<lparr>bo_closer := True, bo_result := Some StartTimeout\<rparr>)"
| select_ctx: "bo_result b = None \<Longrightarrow> bo_ctx b = Some e \<Longrightarrow>
    bstep timeout b (b\<lparr>bo_closer := True, bo_result := Some (StartCtxDone e)\<rparr>)"

abbreviation breach :: "duration \<Rightarrow> bstate \<Rightarrow> bool" where
  "breach timeout b \<equiv> (bstep timeout)\<^sup>*\<^sup>* bo_start b"

section \<open>The invariant\<close>

definition binv :: "bstate \<Rightarrow> bool" where
  "binv b \<longleftrightarrow>
     (bo_blocked b \<longrightarrow> bo_done b = []) \<and> length (bo_done b) \<le> 1 \<and>
     (case bo_result b of
        None \<Rightarrow> \<not> bo_closer b
      | Some (StartDone err) \<Rightarrow> \<not> bo_closer b \<and> \<not> bo_blocked b \<and> bo_done b = []
      | Some StartTimeout \<Rightarrow> bo_closer b
      | Some (StartCtxDone e) \<Rightarrow> bo_closer b \<and> bo_ctx b = Some e)"

lemma binv_step: "bstep timeout b b' \<Longrightarrow> binv b \<Longrightarrow> binv b'"
  by (induction rule: bstep.induct) (auto simp: binv_def split: option.splits start_outcome.splits)

lemma binv_start: "binv bo_start"
  by (simp add: binv_def bo_start_def)

lemma breach_inv: "breach timeout b \<Longrightarrow> binv b"
  by (induction rule: rtranclp_induct) (auto intro: binv_start binv_step)

lemma effective_timeout_pos: "0 < sint (effective_timeout timeout)"
  by (simp add: effective_timeout_def tsnetStartTimeout_def second_def)

section \<open>Properties\<close>



end
