(* ===== verification/Reconciler_Local.thy ===== *)
theory Reconciler_Local
  imports Reconciler_Frame
begin

text \<open>
  Non-interference between passes. The same operation is run twice: in two environments, with
  other calls before it, and with other entries in the store. As long as the environments give it
  the same answers it cannot tell the difference: it returns the same, makes the same calls and
  leaves the same entry for its service. So a pass depends on nothing but its answers and its own entry.
\<close>

section \<open>Two views of an operation\<close>

text \<open>
  Environment \<open>e'\<close> answers after the calls \<open>before @ h\<close> as \<open>e\<close> does after the calls \<open>h\<close>, for the first
  \<open>n\<close> calls of the operation.
\<close>

definition same_answers :: "nat \<Rightarrow> trace \<Rightarrow> env \<Rightarrow> env \<Rightarrow> bool" where
  "same_answers n before e e' \<longleftrightarrow>
     (\<forall>h. length h < n \<longrightarrow>
        env_inspect e' (before @ h) = env_inspect e h \<and> env_list e' (before @ h) = env_list e h \<and>
        env_networks e' (before @ h) = env_networks e h \<and> env_create e' (before @ h) = env_create e h \<and>
        env_update e' (before @ h) = env_update e h \<and> env_remove e' (before @ h) = env_remove e h \<and>
        env_mint e' (before @ h) = env_mint e h \<and> env_expire e' (before @ h) = env_expire e h \<and>
        env_wait e' (before @ h) = env_wait e h \<and> env_start e' (before @ h) = env_start e h \<and>
        env_close e' (before @ h) = env_close e h \<and> env_now e' (before @ h) = env_now e h \<and>
        env_range e' (before @ h) = env_range e h)"

text \<open>The parts of a reconciler that do not depend on its environment.\<close>

lemma in_env:
  "rec_env (r\<lparr>rec_env := e\<rparr>) = e" "rec_Cfg (r\<lparr>rec_env := e\<rparr>) = rec_Cfg r"
  "rec_GatewayImage (r\<lparr>rec_env := e\<rparr>) = rec_GatewayImage r" "key_request (r\<lparr>rec_env := e\<rparr>) = key_request r"
  "gateway_ref (r\<lparr>rec_env := e\<rparr>) = gateway_ref r" "parser_of (r\<lparr>rec_env := e\<rparr>) = parser_of r"
  by (auto simp: key_request_def gateway_ref_def parser_of_def fun_eq_iff)

named_theorems sims \<open>operations that cannot tell two views apart\<close>

locale two_views =
  fixes n :: nat and before :: trace and sid :: string and e e' :: env
  assumes answers: "same_answers n before e e'"
begin

text \<open>The two states while the answers agree, and from then on.\<close>

definition alike :: "rstate \<Rightarrow> rstate \<Rightarrow> bool" where
  "alike s t \<longleftrightarrow>
     length (rs_trace s) < n \<and> rs_trace t = before @ rs_trace s \<and> store_Get (rs_store t) sid = store_Get (rs_store s) sid"

definition parted :: "rstate \<Rightarrow> rstate \<Rightarrow> bool" where
  "parted s t \<longleftrightarrow> n \<le> length (rs_trace s) \<and> (\<exists>rest. rs_trace t = before @ take n (rs_trace s) @ rest)"

definition sim :: "'a act \<Rightarrow> 'a act \<Rightarrow> bool" where
  "sim m m' \<longleftrightarrow> gr.keeps (\<lambda>_. True) sid m \<and> gr.keeps (\<lambda>_. True) sid m' \<and>
     (\<forall>s t x s' y t'. alike s t \<and> run_state m s = (x, s') \<and> run_state m' t = (y, t') \<longrightarrow>
        x = y \<and> alike s' t' \<or> parted s' t')"

lemma simD:
  assumes "sim m m'" and "alike s t" and "run_state m s = (x, s')" and "run_state m' t = (y, t')"
  obtains "y = x" and "alike s' t'" | "parted s' t'"
  using assms unfolding sim_def by blast

lemma parted_grows:
  assumes "parted s t" and "grows (\<lambda>_. True) sid s s'" and "grows (\<lambda>_. True) sid t t'"
  shows "parted s' t'"
  using assms by (auto simp: parted_def grows_def)

lemma sim_ret [sims]: "sim (ret x) (ret x)"
  by (simp add: sim_def gr.keeps_ret)

lemma sim_bind [sims]:
  assumes m: "sim m m'" and f: "\<And>x. sim (f x) (f' x)"
  shows "sim (m \<bind> f) (m' \<bind> f')"
  unfolding sim_def
proof (intro conjI allI impI)
  show "gr.keeps (\<lambda>_. True) sid (m \<bind> f)" "gr.keeps (\<lambda>_. True) sid (m' \<bind> f')"
    using m f by (auto simp: sim_def intro!: gr.keeps_bind)
next
  fix s t x s' y t'
  assume "alike s t \<and> run_state (m \<bind> f) s = (x, s') \<and> run_state (m' \<bind> f') t = (y, t')"
  then obtain a u b v where *: "alike s t" "run_state m s = (a, u)" "run_state m' t = (b, v)"
    and f': "run_state (f a) u = (x, s')" "run_state (f' b) v = (y, t')"
    by (cases "run_state m s"; cases "run_state m' t") auto
  from m * show "x = y \<and> alike s' t' \<or> parted s' t'"
  proof (cases rule: simD)
    case 1
    with f [of a] f' show ?thesis unfolding sim_def by blast
  next
    case 2
    then show ?thesis using parted_grows f f' gr.keepsD unfolding sim_def by meson
  qed
qed

lemma sim_if [sims]: "sim m m' \<Longrightarrow> sim k k' \<Longrightarrow> sim (if b then m else k) (if b then m' else k')"
  by simp

lemma sim_option [sims]:
  "sim m m' \<Longrightarrow> (\<And>y. sim (f y) (f' y)) \<Longrightarrow>
     sim (case x of None \<Rightarrow> m | Some y \<Rightarrow> f y) (case x of None \<Rightarrow> m' | Some y \<Rightarrow> f' y)"
  by (cases x) auto

lemma sim_sum [sims]:
  "(\<And>y. sim (f y) (f' y)) \<Longrightarrow> (\<And>y. sim (g y) (g' y)) \<Longrightarrow>
     sim (case x of Inl y \<Rightarrow> f y | Inr y \<Rightarrow> g y) (case x of Inl y \<Rightarrow> f' y | Inr y \<Rightarrow> g' y)"
  by (cases x) auto

lemma sim_prod [sims]:
  "(\<And>a b. sim (f a b) (f' a b)) \<Longrightarrow> sim (case x of (a, b) \<Rightarrow> f a b) (case x of (a, b) \<Rightarrow> f' a b)"
  by (cases x) auto

lemma sim_list [sims]:
  "sim m m' \<Longrightarrow> (\<And>y ys. sim (f y ys) (f' y ys)) \<Longrightarrow>
     sim (case xs of [] \<Rightarrow> m | y # ys \<Rightarrow> f y ys) (case xs of [] \<Rightarrow> m' | y # ys \<Rightarrow> f' y ys)"
  by (cases xs) auto

lemma sim_call:
  assumes "\<And>h. length h < n \<Longrightarrow> ask' (before @ h) = ask h"
  shows "sim (call ask ev) (call ask' ev)"
  unfolding sim_def
proof (intro conjI allI impI)
  fix s t x s' y t'
  assume "alike s t \<and> run_state (call ask ev) s = (x, s') \<and> run_state (call ask' ev) t = (y, t')"
  then show "x = y \<and> alike s' t' \<or> parted s' t'"
    using assms [of "rs_trace s"] by (auto simp: run_call alike_def parted_def)
qed (simp_all add: keeps_call)

lemma sim_calls [sims]:
  "sim (InspectService e i) (InspectService e' i)" "sim (ListServices e f) (ListServices e' f)"
  "sim (ListNetworks e) (ListNetworks e')" "sim (CreateService e spec) (CreateService e' spec)"
  "sim (UpdateService e i v spec) (UpdateService e' i v spec)" "sim (RemoveService e i) (RemoveService e' i)"
  "sim (CreateEphemeralKey e req) (CreateEphemeralKey e' req)" "sim (ExpireKey e k) (ExpireKey e' k)"
  "sim (LimiterWait e) (LimiterWait e')" "sim (NewProxy e c) (NewProxy e' c)" "sim (ProxyClose e p) (ProxyClose e' p)"
  unfolding keeps_prims by (rule sim_call; use answers in \<open>simp add: same_answers_def\<close>)+

lemma sim_reads [sims]:
  "sim (Now e) (Now e')" "sim (RangeKeys e m) (RangeKeys e' m)" "sim (StoreGet sid) (StoreGet sid)"
  using answers
  by (auto simp: sim_def gr.keeps_Now gr.keeps_RangeKeys gr.keeps_StoreGet runs alike_def same_answers_def)

lemma sim_writes [sims]:
  "sim (StorePut sid en) (StorePut sid en)" "sim (StoreDelete sid) (StoreDelete sid)"
  by (auto simp: sim_def keeps_StorePut keeps_StoreDelete runs alike_def)

subsection \<open>The operations of the reconciler\<close>

lemma sim_expireOrLog [sims]: "sim (expireOrLog (r\<lparr>rec_env := e\<rparr>) k) (expireOrLog (r\<lparr>rec_env := e'\<rparr>) k)"
  unfolding expireOrLog_def in_env by (intro sims)

lemma sim_teardownIngress [sims]:
  "sim (teardownIngress (r\<lparr>rec_env := e\<rparr>) sid) (teardownIngress (r\<lparr>rec_env := e'\<rparr>) sid)"
  unfolding teardownIngress_def Let_def in_env by (intro sims)

lemma sim_reconcileIngress [sims]:
  "sim (reconcileIngress (r\<lparr>rec_env := e\<rparr>) sid tgt) (reconcileIngress (r\<lparr>rec_env := e'\<rparr>) sid tgt)"
  unfolding reconcileIngress_def Let_def in_env by (intro sims)

lemma sim_removeGateway [sims]: "sim (removeGateway (r\<lparr>rec_env := e\<rparr>) ref) (removeGateway (r\<lparr>rec_env := e'\<rparr>) ref)"
  unfolding removeGateway_def in_env by (intro sims)

lemma sim_removeGateways [sims]:
  "sim (removeGateways (r\<lparr>rec_env := e\<rparr>) err refs) (removeGateways (r\<lparr>rec_env := e'\<rparr>) err refs)"
  by (induction refs arbitrary: err) (auto intro!: sims)

lemma sim_teardownEgress [sims]:
  "sim (teardownEgress (r\<lparr>rec_env := e\<rparr>) sid) (teardownEgress (r\<lparr>rec_env := e'\<rparr>) sid)"
  unfolding teardownEgress_def by (intro sims)

lemma sim_teardown [sims]: "sim (teardown (r\<lparr>rec_env := e\<rparr>) sid) (teardown (r\<lparr>rec_env := e'\<rparr>) sid)"
  unfolding teardown_def by (intro sims)

lemma sim_trackedGateways [sims]:
  "sim (trackedGateways (r\<lparr>rec_env := e\<rparr>) app prev) (trackedGateways (r\<lparr>rec_env := e'\<rparr>) app prev)"
  unfolding trackedGateways_def findGateways_def Let_def in_env by (intro sims)

lemma sim_createGateway [sims]:
  "sim (createGateway (r\<lparr>rec_env := e\<rparr>) app eg t) (createGateway (r\<lparr>rec_env := e'\<rparr>) app eg t)"
  unfolding createGateway_def adoptExistingGateway_def Let_def in_env by (intro sims)

lemma sim_updateGateway [sims]:
  "sim (updateGateway (r\<lparr>rec_env := e\<rparr>) app eg t ref) (updateGateway (r\<lparr>rec_env := e'\<rparr>) app eg t ref)"
  unfolding updateGateway_def Let_def in_env by (intro sims)

lemma sim_remove_loop [sims]:
  "sim (remove_loop (r\<lparr>rec_env := e\<rparr>) desired as tracked errs) (remove_loop (r\<lparr>rec_env := e'\<rparr>) desired as tracked errs)"
  by (induction as arbitrary: tracked errs) (auto intro!: sims)

lemma sim_ensure_gateway [sims]:
  "sim (ensure_gateway (r\<lparr>rec_env := e\<rparr>) app eg a t tracked) (ensure_gateway (r\<lparr>rec_env := e'\<rparr>) app eg a t tracked)"
  unfolding ensure_gateway_def in_env by (intro sims)

lemma sim_create_loop [sims]:
  "sim (create_loop (r\<lparr>rec_env := e\<rparr>) app eg desired as tracked errs)
     (create_loop (r\<lparr>rec_env := e'\<rparr>) app eg desired as tracked errs)"
  by (induction as arbitrary: tracked errs) (auto intro!: sims)

lemma sim_reconcileEgress [sims]:
  "sim (reconcileEgress (r\<lparr>rec_env := e\<rparr>) sid tgt) (reconcileEgress (r\<lparr>rec_env := e'\<rparr>) sid tgt)"
  unfolding reconcileEgress_def Let_def in_env by (intro sims)

lemma sim_Reconcile: "sim (Reconcile (r\<lparr>rec_env := e\<rparr>) sid) (Reconcile (r\<lparr>rec_env := e'\<rparr>) sid)"
  unfolding Reconcile_def reconcile_found_def in_env by (intro sims)

end

section \<open>Instances\<close>

text \<open>The same environment and the same calls before, other entries of other services.\<close>

interpretation lv: two_views n "[]" sid e e for n sid e
  by unfold_locales (simp add: same_answers_def)

section \<open>Properties\<close>

text \<open>
  Passes of different services do not interfere through the store. A pass of \<open>sid\<close> that
  ran from one state runs the same way from every state with the same calls behind it and the
  same entry for \<open>sid\<close>: the same result, the same calls with the same arguments, the same entry
  afterwards. What the store holds for other services is not read, and it is not changed.
\<close>

theorem Reconcile_local:
  assumes "run_state (Reconcile r sid) s = (err, s')"
    and "rs_trace t = rs_trace s" and "store_Get (rs_store t) sid = store_Get (rs_store s) sid"
  shows "\<exists>t'. run_state (Reconcile r sid) t = (err, t') \<and> rs_trace t' = rs_trace s' \<and>
    store_Get (rs_store t') sid = store_Get (rs_store s') sid \<and>
    (\<forall>sid'. sid' \<noteq> sid \<longrightarrow> store_Get (rs_store t') sid' = store_Get (rs_store t) sid')"
proof -
  let ?n = "Suc (length (rs_trace s'))"
  obtain err' t' where t': "run_state (Reconcile r sid) t = (err', t')" by fastforce
  have keep: "grows (\<lambda>_. True) sid s s'" "grows (\<lambda>_. True) sid t t'"
    using gr.keepsD [OF own.Reconcile] assms(1) t' by blast+
  then have "lv.alike ?n sid s t" using assms(2,3) by (auto simp: lv.alike_def grows_def)
  moreover have "lv.sim ?n sid (Reconcile r sid) (Reconcile r sid)"
    using lv.sim_Reconcile [where r = r and e = "rec_env r"] by simp
  ultimately have "err' = err \<and> lv.alike ?n sid s' t'"
    using assms(1) t' lv.simD [of ?n sid] by (metis lv.parted_def Suc_n_not_le_n)
  then show ?thesis using t' keep(2) by (auto simp: lv.alike_def grows_def)
qed

theorem Reconcile_local_witness:
  "\<exists>err t'. run_state (Reconcile demo_rec ''a'') demo_state = (err, t') \<and>
     rs_trace t' = rs_trace (snd (run_state (Reconcile demo_rec ''a'') \<lparr>rs_store = [(''a'', demo_entry)], rs_trace = []\<rparr>)) \<and>
     store_Get (rs_store t') ''b'' = (demo_entry, True)"
proof -
  let ?s = "\<lparr>rs_store = [(''a'', demo_entry)], rs_trace = []\<rparr>"
  obtain err s' where run: "run_state (Reconcile demo_rec ''a'') ?s = (err, s')" by fastforce
  have "rs_trace demo_state = rs_trace ?s" "store_Get (rs_store demo_state) ''a'' = store_Get (rs_store ?s) ''a''"
    by (simp_all add: demo_state_def store_Get_def)
  from Reconcile_local [OF run this] run show ?thesis by (auto simp: demo_state_def store_Get_def)
qed

end
