(* ===== verification/Interleaving.thy ===== *)
theory Interleaving
  imports Reconciler_Local Reconciler_Pass
begin

text \<open>
  Passes that overlap in time. The workers of \<^verbatim>\<open>Queue.Run\<close> call \<^verbatim>\<open>Reconcile\<close> at the same time, for
  different services (theory \<open>Work_Queue\<close>): between two calls that one pass makes to Docker,
  Headscale, the limiter or a proxy, the others may make any number of theirs, and the answers depend
  on all calls made so far. Here passes are interleaved call by call over the shared store and
  the shared sequence of calls. Every interleaving has the effect of whole passes one after the other,
  each in an environment of its own, which is how theories \<open>Reconciler_Pass\<close> and \<open>Daemon\<close> take them.
\<close>

section \<open>Definitions\<close>

text \<open>An environment that is asked at other points of time.\<close>

definition reindex :: "(trace \<Rightarrow> trace) \<Rightarrow> env \<Rightarrow> env" where
  "reindex f e =
     \<lparr>env_inspect = (\<lambda>h. env_inspect e (f h)), env_list = (\<lambda>h. env_list e (f h)),
      env_networks = (\<lambda>h. env_networks e (f h)), env_create = (\<lambda>h. env_create e (f h)),
      env_update = (\<lambda>h. env_update e (f h)), env_remove = (\<lambda>h. env_remove e (f h)),
      env_mint = (\<lambda>h. env_mint e (f h)), env_expire = (\<lambda>h. env_expire e (f h)),
      env_wait = (\<lambda>h. env_wait e (f h)), env_start = (\<lambda>h. env_start e (f h)),
      env_close = (\<lambda>h. env_close e (f h)), env_now = (\<lambda>h. env_now e (f h)), env_range = (\<lambda>h. env_range e (f h))\<rparr>"

text \<open>
  What a pass hears. \<open>gs\<close> holds, for each call of the pass, all calls that the workers had made
  by then; the pass itself counts only its own calls.
\<close>

definition seen_at :: "trace list \<Rightarrow> trace \<Rightarrow> trace" where
  "seen_at gs h = (if length h < length gs then gs ! length h else last gs)"

definition heard :: "trace list \<Rightarrow> env \<Rightarrow> env" where
  "heard gs e = reindex (seen_at gs) e"

text \<open>
  The state the workers share: the store; all calls, each with the number of the pass that made
  it; for every service with a pass under way the number of the pass and its \<open>gs\<close>; the next
  number; and the passes that have ended, in order. An entry of the store is read and written only by
  the passes of its service, so it does not matter when in the pass its writes take place, and they are
  recorded when it ends; \<^verbatim>\<open>CloseAll\<close>, which reads all entries, is left to theory \<open>Shutdown\<close>.
\<close>

record shared =
  sd_store :: store
  sd_calls :: "(nat \<times> event) list"
  sd_live :: "string \<Rightarrow> (nat \<times> trace list) option"
  sd_next :: nat
  sd_ended :: "nat list"

definition calls_of :: "shared \<Rightarrow> nat \<Rightarrow> trace" where
  "calls_of z k = map snd (filter (\<lambda>(j, _). j = k) (sd_calls z))"

text \<open>How a pass goes on from here if no other worker makes a call.\<close>

definition pass_run :: "reconciler \<Rightarrow> shared \<Rightarrow> string \<Rightarrow> trace list \<Rightarrow> goerr option \<times> rstate" where
  "pass_run r z sid gs =
     run_state (Reconcile (r\<lparr>rec_env := heard (gs @ [map snd (sd_calls z)]) (rec_env r)\<rparr>) sid)
       \<lparr>rs_store = sd_store z, rs_trace = []\<rparr>"

text \<open>A worker begins a pass, for a service no other worker is at; a pass makes its next call; a
  pass that has made its last call ends.\<close>

inductive istep :: "reconciler \<Rightarrow> shared \<Rightarrow> shared \<Rightarrow> bool" for r where
  i_begin: "sd_live z sid = None \<Longrightarrow>
    istep r z (z\<lparr>sd_live := (sd_live z)(sid \<mapsto> (sd_next z, [])), sd_next := Suc (sd_next z)\<rparr>)"
| i_call: "sd_live z sid = Some (k, gs) \<Longrightarrow> pass_run r z sid gs = (err, t) \<Longrightarrow> length gs < length (rs_trace t) \<Longrightarrow>
    istep r z (z\<lparr>sd_calls := sd_calls z @ [(k, rs_trace t ! length gs)],
                 sd_live := (sd_live z)(sid \<mapsto> (k, gs @ [map snd (sd_calls z)]))\<rparr>)"
| i_end: "sd_live z sid = Some (k, gs) \<Longrightarrow> pass_run r z sid gs = (err, t) \<Longrightarrow> length (rs_trace t) = length gs \<Longrightarrow>
    istep r z (z\<lparr>sd_store := rs_store t, sd_live := (sd_live z)(sid := None), sd_ended := sd_ended z @ [k]\<rparr>)"

inductive ireach :: "reconciler \<Rightarrow> shared \<Rightarrow> bool" for r where
  i_start: "ireach r \<lparr>sd_store = NewStore, sd_calls = [], sd_live = (\<lambda>_. None), sd_next = 0, sd_ended = []\<rparr>"
| i_more: "ireach r z \<Longrightarrow> istep r z z' \<Longrightarrow> ireach r z'"

section \<open>Replayed passes\<close>

lemma same_answers_reindex:
  assumes "\<And>h. length h < n \<Longrightarrow> g (before @ h) = f h"
  shows "same_answers n before (reindex f e) (reindex g e)"
  using assms by (simp add: same_answers_def reindex_def)

text \<open>Two views of one pass: the calls of the other workers differ from some call on.\<close>

interpretation iv: two_views "length gs" before sid "heard (gs @ xs) e"
    "reindex (\<lambda>h. seen_at (gs @ ys) (drop (length before) h)) e" for gs before sid xs ys e
  unfolding heard_def
  by unfold_locales (rule same_answers_reindex, simp add: seen_at_def nth_append)

abbreviation from_store :: "store \<Rightarrow> rstate" where
  "from_store S \<equiv> \<lparr>rs_store = S, rs_trace = []\<rparr>"

text \<open>What a pass has done so far is settled, whatever the others do next and to other entries.\<close>

lemma replay_settled:
  assumes s: "run_state (Reconcile (r\<lparr>rec_env := heard (gs @ xs) e\<rparr>) sid) (from_store S) = (err, t)"
    and u: "run_state (Reconcile (r\<lparr>rec_env := heard (gs @ ys) e\<rparr>) sid) (from_store S') = (err', t')"
    and "store_Get S' sid = store_Get S sid"
  shows "take (length gs) (rs_trace t') = take (length gs) (rs_trace t)"
    and "length gs \<le> length (rs_trace t) \<Longrightarrow> length gs \<le> length (rs_trace t')"
proof -
  have "take (length gs) (rs_trace t') = take (length gs) (rs_trace t) \<and>
      (length gs \<le> length (rs_trace t) \<longrightarrow> length gs \<le> length (rs_trace t'))"
  proof (cases "gs = []")
    case False
    then have "iv.alike gs [] sid (from_store S) (from_store S')" using assms(3) by (simp add: iv.alike_def)
    moreover have "run_state (Reconcile (r\<lparr>rec_env := reindex (\<lambda>h. seen_at (gs @ ys) (drop (length []) h)) e\<rparr>) sid)
        (from_store S') = (err', t')" using u by (simp add: heard_def)
    ultimately consider "iv.alike gs [] sid t t'" | "iv.parted gs [] t t'"
      using iv.simD [OF iv.sim_Reconcile _ s] by blast
    then show ?thesis by cases (auto simp: iv.alike_def iv.parted_def)
  qed simp
  then show "take (length gs) (rs_trace t') = take (length gs) (rs_trace t)"
    and "length gs \<le> length (rs_trace t) \<Longrightarrow> length gs \<le> length (rs_trace t')" by auto
qed

text \<open>A pass that has ended is a whole pass, after whatever calls and with whatever other entries.\<close>

lemma replay_whole:
  assumes s: "run_state (Reconcile (r\<lparr>rec_env := heard gs e\<rparr>) sid) (from_store S) = (err, t)"
    and "length (rs_trace t) < length gs" and "store_Get (rs_store u) sid = store_Get S sid"
  obtains e' u' where "run_state (Reconcile (r\<lparr>rec_env := e'\<rparr>) sid) u = (err, u')"
    and "rs_trace u' = rs_trace u @ rs_trace t" and "store_Get (rs_store u') sid = store_Get (rs_store t) sid"
proof -
  let ?b = "rs_trace u"
  let ?e' = "reindex (\<lambda>h. seen_at (gs @ []) (drop (length ?b) h)) e"
  obtain err' u' where u': "run_state (Reconcile (r\<lparr>rec_env := ?e'\<rparr>) sid) u = (err', u')" by fastforce
  have "iv.alike gs ?b sid (from_store S) u" using assms(2,3) by (auto simp: iv.alike_def)
  moreover have "run_state (Reconcile (r\<lparr>rec_env := heard (gs @ []) e\<rparr>) sid) (from_store S) = (err, t)" using s by simp
  ultimately have "err' = err \<and> iv.alike gs ?b sid t u'"
    using iv.simD [OF iv.sim_Reconcile _ _ u'] assms(2) by (metis iv.parted_def leD)
  with u' show thesis by (intro that [of ?e' u']) (auto simp: iv.alike_def)
qed

section \<open>The invariant\<close>

text \<open>The numbers of the passes: none is used twice, and every call belongs to a pass.\<close>

definition numbered :: "shared \<Rightarrow> bool" where
  "numbered z \<longleftrightarrow>
     distinct (sd_ended z) \<and>
     (\<forall>k. k \<in> set (sd_ended z) \<longrightarrow> k < sd_next z) \<and>
     (\<forall>sid k gs. sd_live z sid = Some (k, gs) \<longrightarrow> k < sd_next z \<and> k \<notin> set (sd_ended z)) \<and>
     (\<forall>sid sid' k gs gs'. sd_live z sid = Some (k, gs) \<and> sd_live z sid' = Some (k, gs') \<longrightarrow> sid' = sid) \<and>
     (\<forall>k ev. (k, ev) \<in> set (sd_calls z) \<longrightarrow> k \<in> set (sd_ended z) \<or> (\<exists>sid gs. sd_live z sid = Some (k, gs)))"

text \<open>The calls of a pass under way are those it makes when it is run again from the start.\<close>

definition settled :: "reconciler \<Rightarrow> shared \<Rightarrow> bool" where
  "settled r z \<longleftrightarrow>
     (\<forall>sid k gs. sd_live z sid = Some (k, gs) \<longrightarrow>
        length (calls_of z k) = length gs \<and> take (length gs) (rs_trace (snd (pass_run r z sid gs))) = calls_of z k)"

lemma settledD:
  assumes "settled r z" and "sd_live z sid = Some (k, gs)" and "pass_run r z sid gs = (err, t)"
  shows "length (calls_of z k) = length gs" and "take (length gs) (rs_trace t) = calls_of z k"
  using assms unfolding settled_def by (metis snd_conv)+

lemma calls_of_add: "calls_of (z\<lparr>sd_calls := sd_calls z @ [(k, ev)], sd_live := l\<rparr>) j = calls_of z j @ (if j = k then [ev] else [])"
  by (simp add: calls_of_def)

lemma calls_of_frame [simp]:
  "calls_of (z\<lparr>sd_live := l, sd_next := m\<rparr>) = calls_of z"
  "calls_of (z\<lparr>sd_store := S, sd_live := l, sd_ended := es\<rparr>) = calls_of z"
  by (simp_all add: calls_of_def fun_eq_iff)

lemma istep_owned:
  assumes "istep r z z'" and "\<And>k ev. (k, ev) \<in> set (sd_calls z) \<Longrightarrow> k \<in> set (sd_ended z) \<or> (\<exists>sid gs. sd_live z sid = Some (k, gs))"
    and "(k, ev) \<in> set (sd_calls z')"
  shows "k \<in> set (sd_ended z') \<or> (\<exists>sid gs. sd_live z' sid = Some (k, gs))"
  using assms(1)
proof (cases rule: istep.cases)
  case (i_begin sid)
  then have "(k, ev) \<in> set (sd_calls z)" using assms(3) by simp
  from assms(2) [OF this] i_begin(2)
  have "k \<in> set (sd_ended z) \<or> (\<exists>i gs. i \<noteq> sid \<and> sd_live z i = Some (k, gs))" by (metis option.distinct(1))
  with i_begin show ?thesis by auto
next
  case (i_call sid j gs err t)
  with assms(3) have "k = j \<or> (k, ev) \<in> set (sd_calls z)" by auto
  with assms(2) [of k ev] i_call(2) have "k = j \<or> k \<in> set (sd_ended z) \<or> (\<exists>i gs. i \<noteq> sid \<and> sd_live z i = Some (k, gs))"
    by (metis Pair_inject option.inject)
  with i_call show ?thesis by auto
next
  case (i_end sid j gs err t)
  with assms(3) have "k = j \<or> (k, ev) \<in> set (sd_calls z)" by auto
  with assms(2) [of k ev] i_end(2) have "k = j \<or> k \<in> set (sd_ended z) \<or> (\<exists>i gs. i \<noteq> sid \<and> sd_live z i = Some (k, gs))"
    by (metis Pair_inject option.inject)
  with i_end show ?thesis by auto
qed

lemma istep_numbered:
  assumes "istep r z z'" and "numbered z"
  shows "numbered z'"
proof -
  have "distinct (sd_ended z') \<and> (\<forall>k. k \<in> set (sd_ended z') \<longrightarrow> k < sd_next z') \<and>
     (\<forall>sid k gs. sd_live z' sid = Some (k, gs) \<longrightarrow> k < sd_next z' \<and> k \<notin> set (sd_ended z')) \<and>
     (\<forall>sid sid' k gs gs'. sd_live z' sid = Some (k, gs) \<and> sd_live z' sid' = Some (k, gs') \<longrightarrow> sid' = sid)"
    using assms by (cases rule: istep.cases) (auto simp: numbered_def less_Suc_eq)
  moreover have "\<forall>k ev. (k, ev) \<in> set (sd_calls z') \<longrightarrow>
      k \<in> set (sd_ended z') \<or> (\<exists>sid gs. sd_live z' sid = Some (k, gs))"
    using istep_owned [OF assms(1)] assms(2) unfolding numbered_def by blast
  ultimately show ?thesis unfolding numbered_def by blast
qed

lemma fresh_calls: "numbered z \<Longrightarrow> calls_of z (sd_next z) = []"
  unfolding numbered_def calls_of_def by (auto simp: filter_empty_conv) (metis nat_less_le)+

lemma pass_run_grows: "pass_run r z sid gs = (err, t) \<Longrightarrow> grows (\<lambda>_. True) sid (from_store (sd_store z)) t"
  unfolding pass_run_def using gr.keepsD [OF own.Reconcile] by blast

text \<open>A step of another worker leaves a pass where it is.\<close>

lemma pass_run_settled:
  assumes "store_Get (sd_store z') sid = store_Get (sd_store z) sid"
    and "take (length gs) (rs_trace (snd (pass_run r z sid gs))) = cs" 
  shows "take (length gs) (rs_trace (snd (pass_run r z' sid gs))) = cs"
proof -
  obtain err t err' t' where t: "pass_run r z sid gs = (err, t)" "pass_run r z' sid gs = (err', t')" by fastforce
  from replay_settled(1) [OF t [unfolded pass_run_def] assms(1)] t assms(2) show ?thesis by simp
qed

lemma istep_settled:
  assumes "istep r z z'" and "numbered z" and "settled r z"
  shows "settled r z'"
  using assms(1)
proof (cases rule: istep.cases)
  case (i_begin sid)
  then show ?thesis
    using assms(3) fresh_calls [OF assms(2)] by (auto simp: settled_def pass_run_def split: if_splits)
next
  case (i_call sid k gs err t)
  let ?g = "map snd (sd_calls z)"
  note now = settledD [OF assms(3) i_call(2,3)]
  obtain err' t' where t': "pass_run r z' sid (gs @ [?g]) = (err', t')" by fastforce
  have "run_state (Reconcile (r\<lparr>rec_env := heard ((gs @ [?g]) @ []) (rec_env r)\<rparr>) sid) (from_store (sd_store z)) = (err, t)"
    using i_call(3) by (simp add: pass_run_def)
  from replay_settled(1) [OF this t' [unfolded pass_run_def]]
  have "take (Suc (length gs)) (rs_trace t') = take (Suc (length gs)) (rs_trace t)" using i_call(1) by simp
  then have own: "take (Suc (length gs)) (rs_trace t') = calls_of z k @ [rs_trace t ! length gs]"
    using now(2) i_call(4) by (simp add: take_Suc_conv_app_nth)
  have "k' \<noteq> k" if "sd_live z sid' = Some (k', gs')" "sid' \<noteq> sid" for sid' k' gs'
    using that i_call(2) assms(2) by (auto simp: numbered_def)
  moreover have "take (length gs') (rs_trace (snd (pass_run r z' sid' gs'))) = calls_of z k'"
    if "sd_live z sid' = Some (k', gs')" for sid' k' gs'
    using that assms(3) i_call(1) by (intro pass_run_settled [of z' _ z]) (auto simp: settled_def)
  ultimately show ?thesis
    using assms(3) own now(1) t' i_call(1) unfolding settled_def by (auto simp: calls_of_add)
next
  case (i_end sid k gs err t)
  have "store_Get (rs_store t) sid' = store_Get (sd_store z) sid'" if "sid' \<noteq> sid" for sid'
    using that pass_run_grows [OF i_end(3)] by (simp add: grows_def)
  then have "take (length gs') (rs_trace (snd (pass_run r z' sid' gs'))) = calls_of z k'"
    if "sd_live z sid' = Some (k', gs')" "sid' \<noteq> sid" for sid' k' gs'
    using that assms(3) i_end(1) by (intro pass_run_settled [of z' _ z]) (auto simp: settled_def)
  then show ?thesis using assms(3) i_end(1) by (auto simp: settled_def split: if_splits)
qed

section \<open>The simulation\<close>

text \<open>The passes that have ended, one after the other: a state of the sequential daemon with the same entries.\<close>

definition serial :: "reconciler \<Rightarrow> shared \<Rightarrow> rstate \<Rightarrow> bool" where
  "serial r z s \<longleftrightarrow>
     reachable r s \<and> rs_trace s = concat (map (calls_of z) (sd_ended z)) \<and>
     (\<forall>sid. store_Get (rs_store s) sid = store_Get (sd_store z) sid)"

lemma ended_calls:
  assumes "settled r z" and "sd_live z sid = Some (k, gs)" and "pass_run r z sid gs = (err, t)"
    and "length (rs_trace t) = length gs"
  shows "rs_trace t = calls_of z k"
  using settledD [OF assms(1-3)] assms(4) by simp

lemma istep_serial:
  assumes "istep r z z'" and "numbered z" and "settled r z" and "serial r z s"
  shows "\<exists>s'. serial r z' s'"
  using assms(1)
proof (cases rule: istep.cases)
  case (i_begin sid)
  then show ?thesis using assms(4) by (auto simp: serial_def)
next
  case (i_call sid k gs err t)
  then have "k \<notin> set (sd_ended z)" using assms(2) by (auto simp: numbered_def)
  then have "map (calls_of z') (sd_ended z) = map (calls_of z) (sd_ended z)"
    using i_call(1) by (auto simp: calls_of_add)
  moreover have "sd_ended z' = sd_ended z" "sd_store z' = sd_store z" using i_call(1) by simp_all
  ultimately have "serial r z' s" using assms(4) unfolding serial_def by presburger
  then show ?thesis by blast
next
  case (i_end sid k gs err t)
  have "store_Get (rs_store s) sid = store_Get (sd_store z) sid" using assms(4) by (simp add: serial_def)
  moreover have "length (rs_trace t) < length (gs @ [map snd (sd_calls z)])" using i_end(4) by simp
  ultimately obtain e' s' where s': "run_state (Reconcile (r\<lparr>rec_env := e'\<rparr>) sid) s = (err, s')"
    and tr: "rs_trace s' = rs_trace s @ rs_trace t" and en: "store_Get (rs_store s') sid = store_Get (rs_store t) sid"
    using replay_whole [OF i_end(3) [unfolded pass_run_def]] by metis
  have "grows (\<lambda>_. True) sid s s'" using gr.keepsD [OF own.Reconcile s'] by simp
  with en pass_run_grows [OF i_end(3)] have "store_Get (rs_store s') i = store_Get (rs_store t) i" for i
    using assms(4) by (cases "i = sid") (auto simp: grows_def serial_def)
  moreover have "reachable r s'" using pass [OF _ s'] assms(4) by (simp add: serial_def)
  ultimately have "serial r z' s'"
    using tr ended_calls [OF assms(3) i_end(2-4)] assms(4) i_end(1) by (simp add: serial_def)
  then show ?thesis by blast
qed

lemma ireach_inv: "ireach r z \<Longrightarrow> numbered z \<and> settled r z \<and> (\<exists>s. serial r z s)"
proof (induction rule: ireach.induct)
  case i_start
  have "serial r \<lparr>sd_store = NewStore, sd_calls = [], sd_live = (\<lambda>_. None), sd_next = 0, sd_ended = []\<rparr>
      \<lparr>rs_store = NewStore, rs_trace = []\<rparr>"
    using reachable.start by (simp add: serial_def)
  then show ?case by (auto simp: numbered_def settled_def)
next
  case (i_more z z')
  then show ?case using istep_numbered istep_settled istep_serial by blast
qed

section \<open>An example\<close>

text \<open>Two services that are gone: both passes begin, each asks Docker, the second one ends first.\<close>

definition calm_rec :: reconciler where
  "calm_rec = NewReconciler calm_env demo_config"

definition gone :: "string \<Rightarrow> event" where
  "gone sid = EvInspect sid (Inl (ErrVar ServiceNotFound))"

lemma calm_pass:
  "sd_store z = NewStore \<Longrightarrow> \<exists>err. pass_run calm_rec z sid gs = (err, \<lparr>rs_store = NewStore, rs_trace = [gone sid]\<rparr>)"
  by (simp add: pass_run_def calm_rec_def NewReconciler_def Let_def Reconcile_def runs heard_def reindex_def calm_env_def
      teardown_def teardownIngress_def teardownEgress_def store_Get_def store_Delete_def NewStore_def gone_def)

definition overlap :: "(nat \<times> event) list \<Rightarrow> (string \<Rightarrow> (nat \<times> trace list) option) \<Rightarrow> nat \<Rightarrow> nat list \<Rightarrow> shared" where
  "overlap cs l m ks = \<lparr>sd_store = NewStore, sd_calls = cs, sd_live = l, sd_next = m, sd_ended = ks\<rparr>"

definition overlap_end :: shared where
  "overlap_end = overlap [(0, gone ''a''), (1, gone ''b'')] [''a'' \<mapsto> (0, [[]])] 2 [1]"

lemma overlap_steps:
  "l sid = None \<Longrightarrow> ireach calm_rec (overlap cs l m ks) \<Longrightarrow> ireach calm_rec (overlap cs (l(sid \<mapsto> (m, []))) (Suc m) ks)"
  "l sid = Some (k, []) \<Longrightarrow> ireach calm_rec (overlap cs l m ks) \<Longrightarrow>
     ireach calm_rec (overlap (cs @ [(k, gone sid)]) (l(sid \<mapsto> (k, [map snd cs]))) m ks)"
  "l sid = Some (k, [g]) \<Longrightarrow> ireach calm_rec (overlap cs l m ks) \<Longrightarrow> ireach calm_rec (overlap cs (l(sid := None)) m (ks @ [k]))"
proof -
  let ?z = "overlap cs l m ks"
  have z: "sd_store ?z = NewStore" by (simp add: overlap_def)
  assume r: "ireach calm_rec ?z"
  show "ireach calm_rec (overlap cs (l(sid \<mapsto> (m, []))) (Suc m) ks)" if "l sid = None"
    using i_more [OF r i_begin [of ?z sid]] that by (simp add: overlap_def)
  show "ireach calm_rec (overlap (cs @ [(k, gone sid)]) (l(sid \<mapsto> (k, [map snd cs]))) m ks)" if "l sid = Some (k, [])"
    using i_more [OF r i_call [of ?z sid k "[]"]] calm_pass [OF z, of sid "[]"] that by (force simp: overlap_def)
  show "ireach calm_rec (overlap cs (l(sid := None)) m (ks @ [k]))" if "l sid = Some (k, [g])"
    using i_more [OF r i_end [of ?z sid k "[g]"]] calm_pass [OF z, of sid "[g]"] that by (force simp: overlap_def)
qed

lemma overlap_end_reach: "ireach calm_rec overlap_end"
proof -
  have "ireach calm_rec (overlap [] (\<lambda>_. None) 0 [])" using i_start by (simp add: overlap_def)
  from overlap_steps(1) [of _ "''a''", OF _ this]
  have "ireach calm_rec (overlap [] [''a'' \<mapsto> (0, [])] (Suc 0) [])" by simp
  from overlap_steps(1) [of _ "''b''", OF _ this]
  have "ireach calm_rec (overlap [] [''a'' \<mapsto> (0, []), ''b'' \<mapsto> (Suc 0, [])] (Suc (Suc 0)) [])" by simp
  from overlap_steps(2) [of _ "''a''" 0, OF _ this]
  have "ireach calm_rec (overlap [(0, gone ''a'')] [''a'' \<mapsto> (0, [[]]), ''b'' \<mapsto> (Suc 0, [])] (Suc (Suc 0)) [])"
    by (simp add: fun_upd_twist)
  from overlap_steps(2) [of _ "''b''" "Suc 0", OF _ this]
  have "ireach calm_rec (overlap [(0, gone ''a''), (Suc 0, gone ''b'')]
      [''a'' \<mapsto> (0, [[]]), ''b'' \<mapsto> (Suc 0, [[gone ''a'']])] (Suc (Suc 0)) [])" by simp
  from overlap_steps(3) [of _ "''b''" "Suc 0", OF _ this] show ?thesis
    by (simp add: overlap_end_def fun_upd_twist numeral_2_eq_2)
qed

section \<open>Properties\<close>

text \<open>
  C12: passes that overlap have the effect of passes one after the other. Whatever the
  interleaving of the workers' calls, the store holds the entries that the passes which have ended leave
  when they run one after the other in the order they ended, with the same calls and the same
  answers; the calls made for a pass under way are the first ones it makes when it runs again from the start;
  every call belongs to one of these passes; and a pass that ends has recorded or expired every
  key that it minted.
\<close>

theorem interleaved_passes_serialise:
  assumes "ireach r z"
  shows "(\<exists>s. reachable r s \<and> rs_trace s = concat (map (calls_of z) (sd_ended z)) \<and>
      (\<forall>sid. store_Get (rs_store s) sid = store_Get (sd_store z) sid)) \<and>
    distinct (sd_ended z) \<and>
    (\<forall>(k, _) \<in> set (sd_calls z). k \<in> set (sd_ended z) \<or> (\<exists>sid gs. sd_live z sid = Some (k, gs))) \<and>
    (\<forall>sid k gs err t. sd_live z sid = Some (k, gs) \<and> pass_run r z sid gs = (err, t) \<longrightarrow>
       (\<exists>rest. rs_trace t = calls_of z k @ rest) \<and>
       (length (rs_trace t) = length gs \<longrightarrow>
          minted (calls_of z k) \<subseteq> expired (calls_of z k) \<union> held (entry_of t sid) \<union> {[]}))"
proof -
  from ireach_inv [OF assms] obtain s where n: "numbered z" and st: "settled r z" and s: "serial r z s" by blast
  have leak: "minted (calls_of z k) \<subseteq> expired (calls_of z k) \<union> held (entry_of t sid) \<union> {[]}"
    if l: "sd_live z sid = Some (k, gs)" and run: "pass_run r z sid gs = (err, t)"
      and len: "length (rs_trace t) = length gs" for sid k gs err t
  proof -
    have "wf_entry (entry_of (from_store (sd_store z)) sid)"
      using wf_reachable [of r s sid] s by (simp add: serial_def)
    from Reconcile_good [OF run [unfolded pass_run_def] this] show ?thesis
      using ended_calls [OF st l run len] by (simp add: good_pass_def accounted_def since_def)
  qed
  have "\<exists>rest. rs_trace t = calls_of z k @ rest"
    if "sd_live z sid = Some (k, gs)" "pass_run r z sid gs = (err, t)" for sid k gs err t
    using settledD(2) [OF st that] by (metis append_take_drop_id)
  moreover have "distinct (sd_ended z)"
    "\<forall>(k, _) \<in> set (sd_calls z). k \<in> set (sd_ended z) \<or> (\<exists>sid gs. sd_live z sid = Some (k, gs))"
    using n unfolding numbered_def by blast+
  moreover have "\<exists>s. reachable r s \<and> rs_trace s = concat (map (calls_of z) (sd_ended z)) \<and>
      (\<forall>sid. store_Get (rs_store s) sid = store_Get (sd_store z) sid)"
    using s unfolding serial_def by blast
  ultimately show ?thesis using leak by blast
qed

theorem interleaved_passes_serialise_witness:
  "\<exists>s. reachable calm_rec s \<and> rs_trace s = [gone ''b''] \<and> sd_live overlap_end ''a'' = Some (0, [[]])"
proof -
  have "concat (map (calls_of overlap_end) (sd_ended overlap_end)) = [gone ''b'']"
    "sd_live overlap_end ''a'' = Some (0, [[]])"
    by (simp_all add: overlap_end_def overlap_def calls_of_def)
  with interleaved_passes_serialise [OF overlap_end_reach] show ?thesis by auto
qed

end
