(* ===== verification/Json.thy ===== *)
theory Json
  imports Digest
begin

text \<open>
  What the digests of the sources distinguish. The payloads that are hashed are JSON texts;
  a reader for JSON strings is given as a reference, and \<^verbatim>\<open>json.Marshal\<close> of a valid UTF-8 string
  is shown to be read back, whatever follows. Strings, arrays and numbers are therefore
  prefix codes, and two payloads of the same shape are equal only when their fields are.
\<close>

section \<open>A reader for JSON strings\<close>

text \<open>A string is valid UTF-8 when it is a sequence of encoded runes.\<close>

fun valid_utf8 :: "string \<Rightarrow> bool" where
  "valid_utf8 s =
     (if s = [] then True
      else if rune_len (map byte s) = 0 then False
      else valid_utf8 (drop (rune_len (map byte s)) s))"

declare valid_utf8.simps [simp del]

text \<open>The one-letter escapes, and the value of the four digits of a \<^verbatim>\<open>\u\<close> escape as far as the
  encoder writes them.\<close>

definition letter_escapes :: "(char \<times> char) list" where
  "letter_escapes =
     [(quote_char, quote_char), (backslash, backslash), (CHR ''b'', CHR 0x08), (CHR ''f'', CHR 0x0C),
      (CHR ''n'', CHR 0x0A), (CHR ''r'', CHR 0x0D), (CHR ''t'', CHR 0x09)]"

definition simple_escape :: "char \<Rightarrow> char option" where
  "simple_escape c = map_of letter_escapes c"

definition hex_value :: "char \<Rightarrow> nat" where
  "hex_value c = (if c \<in> set ''0123456789'' then of_char c - 48 else of_char c - 87)"

definition unicode_escape :: "string \<Rightarrow> string option" where
  "unicode_escape ds =
     (case ds of
        [CHR ''0'', CHR ''0'', h, l] \<Rightarrow> Some [char_of (16 * hex_value h + hex_value l)]
      | _ \<Rightarrow> map_of [(''2028'', [CHR 0xE2, CHR 0x80, CHR 0xA8]), (''2029'', [CHR 0xE2, CHR 0x80, CHR 0xA9]),
                     (''fffd'', [CHR 0xEF, CHR 0xBF, CHR 0xBD])] ds)"

text \<open>Reads up to the closing quote; the result is the string and what follows the quote.\<close>

fun json_scan :: "string \<Rightarrow> (string \<times> string) option" where
  "json_scan [] = None"
| "json_scan (c # s) =
     (if c = quote_char then Some ([], s)
      else if c \<noteq> backslash then map_option (apfst (\<lambda>x. c # x)) (json_scan s)
      else
        (case s of
           [] \<Rightarrow> None
         | d # s' \<Rightarrow>
             if d = CHR ''u'' then
               (case unicode_escape (take 4 s') of
                  None \<Rightarrow> None
                | Some w \<Rightarrow> map_option (apfst (\<lambda>x. w @ x)) (json_scan (drop 4 s')))
             else
               (case simple_escape d of
                  None \<Rightarrow> None
                | Some e \<Rightarrow> map_option (apfst (\<lambda>x. e # x)) (json_scan s'))))"

section \<open>Reading back\<close>

lemma special_bytes [simp]: "byte quote_char = 34" "byte backslash = 92" "quote_char \<noteq> backslash" "backslash \<noteq> quote_char"
  by (simp_all add: byte_def quote_char_def backslash_def char_of_def bit_0)

lemma unat_byte: "unat (byte c) = of_char c"
proof -
  have "(of_char c :: nat) < 256" by (metis of_char_mod_256 mod_less_divisor zero_less_numeral)
  moreover have "byte c = of_nat (of_char c)" by (simp add: byte_def of_nat_of_char)
  ultimately show ?thesis by (simp add: unat_of_nat)
qed

lemma byte_inj [simp]: "byte c = byte d \<longleftrightarrow> c = d"
  by (metis unat_byte of_char_eq_iff)

lemma char_of_byte [simp]: "char_of (unat (byte c)) = c"
  by (simp add: unat_byte)

lemma special_byte_iff [simp]: "byte c = 34 \<longleftrightarrow> c = quote_char" "byte c = 92 \<longleftrightarrow> c = backslash"
  by (metis byte_inj special_bytes(1), metis byte_inj special_bytes(2))

lemma hex_value_digit: "hex_value (hex_digit n) = unat n mod 16"
proof -
  have "hex_value (''0123456789abcdef'' ! k) = k" if "k \<in> set [0, 1, 2, 3, 4, 5, 6, 7, 8, 9, 10, 11, 12, 13, 14, 15]" for k
    using that by (auto simp: hex_value_def)
  then have "\<forall>k < 16. hex_value (''0123456789abcdef'' ! k) = k"
    by (simp add: numeral_eq_Suc less_Suc_eq)
  moreover have "unat (n AND 15) = unat n mod 16"
  proof -
    have "n AND 15 = n AND mask 4" by (simp add: mask_eq_exp_minus_1)
    also have "\<dots> = n mod 16" by (simp flip: take_bit_eq_mask add: take_bit_eq_mod)
    finally have "n AND 15 = n mod 16" .
    then show ?thesis by (simp add: unat_mod)
  qed
  ultimately show ?thesis by (simp add: hex_digit_def)
qed

lemma unicode_hex_byte: "unicode_escape (''00'' @ hex_byte b) = Some [char_of (unat b)]"
proof -
  have "unat (drop_bit 4 b) = unat b div 16" by (simp add: drop_bit_eq_div unat_div)
  then have "16 * hex_value (hex_digit (drop_bit 4 b)) + hex_value (hex_digit b) = unat b"
    using unsigned_less [of b, where ?'a = nat] by (simp add: hex_value_digit)
  then show ?thesis by (simp add: unicode_escape_def hex_byte_def)
qed

lemma special_chars: "quote_char = CHR 0x22" "backslash = CHR 0x5C"
  by (simp_all add: quote_char_def backslash_def char_of_def bit_0)

lemma letter_escape:
  assumes "(d, c) \<in> set letter_escapes"
  shows "d \<noteq> CHR ''u''" and "simple_escape d = Some c"
proof -
  show "d \<noteq> CHR ''u''" using assms by (auto simp: letter_escapes_def special_chars)
  have "distinct (map fst letter_escapes)" by (simp add: letter_escapes_def special_chars)
  with assms show "simple_escape d = Some c" by (simp add: simple_escape_def)
qed

text \<open>The three forms in which an ASCII byte is written.\<close>

lemma json_ascii_cases:
  obtains (plain) "json_ascii c = [c]" "c \<noteq> quote_char" "c \<noteq> backslash"
  | (letter) d where "json_ascii c = [backslash, d]" "d \<noteq> CHR ''u''" "simple_escape d = Some c"
  | (unicode) ds where "json_ascii c = backslash # CHR ''u'' # ds" "length ds = 4" "unicode_escape ds = Some [c]"
proof -
  have "byte (CHR 0x08) = 8" "byte (CHR 0x0C) = 12" "byte (CHR 0x0A) = 10" "byte (CHR 0x0D) = 13" "byte (CHR 0x09) = 9"
    by (simp_all add: byte_def)
  then have eqs: "byte c = 8 \<longleftrightarrow> c = CHR 0x08" "byte c = 12 \<longleftrightarrow> c = CHR 0x0C" "byte c = 10 \<longleftrightarrow> c = CHR 0x0A"
      "byte c = 13 \<longleftrightarrow> c = CHR 0x0D" "byte c = 9 \<longleftrightarrow> c = CHR 0x09"
    by (metis byte_inj)+
  have uni: "unicode_escape (''00'' @ hex_byte (byte c)) = Some [c]" by (simp only: unicode_hex_byte char_of_byte)
  show thesis
  proof (cases "json_ascii c = [c]")
    case True
    have "c \<noteq> quote_char" "c \<noteq> backslash" using True by (auto simp: json_ascii_def)
    with True show thesis by (rule plain)
  next
    case escaped: False
    consider "json_ascii c = backslash # ''u00'' @ hex_byte (byte c)"
      | d where "json_ascii c = [backslash, d]" "(d, c) \<in> set letter_escapes"
      using escaped by (auto simp: json_ascii_def Let_def eqs letter_escapes_def split: if_splits)
    then show thesis
    proof cases
      case 1
      with uni unicode [of "''00'' @ hex_byte (byte c)"] show thesis by (simp add: hex_byte_def)
    next
      case (2 d)
      have "d \<noteq> CHR ''u''" "simple_escape d = Some c" using letter_escape [OF 2(2)] .
      with 2(1) show thesis by (rule letter)
    qed
  qed
qed

lemma json_scan_ascii: "json_scan (json_ascii c @ s) = map_option (apfst (\<lambda>x. c # x)) (json_scan s)"
  by (cases c rule: json_ascii_cases; cases "json_scan s") auto

lemma json_scan_plain:
  "\<forall>c \<in> set w. c \<noteq> quote_char \<and> c \<noteq> backslash \<Longrightarrow>
     json_scan (w @ s) = map_option (apfst (\<lambda>x. w @ x)) (json_scan s)"
  by (induction w; cases "json_scan s") auto

lemma json_scan_unicode:
  assumes "unicode_escape ds = Some w" and "length ds = 4"
  shows "json_scan (backslash # CHR ''u'' # ds @ s) = map_option (apfst (\<lambda>x. w @ x)) (json_scan s)"
  using assms by auto

text \<open>The bytes of a rune that is not ASCII are all above 127, so none of them is special.\<close>

lemma rune_len_ascii: "byte c < 128 \<Longrightarrow> rune_len (map byte (c # s)) = 1"
  by (cases s) (auto simp: rune_len_def)

definition lead2 :: "u8 \<Rightarrow> bool" where
  "lead2 b \<longleftrightarrow> is_cont b \<or> 160 \<le> b \<or> 144 \<le> b \<or> 128 \<le> b"

lemma rune_len_shape:
  assumes "\<not> b0 < 128" and "rune_len (b0 # bs) = n"
  shows "n = 0 \<or> (\<exists>b1 r. bs = b1 # r \<and> n = 2 \<and> lead2 b1) \<or>
    (\<exists>b1 b2 r. bs = b1 # b2 # r \<and> n = 3 \<and> lead2 b1 \<and> is_cont b2) \<or>
    (\<exists>b1 b2 b3 r. bs = b1 # b2 # b3 # r \<and> n = 4 \<and> lead2 b1 \<and> is_cont b2 \<and> is_cont b3)"
  using assms unfolding rune_len_def lead2_def
  by (simp only: list.case if_False split: list.split_asm if_split_asm) blast+

lemma valid_utf8_ascii: "list_all (\<lambda>c. byte c < 128) s \<Longrightarrow> valid_utf8 s"
proof (induction s)
  case (Cons c s)
  then show ?case using rune_len_ascii [of c s] by (simp add: valid_utf8.simps [of "c # s"] del: list.map)
qed (simp add: valid_utf8.simps)

lemma rune_bytes:
  assumes "\<not> b0 < 128"
  shows "list_all (\<lambda>b. 128 \<le> b) (take (rune_len (b0 # bs)) (b0 # bs))"
proof -
  have lead: "128 \<le> b" if "lead2 b" for b
    using that order_trans [of 128 160 b] order_trans [of 128 144 b] by (auto simp: lead2_def is_cont_def)
  have cont: "128 \<le> b" if "is_cont b" for b using that by (simp add: is_cont_def)
  have "128 \<le> b0" using assms by simp
  with rune_len_shape [OF assms refl, of bs] lead cont show ?thesis by (elim disjE exE conjE) simp_all
qed

lemma rune_high:
  assumes "\<not> byte c < 128" and "x \<in> set (take (rune_len (map byte (c # s))) (c # s))"
  shows "x \<noteq> quote_char \<and> x \<noteq> backslash"
proof -
  have "list_all (\<lambda>b. 128 \<le> b) (map byte (take (rune_len (map byte (c # s))) (c # s)))"
    using rune_bytes [OF assms(1), of "map byte s"] by (simp flip: take_map)
  with assms(2) have "128 \<le> byte x" by (simp only: list_all_iff set_map) blast
  then show ?thesis by auto
qed

lemma line_separators:
  "map byte w = [226, 128, 168] \<Longrightarrow> unicode_escape ''2028'' = Some w"
  "map byte w = [226, 128, 169] \<Longrightarrow> unicode_escape ''2029'' = Some w"
proof -
  have bytes: "map byte [CHR 0xE2, CHR 0x80, CHR 0xA8] = [226, 128, 168]" "map byte [CHR 0xE2, CHR 0x80, CHR 0xA9] = [226, 128, 169]"
    by (simp_all add: byte_def)
  have "inj byte" by (simp add: inj_def)
  then have "w = [CHR 0xE2, CHR 0x80, CHR 0xA8]" if "map byte w = [226, 128, 168]"
    using that bytes(1) by (metis inj_map_eq_map)
  moreover have "w = [CHR 0xE2, CHR 0x80, CHR 0xA9]" if "map byte w = [226, 128, 169]"
    using that bytes(2) \<open>inj byte\<close> by (metis inj_map_eq_map)
  ultimately show "map byte w = [226, 128, 168] \<Longrightarrow> unicode_escape ''2028'' = Some w"
    "map byte w = [226, 128, 169] \<Longrightarrow> unicode_escape ''2029'' = Some w"
    by (simp_all add: unicode_escape_def)
qed

lemma json_scan_body:
  assumes "valid_utf8 s" and "length s \<le> fuel"
  shows "json_scan (json_body fuel s @ quote_char # u) = Some (s, u)"
  using assms
proof (induction fuel arbitrary: s)
  case (Suc fuel)
  show ?case
  proof (cases s)
    case (Cons c s')
    let ?n = "rune_len (map byte s)"
    have n: "?n \<noteq> 0" and rest: "valid_utf8 (drop ?n s)"
      using Suc.prems(1) Cons valid_utf8.simps [of s] by (auto split: if_splits)
    have IH: "json_scan (json_body fuel (drop ?n s) @ quote_char # u) = Some (drop ?n s, u)"
      using Suc.prems(2) n Cons by (intro Suc.IH rest) auto
    show ?thesis
    proof (cases "byte c < 128")
      case True
      then show ?thesis using IH rune_len_ascii [OF True, of s'] Cons by (simp add: json_scan_ascii)
    next
      case False
      have plain: "\<forall>x \<in> set (take ?n s). x \<noteq> quote_char \<and> x \<noteq> backslash"
        using rune_high [OF False] Cons by blast
      show ?thesis
      proof (cases "map byte (take ?n s) = [226, 128, 168] \<or> map byte (take ?n s) = [226, 128, 169]")
        case True
        then obtain ds where "unicode_escape ds = Some (take ?n s)" "length ds = 4"
          and "json_body (Suc fuel) s = backslash # CHR ''u'' # ds @ json_body fuel (drop ?n s)"
        proof (elim disjE)
          assume "map byte (take ?n s) = [226, 128, 168]"
          with n False Cons line_separators that [of "''2028''"] show thesis by (simp add: Let_def)
        next
          assume "map byte (take ?n s) = [226, 128, 169]"
          with n False Cons line_separators that [of "''2029''"] show thesis by (simp add: Let_def)
        qed
        then show ?thesis using IH json_scan_unicode [of ds] by (simp del: json_scan.simps json_body.simps)
      next
        case copied: False
        then have "json_body (Suc fuel) s = take ?n s @ json_body fuel (drop ?n s)"
          using n False Cons by (auto simp: Let_def)
        then show ?thesis using IH json_scan_plain [OF plain] by (simp del: json_body.simps)
      qed
    qed
  qed simp
qed simp

section \<open>Prefix codes\<close>

text \<open>Equality of texts that begin with an encoded value, field by field.\<close>

lemma json_string_cancel:
  assumes "valid_utf8 a" and "valid_utf8 b"
  shows "json_string a @ u = json_string b @ v \<longleftrightarrow> a = b \<and> u = v"
proof
  assume "json_string a @ u = json_string b @ v"
  then have "json_scan (json_body (length a) a @ quote_char # u) = json_scan (json_body (length b) b @ quote_char # v)"
    by (simp add: json_string_def)
  with assms show "a = b \<and> u = v" by (simp add: json_scan_body)
qed simp

lemma json_string_inj: "valid_utf8 a \<Longrightarrow> valid_utf8 b \<Longrightarrow> json_string a = json_string b \<longleftrightarrow> a = b"
  using json_string_cancel [of a b "[]" "[]"] by simp

lemma dec_cancel:
  assumes "digit_val c = None" and "digit_val d = None"
  shows "dec m @ c # u = dec n @ d # v \<longleftrightarrow> m = n \<and> c = d \<and> u = v"
proof
  assume eq: "dec m @ c # u = dec n @ d # v"
  have "takeWhile (\<lambda>x. digit_val x \<noteq> None) (dec k @ e # w) = dec k" if "digit_val e = None" for k e w
    using that dec_digits by (simp add: takeWhile_append takeWhile_eq_all_conv)
  with eq assms have "dec m = dec n" by metis
  with eq show "m = n \<and> c = d \<and> u = v" by simp
qed simp

text \<open>
  An encoding is a code for array elements when the text up to the following comma or bracket
  determines the value; then the text of a whole array determines the list.
\<close>

locale element_code =
  fixes enc :: "'a \<Rightarrow> string"
    and ok :: "'a \<Rightarrow> bool"
  assumes element_cancel: "ok a \<Longrightarrow> ok b \<Longrightarrow> c \<in> set '',]'' \<Longrightarrow> d \<in> set '',]'' \<Longrightarrow>
      enc a @ c # u = enc b @ d # v \<longleftrightarrow> a = b \<and> c = d \<and> u = v"
    and element_start: "enc a @ c # u \<noteq> CHR '']'' # v"
begin

lemma elements_Cons:
  "join_on (CHR '','') (map enc (x # xs)) @ CHR '']'' # u =
     enc x @ (if xs = [] then CHR '']'' # u else CHR '','' # join_on (CHR '','') (map enc xs) @ CHR '']'' # u)"
  by (cases xs) auto

lemma elements_cancel:
  assumes "list_all ok xs" and "list_all ok ys"
  shows "join_on (CHR '','') (map enc xs) @ CHR '']'' # u = join_on (CHR '','') (map enc ys) @ CHR '']'' # v \<longleftrightarrow>
    xs = ys \<and> u = v"
  using assms
proof (induction xs arbitrary: ys)
  case Nil
  then show ?case
    using element_start [symmetric] by (cases ys) (simp_all add: elements_Cons del: list.map(2))
next
  case (Cons x xs)
  show ?case
  proof (cases ys)
    case Nil
    then show ?thesis using element_start by (simp add: elements_Cons del: list.map(2))
  next
    case ys: (Cons y ys')
    show ?thesis
      using Cons ys element_cancel [of x y]
      by (simp add: elements_Cons del: list.map)
  qed
qed

lemma array_cancel:
  "list_all ok xs \<Longrightarrow> list_all ok ys \<Longrightarrow>
     json_array (map enc xs) @ u = json_array (map enc ys) @ v \<longleftrightarrow> xs = ys \<and> u = v"
  by (simp add: json_array_def elements_cancel)

end

interpretation js: element_code json_string valid_utf8
proof
  show "json_string a @ c # u \<noteq> CHR '']'' # v" for a c u v by (simp add: json_string_def special_chars)
qed (auto simp: json_string_cancel)

interpretation jn: element_code dec "\<lambda>_. True"
proof
  show "dec a @ c # u \<noteq> CHR '']'' # v" for a c u v
  proof
    assume "dec a @ c # u = CHR '']'' # v"
    then have "CHR '']'' \<in> set (dec a)" using dec_not_Nil [of a] by (metis append_eq_Cons_conv list.set_intros(1))
    then show False using dec_digits by (fastforce simp: digit_val_def)
  qed
  show "dec a @ c # u = dec b @ d # v \<longleftrightarrow> a = b \<and> c = d \<and> u = v" if "c \<in> set '',]''" "d \<in> set '',]''" for a b c d u v
    using that by (intro dec_cancel) (auto simp: digit_val_def)
qed

end
