(* ===== verification/Drift.thy ===== *)
theory Drift
  imports Json Reconciler
begin

text \<open>
  What the recorded hashes detect. \<^verbatim>\<open>proxyHash\<close>, \<^verbatim>\<open>gatewayHash\<close> and \<^verbatim>\<open>targetGatewayHash\<close> decide
  whether a proxy or a gateway is left alone. Their payloads determine the hashed fields, so
  equal hashes mean equal fields, unless SHA-256 itself collides on the two payloads.
\<close>

section \<open>Payloads\<close>

definition collides :: "string \<Rightarrow> string \<Rightarrow> bool" where
  "collides p q \<longleftrightarrow> p \<noteq> q \<and> sha256_hex p = sha256_hex q"

lemma sha256_hex_eq_iff: "sha256_hex p = sha256_hex q \<longleftrightarrow> p = q \<or> collides p q"
  by (auto simp: collides_def)

definition spec_payload :: "egressSpec \<Rightarrow> string \<Rightarrow> string" where
  "spec_payload eg img =
     json_object
       [(''Hostname'', json_string (eg_Hostname eg)), (''Tag'', json_string (eg_Tag eg)),
        (''Network'', json_string (eg_Network eg)),
        (''Targets'', json_array (map json_string (sort (map addr (eg_Targets eg))))),
        (''Image'', json_string img)]"

text \<open>A nil slice is marshalled as \<^verbatim>\<open>null\<close>.\<close>

definition json_tags :: "string list \<Rightarrow> string" where
  "json_tags tags = (if tags = [] then ''null'' else json_array (map json_string tags))"

definition proxy_payload :: "proxyConfig \<Rightarrow> string" where
  "proxy_payload c =
     json_object
       [(''Hostname'', json_string (px_Hostname c)), (''Target'', json_string (px_Target c)),
        (''Ports'', json_array (map (\<lambda>p. dec (unat p)) (sort (map port_Target (px_Ports c))))),
        (''StateDir'', json_string (px_StateDir c)), (''LoginURL'', json_string (px_LoginURL c)),
        (''Tags'', json_tags (sort (px_Tags c)))]"

lemma gatewayHash_payload: "gatewayHash eg img = sha256_hex (spec_payload eg img)"
  by (simp add: gatewayHash_def spec_payload_def)

lemma proxyHash_payload: "proxyHash c = sha256_hex (proxy_payload c)"
  by (simp add: proxyHash_def proxy_payload_def json_tags_def Let_def)

lemma sort_eq_iff: "sort xs = sort ys \<longleftrightarrow> mset xs = mset ys"
  by (metis mset_sort properties_for_sort sorted_sort)

lemma map_unat_inj: "map unat xs = map unat ys \<longleftrightarrow> xs = ys"
  by (metis inj_map_eq_map inj_on_def unsigned_word_eqI)

lemma gateway_payload_inj:
  assumes "list_all valid_utf8 [h, t, n, a, i]" and "list_all valid_utf8 [h', t', n', a', i']"
  shows "gateway_payload h t n a i = gateway_payload h' t' n' a' i' \<longleftrightarrow>
    h = h' \<and> t = t' \<and> n = n' \<and> a = a' \<and> i = i'"
  using assms by (simp add: gateway_payload_def json_object_def json_string_cancel json_string_inj)

lemma ports_cancel:
  "json_array (map (\<lambda>p. dec (unat p)) xs) @ u = json_array (map (\<lambda>p. dec (unat p)) ys) @ v \<longleftrightarrow> xs = ys \<and> u = v"
  for xs ys :: "'a::len word list"
  using jn.array_cancel [of "map unat xs" "map unat ys" u v] by (simp add: map_unat_inj list_all_iff comp_def)

lemma spec_payload_inj:
  assumes "list_all valid_utf8 ([eg_Hostname eg, eg_Tag eg, eg_Network eg, img] @ map addr (eg_Targets eg))"
    and "list_all valid_utf8 ([eg_Hostname eg', eg_Tag eg', eg_Network eg', img'] @ map addr (eg_Targets eg'))"
  shows "spec_payload eg img = spec_payload eg' img' \<longleftrightarrow>
    eg_Hostname eg = eg_Hostname eg' \<and> eg_Tag eg = eg_Tag eg' \<and> eg_Network eg = eg_Network eg' \<and>
    image_mset addr (mset (eg_Targets eg)) = image_mset addr (mset (eg_Targets eg')) \<and> img = img'"
proof -
  have "list_all valid_utf8 (sort (map addr (eg_Targets eg)))" "list_all valid_utf8 (sort (map addr (eg_Targets eg')))"
    using assms by (simp_all add: list_all_iff)
  note arr = js.array_cancel [OF this]
  show ?thesis
    using assms by (simp add: spec_payload_def json_object_def json_string_cancel json_string_inj arr sort_eq_iff)
qed

lemma json_tags_inj:
  assumes "list_all valid_utf8 xs" and "list_all valid_utf8 ys"
  shows "json_tags xs = json_tags ys \<longleftrightarrow> xs = ys"
proof -
  have "json_array zs \<noteq> ''null''" for zs by (simp add: json_array_def)
  then show ?thesis
    using js.array_cancel [OF assms, of "[]" "[]"] by (auto simp: json_tags_def dest: sym)
qed

definition utf8_config :: "proxyConfig \<Rightarrow> bool" where
  "utf8_config c \<longleftrightarrow>
     list_all valid_utf8 ([px_Hostname c, px_Target c, px_StateDir c, px_LoginURL c] @ px_Tags c)"

lemma proxy_payload_inj:
  assumes "utf8_config c" and "utf8_config c'"
  shows "proxy_payload c = proxy_payload c' \<longleftrightarrow>
    px_Hostname c = px_Hostname c' \<and> px_Target c = px_Target c' \<and>
    image_mset port_Target (mset (px_Ports c)) = image_mset port_Target (mset (px_Ports c')) \<and>
    px_StateDir c = px_StateDir c' \<and> px_LoginURL c = px_LoginURL c' \<and> mset (px_Tags c) = mset (px_Tags c')"
proof -
  have "list_all valid_utf8 (sort (px_Tags c))" "list_all valid_utf8 (sort (px_Tags c'))"
    using assms by (simp_all add: utf8_config_def list_all_iff)
  note tags = json_tags_inj [OF this]
  show ?thesis
    using assms
    by (simp add: proxy_payload_def json_object_def json_string_cancel ports_cancel tags sort_eq_iff utf8_config_def)
qed

section \<open>Properties\<close>

text \<open>
  C21: the drift check of a running gateway is exact. The hash rebuilt from the live spec equals
  the desired one exactly when the container, the environment and the network of the running
  service carry the desired host name, tag, target, image and network, unless SHA-256 collides on the
  two payloads; a service without a container never counts as up to date. So a gateway is
  updated in place when, and only when, one of these fields changed.
\<close>

theorem gateway_drift_detected:
  assumes "ss_ContainerSpec (svc_Spec gw) = Some cs"
    and "live = (\<lambda>k. get_str (env_map (cs_Env cs)) k)"
    and "network = (case ss_TaskNetworks (svc_Spec gw) of [] \<Rightarrow> [] | n # _ \<Rightarrow> na_Target n)"
    and "list_all valid_utf8 [live envGatewayHostname, live envGatewayTag, network, live envGatewayTargets, cs_Image cs]"
    and "list_all valid_utf8 [gatewayHostname eg t, eg_Tag eg, eg_Network eg, addr t, img]"
  shows "liveGatewayHash gw = targetGatewayHash eg t img \<longleftrightarrow>
    (live envGatewayHostname = gatewayHostname eg t \<and> live envGatewayTag = eg_Tag eg \<and> network = eg_Network eg \<and>
       live envGatewayTargets = addr t \<and> cs_Image cs = img) \<or>
    collides
      (gateway_payload (live envGatewayHostname) (live envGatewayTag) network (live envGatewayTargets) (cs_Image cs))
      (gateway_payload (gatewayHostname eg t) (eg_Tag eg) (eg_Network eg) (addr t) img)"
  using assms(1-3) gateway_payload_inj [OF assms(4,5)]
  by (simp add: liveGatewayHash_def targetGatewayHash_def Let_def sha256_hex_eq_iff)

text \<open>A gateway of the example spec that still runs an older image.\<close>

definition demo_old_gateway :: service where
  "demo_old_gateway = \<lparr>svc_ID = ''gw-1'', svc_Version = 7,
     svc_Spec = gatewaySpec demo_eg demo_target ''app'' demo_config ''img:1'' ''secret''\<rparr>"

lemma demo_utf8:
  "list_all valid_utf8 [gatewayHostname demo_eg demo_target, eg_Tag demo_eg, eg_Network demo_eg, addr demo_target, ''img:1'', ''img:2'']"
proof -
  have "gatewayHostname demo_eg demo_target = ''admin-pma-egress-db-mysql''" "addr demo_target = ''db-mysql:3306''"
    by (simp_all add: gatewayHostname_def demo_eg_def demo_target_def maxTailnetHostname_def addr_def dec.simps)
  then show ?thesis by (simp add: demo_eg_def valid_utf8_ascii byte_def)
qed

theorem gateway_drift_detected_witness:
  "(liveGatewayHash demo_old_gateway = targetGatewayHash demo_eg demo_target ''img:2'') =
     collides
       (gateway_payload (gatewayHostname demo_eg demo_target) (eg_Tag demo_eg) (eg_Network demo_eg) (addr demo_target) ''img:1'')
       (gateway_payload (gatewayHostname demo_eg demo_target) (eg_Tag demo_eg) (eg_Network demo_eg) (addr demo_target) ''img:2'')"
proof -
  obtain cs where cs: "ss_ContainerSpec (svc_Spec demo_old_gateway) = Some cs" "cs_Image cs = ''img:1''"
    and net: "(case ss_TaskNetworks (svc_Spec demo_old_gateway) of [] \<Rightarrow> [] | n # _ \<Rightarrow> na_Target n) = eg_Network demo_eg"
    by (simp add: demo_old_gateway_def gatewaySpec_def Let_def)
  have live: "get_str (env_map (cs_Env cs)) envGatewayHostname = gatewayHostname demo_eg demo_target"
    "get_str (env_map (cs_Env cs)) envGatewayTag = eg_Tag demo_eg"
    "get_str (env_map (cs_Env cs)) envGatewayTargets = addr demo_target"
    using cs(1) by (auto simp: demo_old_gateway_def intro: env_map_gatewaySpec)
  show ?thesis
    using gateway_drift_detected [OF cs(1) refl refl, of demo_eg demo_target "''img:2''"] demo_utf8
    by (simp add: live net cs(2))
qed

text \<open>
  C22: the ingress hash is exact. Two proxy configurations have the same \<^verbatim>\<open>proxyHash\<close> exactly when
  they agree on host name, target, state directory, login URL, and up to order on the ports
  proxied and the tags, unless SHA-256 collides on the two payloads. The key does
  not enter it, so a running proxy is replaced when, and only when, one of these fields changed.
\<close>

theorem proxyHash_exact:
  assumes "utf8_config c" and "utf8_config c'"
  shows "proxyHash c = proxyHash c' \<longleftrightarrow>
    (px_Hostname c = px_Hostname c' \<and> px_Target c = px_Target c' \<and>
     image_mset port_Target (mset (px_Ports c)) = image_mset port_Target (mset (px_Ports c')) \<and>
     px_StateDir c = px_StateDir c' \<and> px_LoginURL c = px_LoginURL c' \<and> mset (px_Tags c) = mset (px_Tags c')) \<or>
    collides (proxy_payload c) (proxy_payload c')"
  by (simp add: proxyHash_payload sha256_hex_eq_iff proxy_payload_inj [OF assms])

definition demo_pcfg :: proxyConfig where
  "demo_pcfg = \<lparr>px_Hostname = ''web'', px_Target = ''app_web'', px_AuthKey = ''k1'',
     px_Ports = [\<lparr>port_Target = 80\<rparr>], px_StateDir = ''/state'',
     px_LoginURL = ''https://hs'', px_Tags = [''tag:web'', ''tag:team'']\<rparr>"

theorem proxyHash_exact_witness:
  "proxyHash demo_pcfg = proxyHash (demo_pcfg\<lparr>px_AuthKey := ''k2'', px_Tags := [''tag:team'', ''tag:web'']\<rparr>) \<and>
   (proxyHash demo_pcfg = proxyHash (demo_pcfg\<lparr>px_StateDir := ''/other''\<rparr>)) =
     collides (proxy_payload demo_pcfg) (proxy_payload (demo_pcfg\<lparr>px_StateDir := ''/other''\<rparr>))"
proof -
  have "utf8_config demo_pcfg" "utf8_config (demo_pcfg\<lparr>px_AuthKey := ''k2'', px_Tags := [''tag:team'', ''tag:web'']\<rparr>)"
    "utf8_config (demo_pcfg\<lparr>px_StateDir := ''/other''\<rparr>)"
    by (simp_all add: utf8_config_def demo_pcfg_def valid_utf8_ascii byte_def)
  note same = proxyHash_exact [OF this(1,2)] and other = proxyHash_exact [OF this(1,3)]
  show ?thesis using same other by (simp add: demo_pcfg_def)
qed

text \<open>
  The same for the hash of a whole egress spec, up to the order of its targets.
\<close>

theorem gatewayHash_exact:
  assumes "list_all valid_utf8 ([eg_Hostname eg, eg_Tag eg, eg_Network eg, img] @ map addr (eg_Targets eg))"
    and "list_all valid_utf8 ([eg_Hostname eg', eg_Tag eg', eg_Network eg', img'] @ map addr (eg_Targets eg'))"
  shows "gatewayHash eg img = gatewayHash eg' img' \<longleftrightarrow>
    (eg_Hostname eg = eg_Hostname eg' \<and> eg_Tag eg = eg_Tag eg' \<and> eg_Network eg = eg_Network eg' \<and>
     image_mset addr (mset (eg_Targets eg)) = image_mset addr (mset (eg_Targets eg')) \<and> img = img') \<or>
    collides (spec_payload eg img) (spec_payload eg' img')"
  by (simp add: gatewayHash_payload sha256_hex_eq_iff spec_payload_inj [OF assms])

end
