(* ===== verification/Takeover.thy ===== *)
theory Takeover
  imports Reconciler_Frame
begin

text \<open>
  Two egress targets on one host. Below the length cap the name of a gateway service contains
  the target's host but not its port, so the gateway of a second target on the same host cannot
  be created beside the first. The theory follows what \<^verbatim>\<open>createGateway\<close> and \<^verbatim>\<open>adoptExistingGateway\<close> do
  then, on a Swarm whose service names are unique.
\<close>

section \<open>Definitions\<close>

text \<open>A Swarm with the given services: a name in use is refused, and listing by name finds the
  services of that name.\<close>

definition unique_names :: "env \<Rightarrow> service list \<Rightarrow> bool" where
  "unique_names e running \<longleftrightarrow>
     distinct (map (\<lambda>g. ss_Name (svc_Spec g)) running) \<and>
     (\<forall>tr spec. ss_Name spec \<in> set (map (\<lambda>g. ss_Name (svc_Spec g)) running) \<longrightarrow>
        env_create e tr spec = Inl (ErrVar ServiceExists)) \<and>
     (\<forall>tr f. lf_Key f = [] \<longrightarrow>
        env_list e tr f = Inr (filter (\<lambda>g. ss_Name (svc_Spec g) = lf_Name f) running))"

lemma filter_unique: "distinct (map f xs) \<Longrightarrow> x \<in> set xs \<Longrightarrow> filter (\<lambda>y. f y = f x) xs = [x]"
  by (induction xs) (auto simp: filter_empty_conv image_iff)

section \<open>Properties\<close>

text \<open>
  C35: a second target on a host takes the first one's gateway. While the gateway of one target
  runs, creating the gateway of another target on the same host and a different port succeeds by updating
  the running service: the new reference names the same Docker service, and that service now
  forwards to the new target only. Both targets are then tracked, one without a gateway.
\<close>

theorem same_host_gateway_taken_over:
  assumes "short_name eg t" and "et_Host t' = et_Host t" and "addr t' \<noteq> addr t"
    and "unique_names (rec_env r) running" and "gw \<in> set running"
    and "svc_Spec gw = gatewaySpec eg t sid cfg img key0"
    and "env_wait (rec_env r) (rs_trace s) = None"
    and "\<forall>tr req. env_mint (rec_env r) tr req = Inr key"
    and "\<forall>tr i v spec. env_update (rec_env r) tr i v spec = None"
  shows "\<exists>ref s' spec. run_state (createGateway r sid eg t') s = (Inr ref, s') \<and>
    gr_Target ref = addr t' \<and> gr_ServiceID ref = svc_ID gw \<and>
    last (rs_trace s') = EvUpdate (svc_ID gw) (svc_Version gw) spec None \<and>
    (\<forall>gw'. svc_Spec gw' = spec \<longrightarrow> gatewayTargetAddr gw' = addr t' \<and> gatewayTargetAddr gw' \<noteq> gatewayTargetAddr gw)"
proof -
  let ?spec = "gatewaySpec eg t' sid (rec_Cfg r) (rec_GatewayImage r) (key_Secret key)"
  have name: "ss_Name ?spec = ss_Name (svc_Spec gw)"
    unfolding assms(6) by (rule sym) (rule same_host_targets_collide [OF assms(1) assms(2) [symmetric]])
  have uniq: "distinct (map (\<lambda>g. ss_Name (svc_Spec g)) running)" using assms(4) by (simp add: unique_names_def)
  have "env_create (rec_env r) tr ?spec = Inl (ErrVar ServiceExists)" for tr
    using assms(4,5) name by (auto simp: unique_names_def)
  moreover have "env_list (rec_env r) tr \<lparr>lf_Key = [], lf_Value = [], lf_Name = ss_Name ?spec\<rparr> = Inr [gw]" for tr
    using assms(4) filter_unique [OF uniq assms(5)] by (simp add: unique_names_def name)
  ultimately have "\<exists>ref s'. run_state (createGateway r sid eg t') s = (Inr ref, s') \<and>
      gr_Target ref = addr t' \<and> gr_ServiceID ref = svc_ID gw \<and>
      last (rs_trace s') = EvUpdate (svc_ID gw) (svc_Version gw) ?spec None"
    using assms(7-9)
    by (simp add: createGateway_def adoptExistingGateway_def runs Let_def gateway_ref_def)
  moreover have "gatewayTargetAddr gw' = addr t'" if "svc_Spec gw' = ?spec" for gw'
    using that by (rule gatewayTargetAddr_spec)
  moreover have "gatewayTargetAddr gw = addr t" using assms(6) by (rule gatewayTargetAddr_spec)
  ultimately show ?thesis using assms(3) by metis
qed

definition demo_gw :: service where
  "demo_gw = \<lparr>svc_ID = ''gw-1'', svc_Version = 7,
     svc_Spec = gatewaySpec demo_eg demo_target ''app1'' demo_config ''img'' ''secret''\<rparr>"

definition demo_unique_rec :: reconciler where
  "demo_unique_rec = demo_rec\<lparr>rec_env := calm_env\<lparr>
     env_create := (\<lambda>_ spec. if ss_Name spec = ss_Name (svc_Spec demo_gw) then Inl (ErrVar ServiceExists) else Inr ''gw-2''),
     env_list := (\<lambda>_ f. Inr (filter (\<lambda>g. ss_Name (svc_Spec g) = lf_Name f) [demo_gw]))\<rparr>\<rparr>"

theorem same_host_gateway_taken_over_witness:
  "\<exists>ref s'. run_state (createGateway demo_unique_rec ''app1'' demo_eg \<lparr>et_Host = ''db-mysql'', et_Port = 33060\<rparr>)
     \<lparr>rs_store = [], rs_trace = []\<rparr> = (Inr ref, s') \<and> gr_ServiceID ref = ''gw-1''"
proof -
  let ?t' = "\<lparr>et_Host = ''db-mysql'', et_Port = 33060\<rparr>"
  have "short_name demo_eg demo_target" "et_Host ?t' = et_Host demo_target" "addr ?t' \<noteq> addr demo_target"
    "unique_names (rec_env demo_unique_rec) [demo_gw]" "demo_gw \<in> set [demo_gw]"
    "svc_Spec demo_gw = gatewaySpec demo_eg demo_target ''app1'' demo_config ''img'' ''secret''"
    "env_wait (rec_env demo_unique_rec) (rs_trace \<lparr>rs_store = [], rs_trace = []\<rparr>) = None"
    "\<forall>tr req. env_mint (rec_env demo_unique_rec) tr req = Inr calm_key"
    "\<forall>tr i v spec. env_update (rec_env demo_unique_rec) tr i v spec = None"
    by (simp_all add: short_name_def demo_eg_def demo_target_def maxTailnetHostname_def addr_def dec.simps
        unique_names_def demo_unique_rec_def demo_gw_def calm_env_def)
  from same_host_gateway_taken_over [OF this] show ?thesis by (auto simp: demo_gw_def)
qed

end
