(* ===== verification/Shutdown.thy ===== *)
theory Shutdown
  imports Reconciler_Pass
begin

text \<open>
  A pass that is cut in two by the shutdown. \<^verbatim>\<open>run\<close> of \<^verbatim>\<open>main.go\<close> calls \<^verbatim>\<open>CloseAll\<close> as soon as the
  context is cancelled and only then waits for the workers, so \<^verbatim>\<open>CloseAll\<close> may run between any two
  calls of a pass. Here \<^verbatim>\<open>reconcileIngress\<close> is split where the new proxy has started but is not
  stored yet, and \<^verbatim>\<open>CloseAll\<close> runs in between.
\<close>

section \<open>Definitions\<close>

text \<open>What the first half leaves to do: nothing, because the call has returned, or to swap in the
  proxy that was started.\<close>

record swap =
  sw_prev :: entry
  sw_hadPrev :: bool
  sw_key :: key
  sw_proxy :: proxy

datatype half = Done "goerr option" | Swap swap

definition ingress_start :: "reconciler \<Rightarrow> string \<Rightarrow> target \<Rightarrow> half act" where
  "ingress_start r sid tgt =
     (if \<not> tgt_Ingress tgt then do { e \<leftarrow> teardownIngress r sid; ret (Done e) }
      else do {
        let desired = proxyConfigFor tgt (rec_Cfg r);
        let desiredHash = proxyHash desired;
        (prev, hadPrev) \<leftarrow> StoreGet sid;
        if hadPrev \<and> en_LastSpecHash prev = desiredHash \<and> en_Proxy prev \<noteq> None then do {
          t \<leftarrow> Now (rec_env r);
          StorePut sid (prev\<lparr>en_LastReconcileAt := t\<rparr>);
          ret (Done None)
        } else do {
          w \<leftarrow> LimiterWait (rec_env r);
          case w of
            Some e \<Rightarrow> ret (Done (Some (ErrWrap ''rate limit'' e)))
          | None \<Rightarrow> do {
              k \<leftarrow> CreateEphemeralKey (rec_env r) (key_request r (tgt_Tag tgt));
              case k of
                Inl e \<Rightarrow> ret (Done (Some (ErrWrap ''mint key'' e)))
              | Inr key \<Rightarrow> do {
                  p \<leftarrow> NewProxy (rec_env r) (desired\<lparr>px_AuthKey := key_Secret key\<rparr>);
                  case p of
                    Inl e \<Rightarrow> do {
                      expireOrLog r (key_ID key);
                      ret (Done (Some (ErrWrap (''start proxy '' @ px_Hostname desired) e)))
                    }
                  | Inr proxy \<Rightarrow>
                      ret (Swap \<lparr>sw_prev = prev, sw_hadPrev = hadPrev, sw_key = key, sw_proxy = proxy\<rparr>)
                }
            }
        }
      })"

definition ingress_swap :: "reconciler \<Rightarrow> string \<Rightarrow> target \<Rightarrow> swap \<Rightarrow> goerr option act" where
  "ingress_swap r sid tgt w = do {
     t \<leftarrow> Now (rec_env r);
     StorePut sid ((sw_prev w)\<lparr>en_Proxy := Some (sw_proxy w),
       en_LastSpecHash := proxyHash (proxyConfigFor tgt (rec_Cfg r)),
       en_PreAuthKeyID := key_ID (sw_key w), en_LastReconcileAt := t\<rparr>);
     (if sw_hadPrev w then
        (case en_Proxy (sw_prev w) of
           None \<Rightarrow> ret ()
         | Some old \<Rightarrow> do {
             _ \<leftarrow> ProxyClose (rec_env r) old;
             expireOrLog r (en_PreAuthKeyID (sw_prev w))
           })
      else ret ());
     ret None
   }"

section \<open>The halves make the whole\<close>

lemma reconcileIngress_halves:
  "reconcileIngress r sid tgt =
     ingress_start r sid tgt \<bind> (\<lambda>h. case h of Done e \<Rightarrow> ret e | Swap w \<Rightarrow> ingress_swap r sid tgt w)"
proof (rule state.expand, rule ext)
  fix s
  show "run_state (reconcileIngress r sid tgt) s =
    run_state (ingress_start r sid tgt \<bind> (\<lambda>h. case h of Done e \<Rightarrow> ret e | Swap w \<Rightarrow> ingress_swap r sid tgt w)) s"
    by (auto simp: reconcileIngress_def ingress_start_def ingress_swap_def Let_def runs
        split: prod.splits option.splits sum.splits)
qed

lemma ingress_start_Swap:
  assumes "run_state (ingress_start r sid tgt) s = (Swap w, s1)"
  shows "rs_store s1 = rs_store s" and "store_Get (rs_store s1) sid = (sw_prev w, sw_hadPrev w)"
    and "\<exists>c. last (rs_trace s1) = EvStart c (Inr (sw_proxy w))"
  using assms
  by (auto simp: ingress_start_def Let_def runs split: if_splits prod.splits option.splits sum.splits)

lemma ingress_swap_run:
  assumes "run_state (ingress_swap r sid tgt w) s = (err, s')"
  shows "err = None" and "en_Proxy (entry_of s' sid) = Some (sw_proxy w)"
    and "\<exists>es. rs_trace s' = rs_trace s @ es \<and> (\<forall>p c. EvClose p c \<in> set es \<longrightarrow> sw_hadPrev w \<and> en_Proxy (sw_prev w) = Some p)"
  using assms
  by (auto simp: ingress_swap_def expireOrLog_def runs split: if_splits option.splits)

section \<open>Properties\<close>

text \<open>
  C37: the order of the shutdown matters. When \<^verbatim>\<open>CloseAll\<close> runs after a pass has started its new
  proxy and before it has stored it, the pass still succeeds and records the proxy, but the proxy is closed
  neither by \<^verbatim>\<open>CloseAll\<close> nor by the pass, and no further \<^verbatim>\<open>CloseAll\<close> follows; had \<^verbatim>\<open>CloseAll\<close> waited
  for the pass, it would have closed the proxy.
\<close>

theorem shutdown_race_leaves_proxy:
  assumes start: "run_state (ingress_start r sid tgt) s = (Swap w, s1)"
    and fresh: "\<forall>i. en_Proxy (entry_of s1 i) \<noteq> Some (sw_proxy w)"
    and early: "run_state (CloseAll r) s1 = ((), s2)" "run_state (ingress_swap r sid tgt w) s2 = (err, s3)"
    and waited: "run_state (ingress_swap r sid tgt w) s1 = (err', t2)" "run_state (CloseAll r) t2 = ((), t3)"
  shows "err = None \<and> (\<exists>c. last (rs_trace s1) = EvStart c (Inr (sw_proxy w))) \<and>
    en_Proxy (entry_of s3 sid) = Some (sw_proxy w) \<and>
    (\<exists>es. rs_trace s3 = rs_trace s1 @ es \<and> (\<forall>c. EvClose (sw_proxy w) c \<notin> set es)) \<and>
    (\<exists>es c. rs_trace t3 = rs_trace t2 @ es \<and> EvClose (sw_proxy w) c \<in> set es)"
proof (intro conjI)
  note st = ingress_start_Swap [OF start]
  show "err = None" "en_Proxy (entry_of s3 sid) = Some (sw_proxy w)"
    using ingress_swap_run [OF early(2)] by simp_all
  show "\<exists>c. last (rs_trace s1) = EvStart c (Inr (sw_proxy w))" by (rule st(3))
  obtain es where es: "rs_trace s2 = rs_trace s1 @ es" "\<And>e. e \<in> set es \<Longrightarrow> \<exists>i p c. en_Proxy (entry_of s1 i) = Some p \<and> e = EvClose p c"
    using CloseAll_effect [OF early(1)] by blast
  obtain es' where es': "rs_trace s3 = rs_trace s2 @ es'"
    "\<And>p c. EvClose p c \<in> set es' \<Longrightarrow> en_Proxy (sw_prev w) = Some p"
    using ingress_swap_run(3) [OF early(2)] by blast
  have "sw_prev w = entry_of s1 sid" using st(2) by simp
  with es es' fresh have "EvClose (sw_proxy w) c \<notin> set (es @ es')" for c by fastforce
  with es(1) es'(1) show "\<exists>es. rs_trace s3 = rs_trace s1 @ es \<and> (\<forall>c. EvClose (sw_proxy w) c \<notin> set es)"
    by (metis append_assoc)
  show "\<exists>es c. rs_trace t3 = rs_trace t2 @ es \<and> EvClose (sw_proxy w) c \<in> set es"
    using CloseAll_effect [OF waited(2)] ingress_swap_run(2) [OF waited(1)] by metis
qed

theorem shutdown_race_leaves_proxy_witness:
  "\<exists>w s1 s2 s3. run_state (ingress_start demo_rec ''app1'' demo_tgt) \<lparr>rs_store = [], rs_trace = []\<rparr> = (Swap w, s1) \<and>
     run_state (CloseAll demo_rec) s1 = ((), s2) \<and> run_state (ingress_swap demo_rec ''app1'' demo_tgt w) s2 = (None, s3) \<and>
     en_Proxy (entry_of s3 ''app1'') = Some (sw_proxy w)"
proof -
  obtain w s1 where start: "run_state (ingress_start demo_rec ''app1'' demo_tgt) \<lparr>rs_store = [], rs_trace = []\<rparr> = (Swap w, s1)"
    by (simp add: ingress_start_def demo_tgt_def Let_def runs store_Get_def)
  then have "rs_store s1 = []" using ingress_start_Swap(1) by fastforce
  then have fresh: "\<forall>i. en_Proxy (entry_of s1 i) \<noteq> Some (sw_proxy w)" by (simp add: store_Get_def zeroEntry_def)
  obtain s2 where s2: "run_state (CloseAll demo_rec) s1 = ((), s2)" by (metis old.unit.exhaust prod.exhaust)
  obtain err s3 where s3: "run_state (ingress_swap demo_rec ''app1'' demo_tgt w) s2 = (err, s3)" by fastforce
  obtain err' t2 where t2: "run_state (ingress_swap demo_rec ''app1'' demo_tgt w) s1 = (err', t2)" by fastforce
  obtain t3 where t3: "run_state (CloseAll demo_rec) t2 = ((), t3)" by (metis old.unit.exhaust prod.exhaust)
  from shutdown_race_leaves_proxy [OF start fresh s2 s3 t2 t3] start s2 s3 show ?thesis by blast
qed

end
