(* ===== verification/Reconciler_Outcome.thy ===== *)
theory Reconciler_Outcome
  imports Reconciler_Pass
begin

text \<open>
  What a successful pass achieves, from the labels of the inspected service to the entry in the
  store: the label parser, the ingress and the egress lifecycle and the teardown together.
\<close>

section \<open>What the labels ask for\<close>

definition ingress_realised :: "reconciler \<Rightarrow> target \<Rightarrow> entry \<Rightarrow> bool" where
  "ingress_realised r tgt e \<longleftrightarrow>
     (if tgt_Ingress tgt
      then en_Proxy e \<noteq> None \<and> en_LastSpecHash e = proxyHash (proxyConfigFor tgt (rec_Cfg r))
      else en_Proxy e = None \<and> en_PreAuthKeyID e = [] \<and> en_LastSpecHash e = [])"

text \<open>When the recorded hash was the desired one already, only the count and the targets of the
  gateways are checked; when it was another one, every gateway is brought up to date.\<close>

definition egress_realised :: "reconciler \<Rightarrow> target \<Rightarrow> entry \<Rightarrow> entry \<Rightarrow> bool" where
  "egress_realised r tgt e0 e \<longleftrightarrow>
     (case tgt_Egress tgt of
        None \<Rightarrow> en_Gateways e = []
      | Some eg \<Rightarrow>
          en_GatewayHash e = gatewayHash eg (rec_GatewayImage r) \<and>
          gr_Target ` set (en_Gateways e) \<subseteq> addr ` set (eg_Targets eg) \<and>
          (en_GatewayHash e0 \<noteq> gatewayHash eg (rec_GatewayImage r) \<longrightarrow> gateways_converged r eg e))"

section \<open>The two directions\<close>

lemma ingress_done:
  assumes "run_state (reconcileIngress r sid tgt) s = (None, s')" and "wf_entry (entry_of s sid)"
  shows "ingress_realised r tgt (entry_of s' sid)"
proof (cases "tgt_Ingress tgt")
  case True
  with assms(1) show ?thesis by (cases rule: reconcileIngress_cases) (use True in \<open>auto simp: ingress_realised_def\<close>)
next
  case False
  with assms(1) have "run_state (teardownIngress r sid) s = (None, s')" by (simp add: reconcileIngress_def)
  then show ?thesis
    by (cases rule: teardownIngress_cases)
      (use False assms(2) in \<open>auto simp: ingress_realised_def without_ingress_def wf_entry_def\<close>)
qed

lemma ingress_keeps_hash:
  assumes "run_state (reconcileIngress r sid tgt) s = (err, s')"
  shows "en_GatewayHash (entry_of s' sid) \<in> {en_GatewayHash (entry_of s sid), []}"
proof (cases "tgt_Ingress tgt")
  case True
  with assms show ?thesis by (cases rule: reconcileIngress_cases) (auto simp: silent_store)
next
  case False
  with assms have "run_state (teardownIngress r sid) s = (err, s')" by (simp add: reconcileIngress_def)
  then show ?thesis
    by (cases rule: teardownIngress_cases) (auto simp: silent_store without_ingress_def)
qed

lemma adopt_keeps: "dom (map_of out) \<subseteq> dom (map_of (adopt_loop bySvc out gws))"
proof (induction gws arbitrary: out)
  case (Cons gw gws)
  have "dom (map_of out) \<subseteq> dom (map_of (adopt_loop bySvc (gm_put a ref out) gws))" for a ref
  proof -
    have "dom (map_of out) \<subseteq> dom (map_of (gm_put a ref out))" by (auto simp: update_conv')
    also have "\<dots> \<subseteq> dom (map_of (adopt_loop bySvc (gm_put a ref out) gws))" by (rule Cons.IH)
    finally show ?thesis .
  qed
  with Cons show ?case by (simp add: Let_def)
qed simp

lemma egress_done:
  assumes "run_state (reconcileEgress r sid tgt) s = (None, s')"
  shows "egress_realised r tgt (entry_of s sid) (entry_of s' sid)"
proof (cases "tgt_Egress tgt")
  case None
  with assms have "run_state (teardownEgress r sid) s = (None, s')" by (simp add: reconcileEgress_def)
  from teardownEgress_run [OF this] None show ?thesis
    by (auto simp: egress_realised_def without_egress_def split: if_splits)
next
  case (Some eg)
  with assms show ?thesis
  proof (cases rule: reconcileEgress_cases)
    case (fast gws tm)
    have "gr_Target ` set (en_Gateways (entry_of s sid)) \<subseteq> dom (map_of (tracked_from (entry_of s sid) sid gws))"
      unfolding tracked_from_def set_map [symmetric] dom_stored [symmetric] by (rule adopt_keeps)
    with fast Some show ?thesis by (simp add: egress_realised_def)
  next
    case (diffed gws m errs tm)
    have "errs = []" using diffed(1) [symmetric] by (cases errs) auto
    with diffed sortedGateways_converged have "gateways_converged r eg (entry_of s' sid)" by simp
    then show ?thesis using Some by (auto simp: egress_realised_def gateways_converged_def)
  qed auto
qed

lemma directions_done:
  assumes "run_state (reconcileIngress r sid tgt) s = (None, s1)" and "run_state (reconcileEgress r sid tgt) s1 = (None, s')"
    and "wf_entry (entry_of s sid)"
  shows "ingress_realised r tgt (entry_of s' sid) \<and> egress_realised r tgt (entry_of s sid) (entry_of s' sid)"
proof
  have wf1: "wf_entry (entry_of s1 sid)" using reconcileIngress_effect(3) [OF assms(1,3)] .
  show "ingress_realised r tgt (entry_of s' sid)"
    using ingress_done [OF assms(1,3)] reconcileEgress_effect(1-3) [OF assms(2) wf1] by (simp add: ingress_realised_def)
  show "egress_realised r tgt (entry_of s sid) (entry_of s' sid)"
    using egress_done [OF assms(2)] ingress_keeps_hash [OF assms(1)] gatewayHash_not_Nil [symmetric]
    by (auto simp: egress_realised_def split: option.splits)
qed

lemma found_done:
  assumes "run_state (reconcile_found r sid svc) s = (None, s')" and "wf_entry (entry_of s sid)"
    and "map_of (ss_Labels (svc_Spec svc)) gatewayForLabel = None"
  shows "\<exists>nets tgt enabled. env_networks (rec_env r) (rs_trace s) = Inr nets \<and>
    Parse (parser_of r) svc nets = (tgt, enabled, None) \<and>
    (if enabled then ingress_realised r tgt (entry_of s' sid) \<and> egress_realised r tgt (entry_of s sid) (entry_of s' sid)
     else store_Get (rs_store s') sid = (zeroEntry, False) \<and> taken_down (entry_of s sid) (since s s'))"
proof -
  let ?n = "env_networks (rec_env r) (rs_trace s)"
  from assms(1,3) obtain nets where n: "?n = Inr nets" by (cases ?n) (auto simp: reconcile_found_def runs)
  let ?s1 = "extend s [EvNetworks (Inr nets)]"
  obtain tgt enabled perr where P: "Parse (parser_of r) svc nets = (tgt, enabled, perr)" by (metis prod_cases3)
  have perr: "perr = None"
    using assms(1,3) n P by (auto simp: reconcile_found_def runs split: option.splits prod.splits)
  show ?thesis
  proof (cases enabled)
    case True
    obtain e1 s1 where 1: "run_state (reconcileIngress r sid tgt) ?s1 = (e1, s1)" by fastforce
    obtain e2 s2 where 2: "run_state (reconcileEgress r sid tgt) s1 = (e2, s2)" by fastforce
    have "s' = s2" "e1 = None" "e2 = None"
      using assms(1,3) n P perr True 1 2 by (auto simp: reconcile_found_def runs)
    with directions_done [of r sid tgt ?s1 s1 s2] 1 2 assms(2) n P perr True show ?thesis by auto
  next
    case False
    then have "run_state (teardown r sid) ?s1 = (None, s')"
      using assms(1,3) n P perr by (simp add: reconcile_found_def runs)
    note T = teardown_run [OF this]
    have "later s ?s1" by (simp add: later_def)
    then have "since s s' = EvNetworks (Inr nets) # since ?s1 s'" using since_later [of s ?s1 s'] T by simp
    with T taken_down_Cons n P perr False show ?thesis by auto
  qed
qed

section \<open>Idle passes\<close>

text \<open>The entry is what the labels ask for, gateways included.\<close>

definition settled_entry :: "reconciler \<Rightarrow> target \<Rightarrow> entry \<Rightarrow> bool" where
  "settled_entry r tgt e \<longleftrightarrow> ingress_realised r tgt e \<and>
     (case tgt_Egress tgt of
        None \<Rightarrow> en_Gateways e = []
      | Some eg \<Rightarrow> rec_GatewayImage r \<noteq> [] \<and> gateways_converged r eg e)"

text \<open>Nothing but the time stamp of the entry changes.\<close>

definition same_but_time :: "entry \<Rightarrow> entry \<Rightarrow> bool" where
  "same_but_time e e' \<longleftrightarrow> (\<exists>tm. e' = e\<lparr>en_LastReconcileAt := tm\<rparr>)"

lemma same_but_time_refl [simp]: "same_but_time e e"
  by (cases e) (auto simp: same_but_time_def intro: exI [of _ "en_LastReconcileAt e"])

lemma settled_time [simp]: "settled_entry r tgt (e\<lparr>en_LastReconcileAt := tm\<rparr>) = settled_entry r tgt e"
  by (simp add: settled_entry_def ingress_realised_def gateways_converged_def split: option.splits)

lemma settled_ingress_idle:
  assumes "settled_entry r tgt (entry_of s sid)"
  shows "\<exists>s'. run_state (reconcileIngress r sid tgt) s = (None, s') \<and> rs_trace s' = rs_trace s \<and>
    same_but_time (entry_of s sid) (entry_of s' sid)"
proof (cases "tgt_Ingress tgt")
  case True
  with assms have "en_Proxy (entry_of s sid) \<noteq> None"
    "en_LastSpecHash (entry_of s sid) = proxyHash (proxyConfigFor tgt (rec_Cfg r))"
    by (simp_all add: settled_entry_def ingress_realised_def)
  from ingress_idle [OF True this] show ?thesis by (force simp: same_but_time_def)
next
  case False
  obtain e ok where "store_Get (rs_store s) sid = (e, ok)" by fastforce
  with False assms show ?thesis
    by (simp add: settled_entry_def ingress_realised_def reconcileIngress_def teardownIngress_def runs)
qed

lemma settled_egress_idle:
  assumes "settled_entry r tgt (entry_of s sid)"
    and "env_list (rec_env r) (rs_trace s) (marker_filter sid) = Inr gws" and "only_known (entry_of s sid) sid gws"
  shows "\<exists>s'. run_state (reconcileEgress r sid tgt) s = (None, s') \<and>
    rs_trace s' = rs_trace s @ (if tgt_Egress tgt = None then [] else [EvList (marker_filter sid) (Inr gws)]) \<and>
    same_but_time (entry_of s sid) (entry_of s' sid)"
proof (cases "tgt_Egress tgt")
  case None
  obtain e ok where "store_Get (rs_store s) sid = (e, ok)" by fastforce
  with None assms(1) show ?thesis by (simp add: settled_entry_def reconcileEgress_def teardownEgress_def runs)
next
  case (Some eg)
  with assms(1) have "rec_GatewayImage r \<noteq> []" "gateways_converged r eg (entry_of s sid)"
    by (simp_all add: settled_entry_def)
  from egress_second_pass_idle [OF Some this assms(2,3)] Some show ?thesis by (force simp: same_but_time_def)
qed

lemma settled_pass_idle:
  assumes "env_inspect (rec_env r) (rs_trace s) sid = Inr svc"
    and "map_of (ss_Labels (svc_Spec svc)) gatewayForLabel = None"
    and "env_networks (rec_env r) (rs_trace s @ [EvInspect sid (Inr svc)]) = Inr nets"
    and "Parse (parser_of r) svc nets = (tgt, True, None)" and "settled_entry r tgt (entry_of s sid)"
    and "env_list (rec_env r) (rs_trace s @ [EvInspect sid (Inr svc), EvNetworks (Inr nets)]) (marker_filter sid) = Inr gws"
    and "only_known (entry_of s sid) sid gws"
  shows "\<exists>s'. run_state (Reconcile r sid) s = (None, s') \<and>
    rs_trace s' = rs_trace s @ [EvInspect sid (Inr svc), EvNetworks (Inr nets)] @
      (if tgt_Egress tgt = None then [] else [EvList (marker_filter sid) (Inr gws)]) \<and>
    same_but_time (entry_of s sid) (entry_of s' sid)"
proof -
  let ?s0 = "extend s [EvInspect sid (Inr svc), EvNetworks (Inr nets)]"
  obtain s1 where 1: "run_state (reconcileIngress r sid tgt) ?s0 = (None, s1)" "rs_trace s1 = rs_trace ?s0"
    "same_but_time (entry_of s sid) (entry_of s1 sid)"
    using settled_ingress_idle [of r tgt ?s0 sid] assms(5) by auto
  then obtain tm where tm: "entry_of s1 sid = (entry_of s sid)\<lparr>en_LastReconcileAt := tm\<rparr>" by (auto simp: same_but_time_def)
  have "\<exists>s2. run_state (reconcileEgress r sid tgt) s1 = (None, s2) \<and>
    rs_trace s2 = rs_trace s1 @ (if tgt_Egress tgt = None then [] else [EvList (marker_filter sid) (Inr gws)]) \<and>
    same_but_time (entry_of s1 sid) (entry_of s2 sid)"
    by (rule settled_egress_idle) (use assms(5-7) 1(2) tm in \<open>simp_all add: only_known_def\<close>)
  then obtain s2 where "run_state (reconcileEgress r sid tgt) s1 = (None, s2)"
    "rs_trace s2 = rs_trace s1 @ (if tgt_Egress tgt = None then [] else [EvList (marker_filter sid) (Inr gws)])"
    "same_but_time (entry_of s1 sid) (entry_of s2 sid)" by blast
  with 1 tm assms(1-4) show ?thesis
    by (auto simp: Reconcile_def reconcile_found_def runs errors_join_def List.map_filter_simps same_but_time_def)
qed

section \<open>Properties\<close>


lemma demo_egress_any:
  assumes "store_Get (rs_store s) ''app1'' = (e, ok)" and "en_Gateways e = []" and "en_GatewayHash e = []"
  shows "fst (run_state (reconcileEgress demo_rec ''app1'' demo_tgt) s) = None"
  using assms gatewayHash_not_Nil
  by (simp add: reconcileEgress_def runs Let_def tracked_from_def stored_gateways_def fast_path_def desired_targets_def
      ensure_gateway_def createGateway_def errors_join_def List.map_filter_simps)

lemma demo_pass_ok:
  assumes "run_state (Reconcile demo_rec ''app1'') \<lparr>rs_store = NewStore, rs_trace = []\<rparr> = (err, s')"
  shows "err = None"
proof -
  let ?s0 = "\<lparr>rs_store = [], rs_trace = [EvInspect ''app1'' (Inr demo_svc), EvNetworks (Inr [])]\<rparr>"
  obtain s1 where 1: "run_state (reconcileIngress demo_rec ''app1'' demo_tgt) ?s0 = (None, s1)"
    using demo_ingress by blast
  have "entry_of ?s0 ''app1'' = zeroEntry" by (simp add: store_Get_def)
  then have "en_Gateways (entry_of s1 ''app1'') = []" "en_GatewayHash (entry_of s1 ''app1'') = []"
    using reconcileIngress_effect(1) [OF 1] ingress_keeps_hash [OF 1] by simp_all
  moreover obtain e ok where "store_Get (rs_store s1) ''app1'' = (e, ok)" by fastforce
  ultimately have "store_Get (rs_store s1) ''app1'' = (e, ok)" "en_Gateways e = []" "en_GatewayHash e = []" by simp_all
  from demo_egress_any [OF this] obtain s2 where "run_state (reconcileEgress demo_rec ''app1'' demo_tgt) s1 = (None, s2)"
    by (metis prod.collapse)
  with assms 1 show ?thesis
    by (simp add: Reconcile_def reconcile_found_def runs demo_parse NewStore_def errors_join_def List.map_filter_simps)
qed




end
