(* ===== verification/Spec2Isabelle.thy ===== *)
theory Spec2Isabelle
  imports Event_Flow Proxy_Run Bounded_Start Interleaving Drift Takeover Shutdown Reconciler_Outcome
begin

text \<open>
  \<^bold>\<open>A verification library for tailswarm.\<close>

  tailswarm is a daemon for Docker Swarm. Services opt in with labels. For a service with
  ingress the daemon runs an in-process proxy, a tsnet server that accepts on the tailnet and
  forwards to the service on the overlay network. For a service with egress it deploys one
  companion service, a gateway, per target; the gateway is the daemon's own image in gateway
  mode, listens on the overlay and dials out to the tailnet. Pre-auth keys for both come from a
  Headscale control server.

  \<^bold>\<open>The parts and how they interact.\<close> The watcher turns Docker events and a periodic listing
  into service IDs; a forwarder puts them into a sharded, deduplicating work queue; one worker
  per shard takes an ID and runs one reconcile pass; the pass inspects the service, parses its
  labels, and brings proxy and gateways in line, keeping its books in the store. \<^verbatim>\<open>run\<close> in
  \<^verbatim>\<open>cmd/tailswarm/main.go\<close> wires them together.

  \<^bold>\<open>Theories and sources\<close> (paths below \<^verbatim>\<open>src/internal/tailswarm\<close> unless given in full):

  \<^item> \<open>Prelude\<close>: the parts of Go and its standard library in use: strings as bytes, decimal
    numbers, errors as values of \<open>goerr\<close>, maps as association lists; shared lemmas.
  \<^item> \<open>Swarm\<close>: the Docker SDK's data, as far as it is read or written.
  \<^item> \<open>Digest\<close>: JSON rendering, SHA-256, hexadecimal and FNV-1a, on machine words. \<open>Json\<close>: a
    reader for JSON strings, by which the rendering is a prefix code (contract: locale
    \<open>element_code\<close>).
  \<^item> \<open>Labels\<close>: \<^verbatim>\<open>labels.go\<close>. \<^verbatim>\<open>Parse\<close> with its two directions, the tag allowlist and its glob
    matcher, the ports and the egress targets.
  \<^item> \<open>Config\<close>: \<^verbatim>\<open>config.go\<close>. \<^verbatim>\<open>Load\<close>: defaults, YAML and environment overlays, validation.
  \<^item> \<open>Store\<close>: \<^verbatim>\<open>state.go\<close>. Contract: locale \<open>kv_store\<close>.
  \<^item> \<open>Proxy\<close> and \<open>Forward\<close>: \<^verbatim>\<open>proxy.go\<close>. Bring-up and close of a proxy (contract: locale
    \<open>bring_up\<close>, shared with the egress side), the accept loop, and the four goroutines of a
    forwarded connection as the step relation \<open>fstep\<close>. \<open>Bounded_Start\<close>: the goroutines of
    \<^verbatim>\<open>startTsnetBounded\<close> as \<open>bstep\<close>. \<open>Proxy_Run\<close>: a whole running proxy of either direction, from
    its listeners to the end of \<^verbatim>\<open>Close\<close>, as \<open>cstep\<close> and \<open>pstep\<close> over \<open>fstep\<close>.
  \<^item> \<open>Egress_Gateway\<close>: \<^verbatim>\<open>egress_gateway.go\<close>. Specs, names and hashes of gateways.
  \<^item> \<open>Egress\<close>: \<^verbatim>\<open>egress.go\<close> and \<^verbatim>\<open>gateway_run.go\<close>. The egress data plane and \<^verbatim>\<open>RunGateway\<close>.
  \<^item> \<open>World\<close>: the interfaces \<^verbatim>\<open>DockerClient\<close>, \<^verbatim>\<open>Controller\<close>, limiter, clock and proxy factory, as
    an environment that answers every call depending on all calls made before, and the state
    monad of the reconciler, whose state is the store and the trace of calls.
  \<^item> \<open>Reconciler\<close>: \<^verbatim>\<open>reconciler.go\<close> up to line 742, one definition per operation.
    \<open>Reconciler_Frame\<close> (what a pass can touch, with the contracts \<open>ingress_contract\<close> and
    \<open>egress_contract\<close>), \<open>Reconciler_Steps\<close> (what each operation does to the trace),
    \<open>Reconciler_Ingress\<close>, \<open>Reconciler_Egress\<close>, \<open>Reconciler_Egress_Props\<close> and \<open>Reconciler_Pass\<close>
    hold its properties; \<open>Reconciler_Outcome\<close> says what a successful pass achieves;
    \<open>Reconciler_Local\<close> compares two runs of a pass (contract: locale \<open>two_views\<close>), \<open>Interleaving\<close>
    interleaves the passes of several workers call by call as \<open>istep\<close>, \<open>Drift\<close> says what the
    recorded hashes detect, \<open>Takeover\<close> follows two egress targets on one host, and \<open>Shutdown\<close> splits
    \<^verbatim>\<open>reconcileIngress\<close> where \<^verbatim>\<open>CloseAll\<close> may cut it.
  \<^item> \<open>Work_Queue\<close>: the rest of \<^verbatim>\<open>reconciler.go\<close>: \<^verbatim>\<open>Queue\<close>, with the interleaving of callers and
    workers as the step relation \<open>qstep\<close>. \<open>Queue_Drain\<close>: runs of the workers alone, and after
    a cancellation.
  \<^item> \<open>Watcher\<close>: \<^verbatim>\<open>watcher.go\<close>. Backoff on 64-bit durations, full list, select loop.
  \<^item> \<open>Headscale\<close>: \<^verbatim>\<open>headscale.go\<close>. The client with its shared user cache.
  \<^item> \<open>Docker\<close>: \<^verbatim>\<open>docker.go\<close>. The client over the SDK and the event goroutine \<open>sub_step\<close>. Contracts:
    \<open>docker_sdk\<close>, what Docker documents of its filters, and \<open>service_listing\<close>, what follows for
    the callers.
  \<^item> \<open>Own_Image\<close>: \<^verbatim>\<open>own_image.go\<close>. \<open>Daemon\<close>: \<^verbatim>\<open>cmd/tailswarm/main.go\<close>, the start-up as function
    \<open>run\<close> and the running daemon as step relation \<open>sstep\<close>. \<open>Event_Flow\<close>: the way of a service ID
    through the running daemon.

  \<^bold>\<open>What is shown.\<close>

  \<^item> Reconciler: no minted key is lost track of, whatever the environment answers; a successful
    pass leaves what the labels of the service ask for; ingress and egress converge and then stay idle; a failure keeps what runs; replacement starts the new
    proxy before it closes the old one; a service that is gone is taken down; entries stay well
    formed; a pass neither reads nor changes the entries of other services; keys are paced by
    the limiter and carry only permitted tags; proxies and gateways are replaced or updated
    exactly when a hashed field changed, collisions of SHA-256 apart.
  \<^item> Queue: under every interleaving the pending marks are exact, accepted work is not lost and
    no service has two workers; left alone, the workers empty the queue in a number of steps
    known in advance, each shard in order; once cancelled they all leave.
  \<^item> Watcher, Docker and Headscale clients: the event loop never loses its subscription for
    good; events arrive in order; \<^verbatim>\<open>ListServices\<close> implements its filter although it narrows in
    place; the resync covers exactly the labelled services; keys are minted for the right user
    under any interference on the cache; errors are classified without overlap.
  \<^item> Data plane: forwarding is transparent, leaves nothing open and winds down; bring-up is
    bounded and gives up cleanly; servers are closed exactly once; \<^verbatim>\<open>Close\<close> of a proxy returns whatever
    its connections do, accepts nothing afterwards, and everything can run down to closed.
  \<^item> Across components: the daemon as a whole only goes through states its parts can reach
    alone; passes interleaved call by call leave what the same passes leave one after the other;
    an ID the watcher offered stays on its way until a worker starts on it or a full queue
    refuses it, and one of the two happens within a bounded number of steps even while workers of
    other shards are stuck; a tick of the resync puts every labelled service on this way; every key-creation request on the wire is
    one the allowlist permits; the container that the control plane deploys runs as the gateway it
    was meant to be.
  \<^item> Some statements show where the code falls short of its comments: a failed gateway update
    is never retried, a second target on a host takes over the first one's gateway, a closed
    proxy can be taken for a running one, a teardown forgets what it could not remove, a proxy started
    during the shutdown stays open, \<^verbatim>\<open>Close\<close> does not wait for the forwarders, and a fractional rate
    limit stops all minting.

  \<^bold>\<open>Conventions.\<close> Stateful code is an action of the state monad or a step relation; every
  early return is a branch and every error a value. Third-party code and the operating system
  are arguments: the Docker SDK, tsnet, the HTTP client with the server behind it, the YAML and
  JSON decoders, file access, the text forms of durations, floats, URLs and times. What is
  relied on is a hypothesis of the theorem that needs it. Loops are structural recursions; the
  only counters are the rounds of \<open>strip_seqs\<close> (the length of the string, and every round
  removes a byte) and of \<open>json_body\<close> (the length of the string, and every round consumes one).
  Step relations have no fuel; where they must end, a measure bounds the number of steps.

  \<^bold>\<open>Concurrency.\<close> Where goroutines share state, the atomic steps of the model are critical
  sections and channel operations. In the running daemon a reconcile pass is one action, in an
  environment of its own. Theory \<open>Interleaving\<close> shows that this is enough: whatever calls of other
  workers come between the calls of a pass, it has the effect of such an action, because a pass depends
  on nothing in the store but its own service's entry and changes nothing else (theory
  \<open>Reconciler_Local\<close>), and no service has two workers. \<^verbatim>\<open>CloseAll\<close> is the one operation that
  meets the entries of other passes: in the running daemon its step may come between any two passes, and
  theory \<open>Shutdown\<close> has it cut an ingress pass in two.

  \<^bold>\<open>Not modelled.\<close> Logging; the texts of errors beyond their context and wrapping (quoting with
  \<^verbatim>\<open>%q\<close>, the duration in a timeout); the tests' dependency seam \<^verbatim>\<open>runDeps\<close>; the internals of the
  third-party code above; wall-clock progress, so that a timer is a branch that may be taken
  from its time on.
\<close>

end
